(* ===== verification/Prelude.thy ===== *)
theory Prelude
imports Main "HOL-Library.Word"
begin

text \<open>
  Types and generic facts shared by the components: error codes, C strings
  and byte buffers (both as a \<open>string\<close>, without the terminating NUL when a
  C string is meant), the conversions between the C integer types, the
  decimal and hexadecimal conversions of \<^verbatim>\<open>printf\<close>, and lemmas on lists and
  words that several component proofs use.
\<close>

unbundle bit_operations_syntax

named_theorems model_defs \<open>definitions unfolded when a concrete state is evaluated\<close>
named_theorems bal_simps \<open>facts on the balance of acquired and released resources\<close>

section \<open>Error codes\<close>

text \<open>
  The \<^verbatim>\<open>errno\<close> values the sources return by name, and \<open>EOther\<close> for a code that
  a kernel service hands back. A function that returns 0 or a code returns
  \<open>None\<close> or \<open>Some\<close> of it.
\<close>

datatype errno =
    EPERM | ENOENT | ESRCH | EIO | ENXIO | ENOMEM | EACCES | EFAULT | EINVAL
  | ENOTDIR | EISDIR | EBUSY | EROFS | ENAMETOOLONG | ENOTSUP | ENOTCONN
  | ETIMEDOUT | EBADF | EJUSTRETURN | ENODATA | EINTR | ENODEV | EMSGSIZE
  | EOPNOTSUPP | EOther int

type_synonym err = "errno option"
type_synonym bytes = string
type_synonym 'a result = "errno + 'a"

text \<open>The number of an error code, and the code of a number, 0 being success.\<close>

fun errno_code :: "errno \<Rightarrow> int" where
  "errno_code EPERM = 1" | "errno_code ENOENT = 2" | "errno_code ESRCH = 3" | "errno_code EIO = 5"
| "errno_code ENXIO = 6" | "errno_code EBADF = 9" | "errno_code ENOMEM = 12" | "errno_code EACCES = 13"
| "errno_code EFAULT = 14" | "errno_code EBUSY = 16" | "errno_code ENOTDIR = 20" | "errno_code EISDIR = 21"
| "errno_code EINVAL = 22" | "errno_code EROFS = 30" | "errno_code ENOTSUP = 45" | "errno_code ENOTCONN = 57"
| "errno_code ETIMEDOUT = 60" | "errno_code ENAMETOOLONG = 63" | "errno_code ENODATA = 96"
| "errno_code EINTR = 4" | "errno_code ENODEV = 19" | "errno_code EMSGSIZE = 40" | "errno_code EOPNOTSUPP = 102"
| "errno_code EJUSTRETURN = - 2" | "errno_code (EOther n) = n"

definition errno_of :: "int \<Rightarrow> errno" where
  "errno_of c =
     (case find (\<lambda>e. errno_code e = c)
        [EPERM, ENOENT, ESRCH, EIO, ENXIO, EBADF, ENOMEM, EACCES, EFAULT, EBUSY, ENOTDIR, EISDIR, EINVAL,
         EROFS, ENOTSUP, ENOTCONN, ETIMEDOUT, ENAMETOOLONG, ENODATA, EJUSTRETURN,
         EINTR, ENODEV, EMSGSIZE, EOPNOTSUPP] of
        Some e \<Rightarrow> e
      | None \<Rightarrow> EOther c)"

definition err_of :: "int \<Rightarrow> err" where
  "err_of c = (if c = 0 then None else Some (errno_of c))"

lemma errno_code_of [simp]: "errno_code (errno_of c) = c"
  by (auto simp: errno_of_def find_Some_iff split: option.split)

section \<open>C integers\<close>

definition to_int32 :: "int \<Rightarrow> int" where
  "to_int32 x = (x + 2 ^ 31) mod 2 ^ 32 - 2 ^ 31"

definition to_uint32 :: "int \<Rightarrow> int" where
  "to_uint32 x = x mod 2 ^ 32"

definition to_int64 :: "int \<Rightarrow> int" where
  "to_int64 x = (x + 2 ^ 63) mod 2 ^ 64 - 2 ^ 63"

definition to_uint64 :: "int \<Rightarrow> int" where
  "to_uint64 x = x mod 2 ^ 64"

lemma to_int32_id [simp]: "- (2 ^ 31) \<le> x \<Longrightarrow> x < 2 ^ 31 \<Longrightarrow> to_int32 x = x"
  by (simp add: to_int32_def)

lemma to_uint32_id [simp]: "0 \<le> x \<Longrightarrow> x < 2 ^ 32 \<Longrightarrow> to_uint32 x = x"
  by (simp add: to_uint32_def)

lemma to_int64_id [simp]: "- (2 ^ 63) \<le> x \<Longrightarrow> x < 2 ^ 63 \<Longrightarrow> to_int64 x = x"
  by (simp add: to_int64_def)

lemma to_uint64_id [simp]: "0 \<le> x \<Longrightarrow> x < 2 ^ 64 \<Longrightarrow> to_uint64 x = x"
  by (simp add: to_uint64_def)

lemma to_int32_bounds: "- (2 ^ 31) \<le> to_int32 x \<and> to_int32 x < 2 ^ 31"
proof -
  have "0 \<le> (x + 2 ^ 31) mod 2 ^ 32" "(x + 2 ^ 31) mod 2 ^ 32 < (2 ^ 32 :: int)"
    by simp_all
  then show ?thesis by (simp add: to_int32_def)
qed

section \<open>C strings\<close>

definition strlcpy :: "nat \<Rightarrow> string \<Rightarrow> string" where
  "strlcpy sz src = take (sz - 1) src"

lemma strlcpy_id [simp]: "length s < sz \<Longrightarrow> strlcpy sz s = s"
  by (simp add: strlcpy_def)

lemma length_strlcpy: "0 < sz \<Longrightarrow> length (strlcpy sz s) < sz"
  by (auto simp: strlcpy_def)

text \<open>The C string at the start of a buffer: the bytes before the first NUL.\<close>

definition cstr :: "bytes \<Rightarrow> string" where
  "cstr b = takeWhile (\<lambda>c. c \<noteq> CHR 0x00) b"

definition strnlen :: "bytes \<Rightarrow> nat \<Rightarrow> nat" where
  "strnlen b n = length (cstr (take n b))"

lemma cstr_append [simp]: "CHR 0x00 \<notin> set s \<Longrightarrow> cstr (s @ CHR 0x00 # r) = s"
  unfolding cstr_def by (subst takeWhile_append2) auto

lemma cstr_id [simp]: "CHR 0x00 \<notin> set s \<Longrightarrow> cstr s = s"
  by (auto simp: cstr_def takeWhile_eq_all_conv)

section \<open>Decimal and hexadecimal conversions\<close>

definition digit_char :: "nat \<Rightarrow> char" where
  "digit_char d = (if d < 10 then char_of (48 + d) else char_of (87 + d))"

fun nat_to_base :: "nat \<Rightarrow> nat \<Rightarrow> string" where
  "nat_to_base b n =
     (if n < b \<or> b < 2 then [digit_char n]
      else nat_to_base b (n div b) @ [digit_char (n mod b)])"

declare nat_to_base.simps [simp del]

definition fmt_u :: "int \<Rightarrow> string" where
  "fmt_u n = nat_to_base 10 (nat n)"

definition fmt_d :: "int \<Rightarrow> string" where
  "fmt_d n = (if n < 0 then CHR ''-'' # fmt_u (- n) else fmt_u n)"

definition fmt_x :: "int \<Rightarrow> string" where
  "fmt_x n = nat_to_base 16 (nat n)"

definition pad_left :: "char \<Rightarrow> nat \<Rightarrow> string \<Rightarrow> string" where
  "pad_left c w s = replicate (w - length s) c @ s"

definition pad_right :: "nat \<Rightarrow> string \<Rightarrow> string" where
  "pad_right w s = s @ replicate (w - length s) (CHR '' '')"

definition digit_value :: "char \<Rightarrow> nat" where
  "digit_value c = of_char c - 48"

definition isdigit :: "char \<Rightarrow> bool" where
  "isdigit c = (48 \<le> (of_char c :: nat) \<and> (of_char c :: nat) \<le> 57)"

lemma isdigit_digit_char [simp]: "d < 10 \<Longrightarrow> isdigit (digit_char d)"
  by (simp add: isdigit_def digit_char_def)

lemma digit_value_digit_char [simp]: "d < 10 \<Longrightarrow> digit_value (digit_char d) = d"
  by (simp add: digit_value_def digit_char_def)

lemma nat_to_base_nonempty [simp]: "nat_to_base b n \<noteq> []"
  by (subst nat_to_base.simps) simp

lemma nat_to_base10_digits: "c \<in> set (nat_to_base 10 n) \<Longrightarrow> isdigit c"
proof (induction "10 :: nat" n rule: nat_to_base.induct)
  case (1 n)
  show ?case
  proof (cases "n < 10")
    case True
    then show ?thesis using 1(2) by (simp add: nat_to_base.simps)
  next
    case False
    then have "c \<in> set (nat_to_base 10 (n div 10)) \<or> c = digit_char (n mod 10)"
      using 1(2) by (subst (asm) nat_to_base.simps) auto
    then show ?thesis using 1(1) False by auto
  qed
qed

text \<open>The value of a digit string, most significant digit first.\<close>

definition digits_value :: "nat \<Rightarrow> string \<Rightarrow> nat" where
  "digits_value acc s = foldl (\<lambda>a c. 10 * a + digit_value c) acc s"

lemma digits_value_Nil [simp]: "digits_value a [] = a"
  by (simp add: digits_value_def)

lemma digits_value_Cons [simp]: "digits_value a (c # s) = digits_value (10 * a + digit_value c) s"
  by (simp add: digits_value_def)

lemma digits_value_append [simp]: "digits_value a (s @ t) = digits_value (digits_value a s) t"
  by (simp add: digits_value_def)

lemma digits_value_print [simp]: "digits_value 0 (nat_to_base 10 n) = n"
proof (induction "10 :: nat" n rule: nat_to_base.induct)
  case (1 n)
  show ?case
  proof (cases "n < 10")
    case True
    then show ?thesis by (simp add: nat_to_base.simps)
  next
    case False
    then show ?thesis using 1 by (subst nat_to_base.simps) simp
  qed
qed

section \<open>Lists\<close>

text \<open>An array element, \<open>None\<close> outside the array.\<close>

definition nth_opt :: "'a list \<Rightarrow> int \<Rightarrow> 'a option" where
  "nth_opt xs i = (if 0 \<le> i \<and> nat i < length xs then Some (xs ! nat i) else None)"

text \<open>The \<open>n\<close> bytes of an integer in memory, least significant byte first.\<close>

fun le_bytes :: "nat \<Rightarrow> int \<Rightarrow> bytes" where
  "le_bytes 0 x = []"
| "le_bytes (Suc n) x = char_of (nat (x mod 256)) # le_bytes n (x div 256)"

fun le_value :: "bytes \<Rightarrow> int" where
  "le_value [] = 0"
| "le_value (c # cs) = int (of_char c) + 256 * le_value cs"

lemma length_le_bytes [simp]: "length (le_bytes n x) = n"
  by (induction n arbitrary: x) auto

lemma le_value_bytes: "le_value (le_bytes n x) = x mod 256 ^ n"
proof (induction n arbitrary: x)
  case (Suc n)
  have "x mod 256 + 256 * (x div 256 mod 256 ^ n) = x mod (256 * 256 ^ n)"
    using zmod_zmult2_eq [of "256 ^ n" x 256] by simp
  then show ?case using Suc.IH [of "x div 256"]
    by (simp add: of_char_of)
qed simp

lemma le_value_bounds: "0 \<le> le_value b \<and> le_value b < 256 ^ length b"
proof (induction b)
  case (Cons c b)
  have "(of_char c :: nat) < 256" using nat_of_char_less_256 by simp
  then have "int (of_char c) \<le> 255" by linarith
  then show ?case using Cons by simp
qed simp

lemma le_bytes_value: "le_bytes (length b) (le_value b) = b"
proof (induction b)
  case (Cons c b)
  have "(of_char c :: nat) < 256" using nat_of_char_less_256 by simp
  then have "(int (of_char c) + 256 * le_value b) mod 256 = int (of_char c)"
    "(int (of_char c) + 256 * le_value b) div 256 = le_value b"
    by auto
  then show ?case using Cons by simp
qed simp

lemma distinct_remove1_last: "distinct xs \<Longrightarrow> x \<notin> set (remove1 x xs)"
  by simp

lemma take_drop_split: "take (m + n) xs = take m xs @ take n (drop m xs)"
  by (simp add: take_add)

lemma all_less_Suc_conv: "(\<forall>i < Suc n. P i) = ((\<forall>i < n. P i) \<and> P n)"
  by (auto simp: less_Suc_eq)

lemma map_filter_Cons: "List.map_filter f (x # xs) =
    (case f x of None \<Rightarrow> List.map_filter f xs | Some y \<Rightarrow> y # List.map_filter f xs)"
  by (simp add: List.map_filter_def split: option.split)

lemma length_map_filter: "length (List.map_filter f xs) \<le> length xs"
  by (simp add: List.map_filter_def)

lemma set_map_filter: "set (List.map_filter f xs) = {y. \<exists>x \<in> set xs. f x = Some y}"
  by (force simp: List.map_filter_def)

end
