(* ===== verification/Kernel.thy ===== *)
theory Kernel
imports Prelude
begin

text \<open>
  The kernel services the extension calls, none of which are part of the
  sources. What they report is a parameter: a \<open>kenv\<close> record of functions and
  snapshots that every definition using one takes as an argument, and the copy
  to user space, a function argument of its own with its documented behaviour
  stated as \<open>uiomove_ok\<close>. What the sources acquire and release is
  counted in the state \<open>kst\<close>, so that the balance of a handler is a theorem.
\<close>

section \<open>Processes and credentials\<close>

record cred =
  cr_uid :: int
  cr_ruid :: int
  cr_svuid :: int
  cr_gid :: int
  cr_rgid :: int
  cr_svgid :: int

text \<open>
  The open file table of a process. \<open>fg_data\<close> is the vnode or socket behind a
  descriptor, \<open>None\<close> the NULL pointer.
\<close>

type_synonym vnode = nat
type_synonym socket = nat

record fileglob =
  fg_flag :: int
  fg_offset :: int
  fg_type :: int
  fg_count :: int
  fg_data :: "nat option"

record fileproc =
  fp_flags :: int
  fp_guard_attrs :: int
  fp_glob :: "fileglob option"

record filedesc =
  fd_nfiles :: int
  fd_afterlast :: int
  fd_ofiles :: "fileproc option list"
  fd_ofileflags :: "int list"
  fd_cdir :: "vnode option"
  fd_rdir :: "vnode option"

record proc =
  p_pid :: int
  p_ppid :: int
  p_pgrpid :: int
  p_sessionid :: int
  p_comm :: string
  p_stat :: int
  p_flag :: int
  p_cred :: cred
  p_uthlist :: "int list"
  p_start_sec :: int
  p_start_usec :: int
  p_fd :: filedesc
  p_textvp :: "vnode option"
  p_lflag :: int
  p_pcaction :: int
  p_task :: int
  p_exiting :: bool
  p_is64bit :: bool
  p_setugid :: bool
  p_limit :: int
  p_argc :: int
  p_argslen :: int
  p_user_stack :: int

definition cred0 :: cred where
  "cred0 = \<lparr> cr_uid = 0, cr_ruid = 0, cr_svuid = 0, cr_gid = 0, cr_rgid = 0, cr_svgid = 0 \<rparr>"

definition filedesc0 :: filedesc where
  "filedesc0 = \<lparr> fd_nfiles = 0, fd_afterlast = 0, fd_ofiles = [], fd_ofileflags = [],
     fd_cdir = None, fd_rdir = None \<rparr>"

definition proc0 :: proc where
  "proc0 = \<lparr> p_pid = 0, p_ppid = 0, p_pgrpid = 0, p_sessionid = 0, p_comm = [], p_stat = 0,
     p_flag = 0, p_cred = cred0, p_uthlist = [], p_start_sec = 0, p_start_usec = 0,
     p_fd = filedesc0, p_textvp = None, p_lflag = 0, p_pcaction = 0, p_task = 0, p_exiting = False,
     p_is64bit = True, p_setugid = False, p_limit = 0,
     p_argc = 0, p_argslen = 0, p_user_stack = 0 \<rparr>"

text \<open>
  \<open>proc_find_k\<close> is the process table as \<^verbatim>\<open>proc_find\<close> sees it, \<open>malloc_ok\<close> whether an
  allocation of a size succeeds, \<open>phys_of\<close> the kernel page map and \<open>tid_of\<close> the id
  of the thread at an address. Of the vnode layer: whether \<^verbatim>\<open>vnode_get\<close> and
  \<^verbatim>\<open>vnode_getwithvid\<close> succeed, the vnode id, the path, the mount with its file system
  id, and the vnode type; \<open>proc_name_k\<close> is the name
  \<^verbatim>\<open>proc_name\<close> reports for a pid.
\<close>

record kenv =
  proc_find_k :: "int \<Rightarrow> proc option"
  current_proc :: "proc option"
  current_thread :: int
  malloc_ok :: "int \<Rightarrow> bool"
  phys_of :: "int \<Rightarrow> int"
  tid_of :: "int \<Rightarrow> int"
  vnode_get_k :: "vnode \<Rightarrow> err"
  vnode_vid :: "vnode \<Rightarrow> int"
  vnode_getwithvid_k :: "vnode \<Rightarrow> int \<Rightarrow> err"
  vn_getpath_k :: "vnode \<Rightarrow> string option"
  vnode_mount_k :: "vnode \<Rightarrow> nat"
  mount_fsid_k :: "nat \<Rightarrow> int \<times> int"
  vnode_vtype_k :: "vnode \<Rightarrow> int"
  proc_name_k :: "int \<Rightarrow> string"

definition kenv0 :: kenv where
  "kenv0 = \<lparr> proc_find_k = (\<lambda>_. None), current_proc = None, current_thread = 0,
     malloc_ok = (\<lambda>_. True), phys_of = (\<lambda>_. 0), tid_of = (\<lambda>_. 0),
     vnode_get_k = (\<lambda>_. None), vnode_vid = (\<lambda>_. 0), vnode_getwithvid_k = (\<lambda>_ _. None),
     vn_getpath_k = (\<lambda>_. None), vnode_mount_k = (\<lambda>_. 0), mount_fsid_k = (\<lambda>_. (0, 0)), vnode_vtype_k = (\<lambda>_. 0), proc_name_k = (\<lambda>_. []) \<rparr>"

section \<open>Resources\<close>

text \<open>
  Outstanding process references by pid, credential references, bytes held
  from \<^verbatim>\<open>OSMalloc\<close>, blocks held from \<^verbatim>\<open>malloc\<close>, iocounts by vnode, socket
  references, the descriptor table mutexes held and the contexts created.
\<close>

record kst =
  proc_refs :: "int \<Rightarrow> int"
  cred_refs :: int
  os_bytes :: int
  mallocs :: int
  iocounts :: "vnode \<Rightarrow> int"
  sock_refs :: "socket \<Rightarrow> int"
  fd_locks :: int
  vfs_ctxs :: int

definition kst0 :: kst where
  "kst0 = \<lparr> proc_refs = (\<lambda>_. 0), cred_refs = 0, os_bytes = 0, mallocs = 0,
     iocounts = (\<lambda>_. 0), sock_refs = (\<lambda>_. 0), fd_locks = 0, vfs_ctxs = 0 \<rparr>"

definition proc_hold :: "int \<Rightarrow> kst \<Rightarrow> kst" where
  "proc_hold pid st = st\<lparr> proc_refs := (proc_refs st)(pid := proc_refs st pid + 1) \<rparr>"

definition proc_find :: "kenv \<Rightarrow> int \<Rightarrow> kst \<Rightarrow> proc option \<times> kst" where
  "proc_find k pid st =
     (case proc_find_k k pid of
        None \<Rightarrow> (None, st)
      | Some p \<Rightarrow> (Some p, proc_hold pid st))"

definition proc_rele :: "int \<Rightarrow> kst \<Rightarrow> kst" where
  "proc_rele pid st = st\<lparr> proc_refs := (proc_refs st)(pid := proc_refs st pid - 1) \<rparr>"

definition cred_ref :: "kst \<Rightarrow> kst" where "cred_ref st = st\<lparr> cred_refs := cred_refs st + 1 \<rparr>"
definition cred_unref :: "kst \<Rightarrow> kst" where "cred_unref st = st\<lparr> cred_refs := cred_refs st - 1 \<rparr>"

definition OSMalloc :: "kenv \<Rightarrow> int \<Rightarrow> kst \<Rightarrow> bool \<times> kst" where
  "OSMalloc k n st =
     (if malloc_ok k n then (True, st\<lparr> os_bytes := os_bytes st + n \<rparr>) else (False, st))"

definition OSFree :: "int \<Rightarrow> kst \<Rightarrow> kst" where
  "OSFree n st = st\<lparr> os_bytes := os_bytes st - n \<rparr>"

definition malloc_k :: "kenv \<Rightarrow> int \<Rightarrow> kst \<Rightarrow> bool \<times> kst" where
  "malloc_k k n st =
     (if malloc_ok k n then (True, st\<lparr> mallocs := mallocs st + 1 \<rparr>) else (False, st))"

definition free_k :: "kst \<Rightarrow> kst" where
  "free_k st = st\<lparr> mallocs := mallocs st - 1 \<rparr>"

definition proc_fdlock :: "kst \<Rightarrow> kst" where "proc_fdlock st = st\<lparr> fd_locks := fd_locks st + 1 \<rparr>"
definition proc_fdunlock :: "kst \<Rightarrow> kst" where "proc_fdunlock st = st\<lparr> fd_locks := fd_locks st - 1 \<rparr>"

definition sock_retain :: "socket \<Rightarrow> kst \<Rightarrow> kst" where
  "sock_retain so st = st\<lparr> sock_refs := (sock_refs st)(so := sock_refs st so + 1) \<rparr>"

definition sock_release :: "socket \<Rightarrow> kst \<Rightarrow> kst" where
  "sock_release so st = st\<lparr> sock_refs := (sock_refs st)(so := sock_refs st so - 1) \<rparr>"

definition vnode_hold :: "vnode \<Rightarrow> kst \<Rightarrow> kst" where
  "vnode_hold v st = st\<lparr> iocounts := (iocounts st)(v := iocounts st v + 1) \<rparr>"

definition vnode_put :: "vnode \<Rightarrow> kst \<Rightarrow> kst" where
  "vnode_put v st = st\<lparr> iocounts := (iocounts st)(v := iocounts st v - 1) \<rparr>"

definition vnode_get :: "kenv \<Rightarrow> vnode \<Rightarrow> kst \<Rightarrow> err \<times> kst" where
  "vnode_get k v st = (case vnode_get_k k v of None \<Rightarrow> (None, vnode_hold v st) | Some e \<Rightarrow> (Some e, st))"

definition vnode_getwithvid :: "kenv \<Rightarrow> vnode \<Rightarrow> int \<Rightarrow> kst \<Rightarrow> err \<times> kst" where
  "vnode_getwithvid k v vid st =
     (case vnode_getwithvid_k k v vid of None \<Rightarrow> (None, vnode_hold v st) | Some e \<Rightarrow> (Some e, st))"

definition vfs_context_create :: "kst \<Rightarrow> kst" where "vfs_context_create st = st\<lparr> vfs_ctxs := vfs_ctxs st + 1 \<rparr>"
definition vfs_context_rele :: "kst \<Rightarrow> kst" where "vfs_context_rele st = st\<lparr> vfs_ctxs := vfs_ctxs st - 1 \<rparr>"

lemma context_create_rele [simp, bal_simps]: "vfs_context_rele (vfs_context_create st) = st"
  by (simp add: vfs_context_create_def vfs_context_rele_def)

lemma fdlock_unlock [simp, bal_simps]: "proc_fdunlock (proc_fdlock st) = st"
  by (simp add: proc_fdlock_def proc_fdunlock_def)

lemma sock_retain_release [simp, bal_simps]: "sock_release so (sock_retain so st) = st"
  by (simp add: sock_retain_def sock_release_def)

lemma vnode_hold_put [simp, bal_simps]: "vnode_put v (vnode_hold v st) = st"
  by (simp add: vnode_hold_def vnode_put_def)

lemma cred_ref_unref [simp, bal_simps]: "cred_unref (cred_ref st) = st"
  by (simp add: cred_ref_def cred_unref_def)

lemma OSMalloc_free [simp, bal_simps]: "malloc_ok k n \<Longrightarrow> OSFree n (snd (OSMalloc k n st)) = st"
  by (simp add: OSMalloc_def OSFree_def)

lemma malloc_free [simp, bal_simps]: "malloc_ok k n \<Longrightarrow> free_k (snd (malloc_k k n st)) = st"
  by (simp add: malloc_k_def free_k_def)

lemma proc_hold_rele [simp, bal_simps]: "proc_rele pid (proc_hold pid st) = st"
  by (simp add: proc_hold_def proc_rele_def)

lemma proc_find_Some [simp]: "proc_find_k k pid = Some p \<Longrightarrow> proc_find k pid st = (Some p, proc_hold pid st)"
  by (simp add: proc_find_def)

lemma proc_find_None [simp]: "proc_find_k k pid = None \<Longrightarrow> proc_find k pid st = (None, st)"
  by (simp add: proc_find_def)

lemma fst_proc_find [simp]: "fst (proc_find k pid st) = proc_find_k k pid"
  by (simp add: proc_find_def split: option.split)

section \<open>Copying to user space\<close>

datatype uio_rw = UIO_READ | UIO_WRITE

text \<open>
  A \<open>uio\<close> is a transfer request: the file offset, the bytes still wanted and
  the bytes delivered so far. A kernel address is a buffer with an offset into
  it, so that an address outside the buffer can be expressed.
\<close>

record uio =
  uio_offset :: int
  uio_resid :: int
  uio_out :: bytes

type_synonym cptr = "bytes \<times> int"
type_synonym uiomove_fn = "cptr \<Rightarrow> int \<Rightarrow> uio \<Rightarrow> err \<times> uio"

definition in_buffer :: "cptr \<Rightarrow> int \<Rightarrow> bool" where
  "in_buffer p n \<longleftrightarrow> 0 \<le> snd p \<and> 0 \<le> n \<and> snd p + n \<le> int (length (fst p))"

definition uio_put :: "bytes \<Rightarrow> uio \<Rightarrow> uio" where
  "uio_put b u = u\<lparr> uio_offset := uio_offset u + int (length b),
                    uio_resid := uio_resid u - int (length b),
                    uio_out := uio_out u @ b \<rparr>"

text \<open>
  The documented behaviour of \<^verbatim>\<open>uiomove\<close> for a mapped user buffer: it moves as many
  bytes as were asked for and are still wanted, and advances the request.
\<close>

definition uiomove_ref :: uiomove_fn where
  "uiomove_ref p n u =
     (None, uio_put (take (nat (min n (uio_resid u))) (drop (nat (snd p)) (fst p))) u)"

definition uiomove_ok :: "uiomove_fn \<Rightarrow> bool" where
  "uiomove_ok um \<longleftrightarrow>
     (\<forall>p n u. in_buffer p n \<longrightarrow> 0 \<le> uio_resid u \<longrightarrow> um p n u = uiomove_ref p n u)"

lemma uiomove_ok_ref [simp]: "uiomove_ok uiomove_ref"
  by (simp add: uiomove_ok_def)

lemma uiomove_okD: "uiomove_ok um \<Longrightarrow> in_buffer p n \<Longrightarrow> 0 \<le> uio_resid u \<Longrightarrow> um p n u = uiomove_ref p n u"
  by (cases p) (simp add: uiomove_ok_def)

lemma uio_put_simps [simp]:
  "uio_offset (uio_put b u) = uio_offset u + int (length b)"
  "uio_resid (uio_put b u) = uio_resid u - int (length b)"
  "uio_out (uio_put b u) = uio_out u @ b"
  by (simp_all add: uio_put_def)

lemma uio_put_Nil [simp]: "uio_put [] u = u"
  by (simp add: uio_put_def)

lemma uio_put_put [simp]: "uio_put c (uio_put b u) = uio_put (b @ c) u"
  by (simp add: uio_put_def)

end
