(* ===== verification/Sbuf.thy ===== *)
theory Sbuf
imports Kernel
begin

text \<open>
  The append buffer of \<^verbatim>\<open>kext/lib/sbuf.c\<close> that renders the text nodes. The backing
  store is a byte list whose length is the allocated size: a write past the end
  would lengthen it and break the invariant. Proved: every operation keeps the
  invariant, so no write leaves the store; an append either adds its whole text
  or marks the buffer overflowed and changes nothing; an extensible buffer takes
  any text while memory lasts; and the formatting loop ends. The locale
  \<open>append_buffer\<close> is what the text nodes rely on, interpreted on the sbuf.
\<close>

section \<open>State\<close>

record sbuf =
  s_buf :: bytes
  s_size :: int
  s_len :: int
  s_autoextend :: bool
  s_dynamic :: bool
  s_dynstruct :: bool
  s_finished :: bool
  s_overflowed :: bool

definition SBUF_FIXEDLEN :: int where "SBUF_FIXEDLEN = 0"
definition SBUF_AUTOEXTEND :: int where "SBUF_AUTOEXTEND = 1"
definition SBUF_USRFLAGMSK :: int where "SBUF_USRFLAGMSK = 0xffff"
definition SBUF_MINEXTENDSIZE :: int where "SBUF_MINEXTENDSIZE = 16"
definition INT_MAX :: int where "INT_MAX = 2147483647"

text \<open>The page size is a property of the machine: the argument \<open>pg\<close>.\<close>

section \<open>Operations\<close>

definition sbuf_delete :: "sbuf \<Rightarrow> kst \<Rightarrow> kst" where
  "sbuf_delete s st =
     (let st = (if s_dynamic s then free_k st else st)
      in if s_dynstruct s then free_k st else st)"

function double_size :: "int \<Rightarrow> int \<Rightarrow> int" where
  "double_size target n = (if 0 < n \<and> n < target then double_size target (n * 2) else n)"
  by pat_completeness auto
termination by (relation "measure (\<lambda>(t, n). nat (t - n))") auto

declare double_size.simps [simp del]

definition sbuf_extendsize :: "int \<Rightarrow> int \<Rightarrow> int option" where
  "sbuf_extendsize pg target =
     (if target > INT_MAX then None
      else let new_size = (if target < pg then double_size target SBUF_MINEXTENDSIZE
                           else (target + pg - 1) AND NOT (pg - 1))
           in if new_size > INT_MAX then None else Some new_size)"

text \<open>
  \<open>have\<close> is whether the caller passes the structure, \<open>buf\<close> its buffer if it passes
  one. The result is \<open>None\<close> for NULL.
\<close>

definition sbuf_init :: "int \<Rightarrow> bool \<Rightarrow> sbuf" where
  "sbuf_init flags dynstruct =
     \<lparr> s_buf = [], s_size = 0, s_len = 0, s_autoextend = (flags AND SBUF_AUTOEXTEND \<noteq> 0),
       s_dynamic = False, s_dynstruct = dynstruct, s_finished = False, s_overflowed = False \<rparr>"

definition sbuf_new :: "kenv \<Rightarrow> int \<Rightarrow> bool \<Rightarrow> bytes option \<Rightarrow> int \<Rightarrow> int \<Rightarrow> kst \<Rightarrow> sbuf option \<times> kst" where
  "sbuf_new k pg have buf len0 flags st =
     (let len = to_uint64 len0
      in if len > INT_MAX \<or> flags AND NOT SBUF_USRFLAGMSK \<noteq> 0 then (None, st)
         else case (if have then (True, st) else malloc_k k 56 st) of
                (False, st) \<Rightarrow> (None, st)
              | (True, st) \<Rightarrow>
                  (let s = sbuf_init flags (\<not> have)
                   in case buf of
                        Some b \<Rightarrow> (Some (s\<lparr> s_size := len, s_buf := b \<rparr>), st)
                      | None \<Rightarrow>
                          (case (if s_autoextend s then sbuf_extendsize pg len else Some len) of
                             None \<Rightarrow> (None, sbuf_delete s st)
                           | Some n \<Rightarrow>
                               if n = 0 then (None, sbuf_delete s st)
                               else case malloc_k k n st of
                                      (False, st) \<Rightarrow> (None, sbuf_delete s st)
                                    | (True, st) \<Rightarrow>
                                        (Some (s\<lparr> s_buf := replicate (nat n) (CHR 0x00), s_size := n, s_dynamic := True \<rparr>), st))))"

definition sbuf_setpos :: "int \<Rightarrow> sbuf \<Rightarrow> bool \<times> sbuf" where
  "sbuf_setpos pos s = (if pos < 0 \<or> pos > s_len s then (False, s) else (True, s\<lparr> s_len := pos \<rparr>))"

definition sbuf_clear :: "sbuf \<Rightarrow> sbuf" where
  "sbuf_clear s = snd (sbuf_setpos 0 (s\<lparr> s_finished := False, s_overflowed := False \<rparr>))"

text \<open>
  The grown store keeps the old bytes; the new ones are unspecified in the code
  and zero here, nothing reads them before they are written.
\<close>

definition sbuf_extend :: "kenv \<Rightarrow> int \<Rightarrow> int \<Rightarrow> sbuf \<Rightarrow> kst \<Rightarrow> (bool \<times> sbuf) \<times> kst" where
  "sbuf_extend k pg addlen s st =
     (if addlen = 0 then ((True, s), st)
      else if \<not> s_autoextend s then ((False, s), st)
      else if s_size s + addlen \<ge> 2 ^ 64 then ((False, s), st)
      else case sbuf_extendsize pg (s_size s + addlen) of
             None \<Rightarrow> ((False, s), st)
           | Some new_size \<Rightarrow>
               (case malloc_k k new_size st of
                  (False, st) \<Rightarrow> ((False, s), st)
                | (True, st) \<Rightarrow>
                    ((True, s\<lparr> s_buf := s_buf s @ replicate (nat (new_size - s_size s)) (CHR 0x00),
                              s_size := new_size, s_dynamic := True \<rparr>),
                     if s_dynamic s then free_k st else st)))"

definition sbuf_capacity :: "sbuf \<Rightarrow> int" where
  "sbuf_capacity s = to_uint64 (s_size s - s_len s - 1)"

definition sbuf_ensure_capacity :: "kenv \<Rightarrow> int \<Rightarrow> int \<Rightarrow> sbuf \<Rightarrow> kst \<Rightarrow> (bool \<times> sbuf) \<times> kst" where
  "sbuf_ensure_capacity k pg wanted s st =
     (let sz = sbuf_capacity s
      in if sz \<ge> wanted then ((True, s), st) else sbuf_extend k pg (wanted - sz) s st)"

text \<open>Bytes written at an offset of the store.\<close>

definition put_at :: "int \<Rightarrow> bytes \<Rightarrow> bytes \<Rightarrow> bytes" where
  "put_at off b buf = take (nat off) buf @ b @ drop (nat off + length b) buf"

definition sbuf_bcat :: "kenv \<Rightarrow> int \<Rightarrow> bytes \<Rightarrow> sbuf \<Rightarrow> kst \<Rightarrow> (bool \<times> sbuf) \<times> kst" where
  "sbuf_bcat k pg data s st =
     (if s_overflowed s then ((False, s), st)
      else case sbuf_ensure_capacity k pg (int (length data)) s st of
             ((False, s), st) \<Rightarrow> ((False, s\<lparr> s_overflowed := True \<rparr>), st)
           | ((True, s), st) \<Rightarrow>
               ((True, s\<lparr> s_buf := put_at (s_len s) data (s_buf s), s_len := s_len s + int (length data) \<rparr>), st))"

definition sbuf_bcpy :: "kenv \<Rightarrow> int \<Rightarrow> bytes \<Rightarrow> sbuf \<Rightarrow> kst \<Rightarrow> (bool \<times> sbuf) \<times> kst" where
  "sbuf_bcpy k pg data s st = sbuf_bcat k pg data (sbuf_clear s) st"

definition sbuf_cat :: "kenv \<Rightarrow> int \<Rightarrow> string \<Rightarrow> sbuf \<Rightarrow> kst \<Rightarrow> (bool \<times> sbuf) \<times> kst" where
  "sbuf_cat k pg str s st = sbuf_bcat k pg (cstr str) s st"

definition sbuf_cpy :: "kenv \<Rightarrow> int \<Rightarrow> string \<Rightarrow> sbuf \<Rightarrow> kst \<Rightarrow> (bool \<times> sbuf) \<times> kst" where
  "sbuf_cpy k pg str s st = sbuf_cat k pg str (sbuf_clear s) st"

text \<open>
  \<open>txt\<close> is the formatted text. \<^verbatim>\<open>vsnprintf\<close> writes as much of it as fits with a NUL and
  returns its whole length, negative beyond \<open>INT_MAX\<close>. The loop formats again after
  every extension.
\<close>

definition vsnprintf_at :: "string \<Rightarrow> sbuf \<Rightarrow> sbuf" where
  "vsnprintf_at txt s =
     s\<lparr> s_buf := put_at (s_len s) (take (nat (sbuf_capacity s)) txt @ [CHR 0x00]) (s_buf s) \<rparr>"

partial_function (option) sbuf_vprintf_loop ::
  "kenv \<Rightarrow> int \<Rightarrow> string \<Rightarrow> sbuf \<Rightarrow> kst \<Rightarrow> ((bool \<times> sbuf) \<times> kst) option" where
  "sbuf_vprintf_loop k pg txt s st =
     (let s1 = vsnprintf_at txt s
      in if int (length txt) > INT_MAX then Some ((False, s1), st)
         else if int (length txt) \<le> sbuf_capacity s
              then Some ((True, s1\<lparr> s_len := s_len s1 + int (length txt) \<rparr>), st)
         else let r = sbuf_ensure_capacity k pg (int (length txt)) s1 st
              in if fst (fst r) then sbuf_vprintf_loop k pg txt (snd (fst r)) (snd r)
                 else Some ((False, (snd (fst r))\<lparr> s_overflowed := True \<rparr>), snd r))"

declare sbuf_vprintf_loop.simps [code]

definition sbuf_vprintf :: "kenv \<Rightarrow> int \<Rightarrow> string \<Rightarrow> sbuf \<Rightarrow> kst \<Rightarrow> ((bool \<times> sbuf) \<times> kst) option" where
  "sbuf_vprintf k pg txt s st =
     (if s_overflowed s then Some ((False, s), st) else sbuf_vprintf_loop k pg txt s st)"

definition sbuf_printf :: "kenv \<Rightarrow> int \<Rightarrow> string \<Rightarrow> sbuf \<Rightarrow> kst \<Rightarrow> ((bool \<times> sbuf) \<times> kst) option" where
  "sbuf_printf k pg txt s st = sbuf_vprintf k pg txt s st"

definition sbuf_putc :: "kenv \<Rightarrow> int \<Rightarrow> char \<Rightarrow> sbuf \<Rightarrow> kst \<Rightarrow> (bool \<times> sbuf) \<times> kst" where
  "sbuf_putc k pg c s st =
     (if s_overflowed s then ((False, s), st)
      else case sbuf_ensure_capacity k pg 1 s st of
             ((False, s), st) \<Rightarrow> ((False, s\<lparr> s_overflowed := True \<rparr>), st)
           | ((True, s), st) \<Rightarrow>
               ((True, if c \<noteq> CHR 0x00
                       then s\<lparr> s_buf := put_at (s_len s) [c] (s_buf s), s_len := s_len s + 1 \<rparr> else s), st))"

definition isspace :: "char \<Rightarrow> bool" where
  "isspace ch \<longleftrightarrow> ch = CHR '' '' \<or> ch = CHR 0x0A \<or> ch = CHR 0x09"

function trim_len :: "bytes \<Rightarrow> int \<Rightarrow> int" where
  "trim_len buf n = (if n > 0 \<and> isspace (buf ! nat (n - 1)) then trim_len buf (n - 1) else n)"
  by pat_completeness auto
termination by (relation "measure (\<lambda>(b, n). nat n)") auto

declare trim_len.simps [simp del]

definition sbuf_trim :: "sbuf \<Rightarrow> bool \<times> sbuf" where
  "sbuf_trim s = (if s_overflowed s then (False, s) else (True, s\<lparr> s_len := trim_len (s_buf s) (s_len s) \<rparr>))"

definition sbuf_finish :: "sbuf \<Rightarrow> sbuf" where
  "sbuf_finish s = s\<lparr> s_buf := put_at (s_len s) [CHR 0x00] (s_buf s), s_overflowed := False, s_finished := True \<rparr>"

definition sbuf_data :: "sbuf \<Rightarrow> bytes" where "sbuf_data s = s_buf s"

definition sbuf_len :: "sbuf \<Rightarrow> int" where
  "sbuf_len s = (if s_overflowed s then - 1 else s_len s)"

definition sbuf_done :: "sbuf \<Rightarrow> bool" where "sbuf_done s = s_finished s"

section \<open>The invariant\<close>

definition sbuf_wf :: "sbuf \<Rightarrow> bool" where
  "sbuf_wf s \<longleftrightarrow> 0 \<le> s_len s \<and> s_len s < s_size s \<and> s_size s \<le> INT_MAX \<and> s_size s = int (length (s_buf s))"

definition sbuf_content :: "sbuf \<Rightarrow> string" where
  "sbuf_content s = take (nat (s_len s)) (s_buf s)"

definition page_ok :: "int \<Rightarrow> bool" where
  "page_ok pg \<longleftrightarrow> (\<exists>n. 4 \<le> n \<and> pg = 2 ^ n)"

section \<open>Sizes\<close>

lemma double_size_ge: "0 < n \<Longrightarrow> t \<le> double_size t n \<and> n \<le> double_size t n"
proof (induction t n rule: double_size.induct)
  case (1 t n)
  show ?case
  proof (cases "n < t")
    case True
    then show ?thesis using 1 by (subst (1 2) double_size.simps) auto
  qed (use 1 in \<open>subst (1 2) double_size.simps, auto\<close>)
qed

lemma double_size_less: "0 < n \<Longrightarrow> double_size t n \<le> max n (2 * t)"
proof (induction t n rule: double_size.induct)
  case (1 t n)
  show ?case
  proof (cases "n < t")
    case True
    then show ?thesis using 1 by (subst double_size.simps) auto
  qed (use 1 in \<open>subst double_size.simps, auto\<close>)
qed

lemma and_not_mask: "x AND NOT (2 ^ n - 1) = x div 2 ^ n * (2 ^ n :: int)"
proof -
  have "x AND NOT (mask n) = push_bit n (drop_bit n x)"
    by (rule bit_eqI) (auto simp: bit_simps)
  then show ?thesis by (simp add: mask_eq_exp_minus_1 push_bit_eq_mult drop_bit_eq_div)
qed

lemma round_page:
  assumes "page_ok pg"
  shows "t \<le> (t + pg - 1) AND NOT (pg - 1)" "(t + pg - 1) AND NOT (pg - 1) < t + pg" "16 \<le> pg"
proof -
  obtain n where n: "4 \<le> n" "pg = 2 ^ n" using assms by (auto simp: page_ok_def)
  have p: "0 < (2 :: int) ^ n" by simp
  have e: "(t + pg - 1) AND NOT (pg - 1) = (t + pg - 1) - (t + pg - 1) mod pg"
    using and_not_mask [of "t + pg - 1" n] n by (simp add: minus_mod_eq_div_mult)
  have m: "0 \<le> (t + pg - 1) mod pg" "(t + pg - 1) mod pg < pg" using n p by simp_all
  show "t \<le> (t + pg - 1) AND NOT (pg - 1)" "(t + pg - 1) AND NOT (pg - 1) < t + pg" using e m by linarith+
  have "(2 :: int) ^ 4 \<le> 2 ^ n" using n(1) by (intro power_increasing) auto
  then show "16 \<le> pg" using n(2) by simp
qed

lemma extendsize_ge:
  assumes "page_ok pg" "0 \<le> t" "sbuf_extendsize pg t = Some n"
  shows "t \<le> n \<and> 0 < n \<and> n \<le> INT_MAX"
  using assms double_size_ge [of 16 t] round_page(1,2) [OF assms(1), of t] round_page(3) [OF assms(1)]
  by (auto simp: sbuf_extendsize_def SBUF_MINEXTENDSIZE_def Let_def split: if_splits)

lemma extendsize_Some:
  assumes "page_ok pg" "0 \<le> t" "t + pg \<le> INT_MAX"
  shows "\<exists>n. sbuf_extendsize pg t = Some n"
proof -
  define r where "r = (t + pg - 1) AND NOT (pg - 1)"
  have "r < t + pg" "16 \<le> pg" using round_page [OF assms(1)] by (simp_all add: r_def)
  moreover have "double_size t 16 \<le> max 16 (2 * t)" by (rule double_size_less) simp
  ultimately show ?thesis using assms
    by (auto simp: sbuf_extendsize_def SBUF_MINEXTENDSIZE_def Let_def INT_MAX_def r_def [symmetric])
qed

section \<open>Operations keep the invariant\<close>

lemma capacity_eq: "sbuf_wf s \<Longrightarrow> sbuf_capacity s = s_size s - s_len s - 1"
  by (simp add: sbuf_capacity_def sbuf_wf_def INT_MAX_def)

lemma length_put_at: "0 \<le> off \<Longrightarrow> nat off + length b \<le> length buf \<Longrightarrow> length (put_at off b buf) = length buf"
  by (simp add: put_at_def)

lemma take_put_at: "0 \<le> off \<Longrightarrow> nat off \<le> length buf \<Longrightarrow> take (nat off) (put_at off b buf) = take (nat off) buf"
  by (simp add: put_at_def)

lemma take_put_at_all:
  "0 \<le> off \<Longrightarrow> nat off \<le> length buf \<Longrightarrow> take (nat (off + int (length b))) (put_at off b buf) = take (nat off) buf @ b"
  by (simp add: put_at_def nat_add_distrib)

lemma ensure_capacity_ok:
  assumes wf: "sbuf_wf s" and pg: "page_ok pg" and w: "0 \<le> wanted"
    and r: "sbuf_ensure_capacity k pg wanted s st = ((ok, s'), st')"
  shows "sbuf_wf s' \<and> sbuf_content s' = sbuf_content s \<and> s_len s' = s_len s \<and> s_overflowed s' = s_overflowed s \<and>
    s_autoextend s' = s_autoextend s \<and> (ok \<longrightarrow> wanted \<le> sbuf_capacity s') \<and> (\<not> ok \<longrightarrow> s' = s)"
proof (cases "wanted \<le> sbuf_capacity s")
  case True
  then show ?thesis using r wf by (simp add: sbuf_ensure_capacity_def)
next
  case False
  have e: "sbuf_extend k pg (wanted - sbuf_capacity s) s st = ((ok, s'), st')"
    using r False by (simp add: sbuf_ensure_capacity_def)
  show ?thesis
  proof (cases ok)
    case False
    then have "s' = s" using e
      by (auto simp: sbuf_extend_def split: if_splits option.splits prod.splits bool.splits)
    then show ?thesis using wf False by simp
  next
    case True
    then obtain n where n: "sbuf_extendsize pg (s_size s + (wanted - sbuf_capacity s)) = Some n"
        "s' = s\<lparr> s_buf := s_buf s @ replicate (nat (n - s_size s)) (CHR 0x00), s_size := n, s_dynamic := True \<rparr>"
      using e \<open>\<not> wanted \<le> sbuf_capacity s\<close>
      by (auto simp: sbuf_extend_def split: if_splits option.splits prod.splits bool.splits)
    have "s_size s + (wanted - sbuf_capacity s) \<le> n \<and> 0 < n \<and> n \<le> INT_MAX"
      using extendsize_ge [OF pg _ n(1)] wf \<open>\<not> wanted \<le> sbuf_capacity s\<close> by (simp add: sbuf_wf_def)
    then show ?thesis using n wf w True \<open>\<not> wanted \<le> sbuf_capacity s\<close> capacity_eq [OF wf]
      by (auto simp: sbuf_wf_def sbuf_content_def sbuf_capacity_def INT_MAX_def)
  qed
qed

lemma put_content:
  assumes "sbuf_wf s" "int (length b) \<le> sbuf_capacity s"
  shows "sbuf_wf (s\<lparr> s_buf := put_at (s_len s) b (s_buf s), s_len := s_len s + int (length b) \<rparr>) \<and>
    sbuf_content (s\<lparr> s_buf := put_at (s_len s) b (s_buf s), s_len := s_len s + int (length b) \<rparr>) = sbuf_content s @ b"
proof -
  have "nat (s_len s) + length b < length (s_buf s)" "0 \<le> s_len s"
    using assms capacity_eq [OF assms(1)] by (auto simp: sbuf_wf_def)
  then show ?thesis
    using assms capacity_eq [OF assms(1)] take_put_at_all [of "s_len s" "s_buf s" b]
    by (auto simp: sbuf_wf_def sbuf_content_def length_put_at)
qed

lemma bcat_ok:
  assumes "sbuf_wf s" "page_ok pg" "sbuf_bcat k pg data s st = ((ok, s'), st')"
  shows "sbuf_wf s' \<and> s_autoextend s' = s_autoextend s \<and>
    (if ok then \<not> s_overflowed s \<and> \<not> s_overflowed s' \<and> sbuf_content s' = sbuf_content s @ data
     else s_overflowed s' \<and> sbuf_content s' = sbuf_content s)"
proof (cases "s_overflowed s")
  case True
  then show ?thesis using assms by (simp add: sbuf_bcat_def)
next
  case False
  obtain o1 s1 st1 where e: "sbuf_ensure_capacity k pg (int (length data)) s st = ((o1, s1), st1)" by (metis prod.collapse)
  have x: "sbuf_wf s1 \<and> sbuf_content s1 = sbuf_content s \<and> s_overflowed s1 = s_overflowed s \<and> s_autoextend s1 = s_autoextend s \<and>
      (o1 \<longrightarrow> int (length data) \<le> sbuf_capacity s1)"
    using ensure_capacity_ok [OF assms(1,2) _ e] by simp
  show ?thesis
  proof (cases o1)
    case True
    then show ?thesis using False assms(3) e x put_content [of s1 data] by (auto simp: sbuf_bcat_def)
  next
    case o1: False
    then have "ok = False" "s' = s1\<lparr> s_overflowed := True \<rparr>" using False assms(3) e by (auto simp: sbuf_bcat_def)
    then show ?thesis using x by (simp add: sbuf_wf_def sbuf_content_def)
  qed
qed

lemma vsnprintf_wf:
  assumes "sbuf_wf s"
  shows "sbuf_wf (vsnprintf_at txt s) \<and> sbuf_content (vsnprintf_at txt s) = sbuf_content s \<and>
    sbuf_capacity (vsnprintf_at txt s) = sbuf_capacity s \<and> s_len (vsnprintf_at txt s) = s_len s \<and>
    s_overflowed (vsnprintf_at txt s) = s_overflowed s \<and> s_autoextend (vsnprintf_at txt s) = s_autoextend s"
proof -
  have "0 \<le> s_len s" "nat (s_len s) + length (take (nat (sbuf_capacity s)) txt @ [CHR 0x00]) \<le> length (s_buf s)"
    using assms capacity_eq [OF assms] by (auto simp: sbuf_wf_def)
  then show ?thesis using assms
    by (auto simp: vsnprintf_at_def sbuf_wf_def sbuf_content_def length_put_at take_put_at sbuf_capacity_def)
qed

lemma vsnprintf_fit:
  assumes "sbuf_wf s" "int (length txt) \<le> sbuf_capacity s"
  shows "sbuf_wf ((vsnprintf_at txt s)\<lparr> s_len := s_len s + int (length txt) \<rparr>) \<and>
    sbuf_content ((vsnprintf_at txt s)\<lparr> s_len := s_len s + int (length txt) \<rparr>) = sbuf_content s @ txt"
proof -
  have c: "sbuf_capacity s = s_size s - s_len s - 1" by (rule capacity_eq [OF assms(1)])
  have t: "take (nat (sbuf_capacity s)) txt = txt" using assms(2) by simp
  have b: "0 \<le> s_len s" "nat (s_len s) + length (txt @ [CHR 0x00]) \<le> length (s_buf s)"
    using assms c by (auto simp: sbuf_wf_def)
  have "take (nat (s_len s + int (length txt))) (put_at (s_len s) (txt @ [CHR 0x00]) (s_buf s)) =
      take (nat (s_len s)) (s_buf s) @ txt"
    using b by (simp add: put_at_def nat_add_distrib)
  then show ?thesis using assms b c t
    by (auto simp: vsnprintf_at_def sbuf_wf_def sbuf_content_def length_put_at)
qed

lemma vprintf_loop_fit:
  assumes "sbuf_wf s" "int (length txt) \<le> sbuf_capacity s" "int (length txt) \<le> INT_MAX"
  shows "sbuf_vprintf_loop k pg txt s st =
    Some ((True, (vsnprintf_at txt s)\<lparr> s_len := s_len s + int (length txt) \<rparr>), st)"
  using assms vsnprintf_wf [OF assms(1), of "txt"] by (subst sbuf_vprintf_loop.simps) (simp add: Let_def)

text \<open>The loop formats at most twice: an extension makes room for the whole text.\<close>

lemma vprintf_ok:
  assumes "sbuf_wf s" "page_ok pg" "int (length txt) \<le> INT_MAX"
  shows "\<exists>ok s' st'. sbuf_vprintf k pg txt s st = Some ((ok, s'), st') \<and>
    sbuf_wf s' \<and> s_autoextend s' = s_autoextend s \<and>
    (if ok then \<not> s_overflowed s \<and> \<not> s_overflowed s' \<and> sbuf_content s' = sbuf_content s @ txt
     else s_overflowed s' \<and> sbuf_content s' = sbuf_content s)"
proof (cases "s_overflowed s")
  case True
  then show ?thesis using assms by (intro exI [of _ False] exI [of _ s] exI [of _ st]) (simp add: sbuf_vprintf_def)
next
  case False
  show ?thesis
  proof (cases "int (length txt) \<le> sbuf_capacity s")
    case True
    then show ?thesis
      using False assms vprintf_loop_fit [OF assms(1) True assms(3)] vsnprintf_fit [OF assms(1) True]
        vsnprintf_wf [OF assms(1), of "txt"]
      by (auto simp: sbuf_vprintf_def)
  next
    case nofit: False
    define s0 where "s0 = vsnprintf_at txt s"
    have s0: "sbuf_wf s0" "sbuf_content s0 = sbuf_content s" "sbuf_capacity s0 = sbuf_capacity s" "\<not> s_overflowed s0"
        "s_autoextend s0 = s_autoextend s"
      using vsnprintf_wf [OF assms(1), of "txt"] False by (auto simp: s0_def)
    obtain o1 s1 st1 where e: "sbuf_ensure_capacity k pg (int (length txt)) s0 st = ((o1, s1), st1)" by (metis prod.collapse)
    have x: "sbuf_wf s1 \<and> sbuf_content s1 = sbuf_content s0 \<and> s_overflowed s1 = s_overflowed s0 \<and> s_autoextend s1 = s_autoextend s0 \<and>
        (o1 \<longrightarrow> int (length txt) \<le> sbuf_capacity s1)"
      using ensure_capacity_ok [OF s0(1) assms(2) _ e] by simp
    have u: "sbuf_vprintf_loop k pg txt s st =
        (if o1 then sbuf_vprintf_loop k pg txt s1 st1 else Some ((False, s1\<lparr> s_overflowed := True \<rparr>), st1))"
      using nofit assms(3) e by (subst sbuf_vprintf_loop.simps) (simp add: s0_def Let_def)
    show ?thesis
    proof (cases o1)
      case True
      have w: "sbuf_wf s1" "int (length txt) \<le> sbuf_capacity s1" using x True by auto
      then show ?thesis
        using False u True x s0 vprintf_loop_fit [OF w assms(3)] vsnprintf_fit [OF w] vsnprintf_wf [OF w(1), of "txt"]
        by (auto simp: sbuf_vprintf_def)
    next
      case o1: False
      then show ?thesis using False u x s0 by (auto simp: sbuf_vprintf_def sbuf_wf_def sbuf_content_def)
    qed
  qed
qed
lemma putc_ok:
  assumes "sbuf_wf s" "page_ok pg" "sbuf_putc k pg c s st = ((ok, s'), st')"
  shows "sbuf_wf s' \<and>
    (if ok then \<not> s_overflowed s' \<and> sbuf_content s' = sbuf_content s @ (if c = CHR 0x00 then [] else [c])
     else s_overflowed s' \<and> sbuf_content s' = sbuf_content s)"
proof (cases "s_overflowed s")
  case True
  then show ?thesis using assms by (simp add: sbuf_putc_def)
next
  case False
  obtain o1 s1 st1 where e: "sbuf_ensure_capacity k pg 1 s st = ((o1, s1), st1)" by (metis prod.collapse)
  have x: "sbuf_wf s1 \<and> sbuf_content s1 = sbuf_content s \<and> s_overflowed s1 = s_overflowed s \<and> (o1 \<longrightarrow> 1 \<le> sbuf_capacity s1)"
    using ensure_capacity_ok [OF assms(1,2) _ e] by simp
  show ?thesis
  proof (cases o1)
    case True
    then show ?thesis using False assms(3) e x put_content [of s1 "[c]"] by (auto simp: sbuf_putc_def)
  next
    case o1: False
    then have "ok = False" "s' = s1\<lparr> s_overflowed := True \<rparr>" using False assms(3) e by (auto simp: sbuf_putc_def)
    then show ?thesis using x by (simp add: sbuf_wf_def sbuf_content_def)
  qed
qed

lemma trim_len_bounds: "0 \<le> n \<Longrightarrow> 0 \<le> trim_len b n \<and> trim_len b n \<le> n"
proof (induction b n rule: trim_len.induct)
  case (1 b n)
  show ?case
  proof (cases "n > 0 \<and> isspace (b ! nat (n - 1))")
    case True
    then show ?thesis using 1 by (subst (1 2) trim_len.simps) auto
  qed (use 1 in \<open>subst (1 2) trim_len.simps, auto\<close>)
qed

lemma finish_ok:
  assumes "sbuf_wf s"
  shows "sbuf_wf (sbuf_finish s) \<and> sbuf_content (sbuf_finish s) = sbuf_content s \<and>
    s_buf (sbuf_finish s) ! nat (s_len s) = CHR 0x00 \<and> sbuf_len (sbuf_finish s) = s_len s"
proof -
  have "nat (s_len s) < length (s_buf s)" "0 \<le> s_len s" using assms by (auto simp: sbuf_wf_def)
  then show ?thesis using assms
    by (auto simp: sbuf_finish_def sbuf_wf_def sbuf_content_def length_put_at take_put_at sbuf_len_def
        put_at_def nth_append)
qed

lemma new_ok:
  assumes "page_ok pg" "sbuf_new k pg h buf n flags st = (Some s, st')" "0 \<le> n" "n \<le> INT_MAX"
    and "\<And>b. buf = Some b \<Longrightarrow> 0 < n \<and> int (length b) = n"
  shows "sbuf_wf s \<and> sbuf_content s = [] \<and> \<not> s_overflowed s \<and> s_autoextend s = (flags AND SBUF_AUTOEXTEND \<noteq> 0) \<and> n \<le> s_size s"
proof -
  have u: "to_uint64 n = n" using assms(3,4) by (simp add: INT_MAX_def)
  show ?thesis
  proof (cases buf)
    case (Some b)
    then show ?thesis using assms(2-4) assms(5) [OF Some] u
      by (auto simp: sbuf_new_def sbuf_init_def sbuf_wf_def sbuf_content_def Let_def split: if_splits prod.splits bool.splits)
  next
    case None
    have e: "sbuf_extendsize pg n = Some m \<Longrightarrow> n \<le> m \<and> 0 < m \<and> m \<le> INT_MAX" for m
      using extendsize_ge [OF assms(1,3)] by blast
    show ?thesis using assms(2-4) None u e
      by (auto simp: sbuf_new_def sbuf_init_def sbuf_wf_def sbuf_content_def Let_def
          split: if_splits prod.splits bool.splits option.splits)
  qed
qed

section \<open>Rendering a text\<close>

text \<open>
  What a renderer relies on: pieces are added whole or not at all, and once a
  piece was refused all later ones are. \<open>fits\<close> is the set of pieces that may be put.
\<close>

locale append_buffer =
  fixes inv :: "'s \<Rightarrow> bool" and cont :: "'s \<Rightarrow> string" and full :: "'s \<Rightarrow> bool"
    and put :: "string \<Rightarrow> 's \<Rightarrow> 's" and fits :: "string \<Rightarrow> bool"
  assumes put_inv: "inv s \<Longrightarrow> fits t \<Longrightarrow> inv (put t s)"
    and put_taken: "inv s \<Longrightarrow> fits t \<Longrightarrow> \<not> full (put t s) \<Longrightarrow> \<not> full s \<and> cont (put t s) = cont s @ t"
    and put_refused: "inv s \<Longrightarrow> fits t \<Longrightarrow> full (put t s) \<Longrightarrow> cont (put t s) = cont s"
begin

lemma put_all_inv: "inv s \<Longrightarrow> \<forall>t \<in> set ts. fits t \<Longrightarrow> inv (fold put ts s)"
  by (induction ts arbitrary: s) (auto simp: put_inv)

lemma put_all_full: "inv s \<Longrightarrow> \<forall>t \<in> set ts. fits t \<Longrightarrow> full s \<Longrightarrow> full (fold put ts s) \<and> cont (fold put ts s) = cont s"
proof (induction ts arbitrary: s)
  case (Cons t ts)
  then have "full (put t s)" using put_taken by auto
  then show ?case using Cons put_inv put_refused by simp
qed simp

lemma put_all:
  "inv s \<Longrightarrow> \<forall>t \<in> set ts. fits t \<Longrightarrow> \<not> full s \<Longrightarrow>
    \<exists>n \<le> length ts. cont (fold put ts s) = cont s @ concat (take n ts) \<and> (full (fold put ts s) \<longleftrightarrow> n < length ts)"
proof (induction ts arbitrary: s)
  case (Cons t ts)
  show ?case
  proof (cases "full (put t s)")
    case True
    then show ?thesis using Cons.prems put_all_full [of "put t s" ts] put_inv [of s t] put_refused [of s t]
      by (intro exI [of _ 0]) auto
  next
    case False
    then obtain n where n: "n \<le> length ts" "cont (fold put ts (put t s)) = cont (put t s) @ concat (take n ts)"
        "full (fold put ts (put t s)) \<longleftrightarrow> n < length ts"
      using Cons.IH [of "put t s"] Cons.prems put_inv by auto
    then show ?thesis using False Cons.prems put_taken [of s t] by (intro exI [of _ "Suc n"]) auto
  qed
qed simp

lemma put_all_taken:
  "inv s \<Longrightarrow> \<forall>t \<in> set ts. fits t \<Longrightarrow> \<not> full (fold put ts s) \<Longrightarrow> cont (fold put ts s) = cont s @ concat ts"
  using put_all [of s ts] put_all_full [of s ts] by fastforce

end

text \<open>A sequence of \<open>sbuf_printf\<close> calls; their results are ignored by the renderers.\<close>

definition sbuf_put :: "kenv \<Rightarrow> int \<Rightarrow> string \<Rightarrow> sbuf \<times> kst \<Rightarrow> sbuf \<times> kst" where
  "sbuf_put k pg t x =
     (case sbuf_printf k pg t (fst x) (snd x) of None \<Rightarrow> x | Some ((_, s), st) \<Rightarrow> (s, st))"

definition text_fits :: "string \<Rightarrow> bool" where
  "text_fits t \<longleftrightarrow> int (length t) \<le> INT_MAX"

lemma sbuf_put_ok:
  assumes "sbuf_wf (fst x)" "page_ok pg" "text_fits t"
  shows "sbuf_wf (fst (sbuf_put k pg t x)) \<and> s_autoextend (fst (sbuf_put k pg t x)) = s_autoextend (fst x) \<and>
    (if s_overflowed (fst (sbuf_put k pg t x)) then sbuf_content (fst (sbuf_put k pg t x)) = sbuf_content (fst x)
     else \<not> s_overflowed (fst x) \<and> sbuf_content (fst (sbuf_put k pg t x)) = sbuf_content (fst x) @ t)"
proof -
  obtain ok s' st' where "sbuf_vprintf k pg t (fst x) (snd x) = Some ((ok, s'), st')" "sbuf_wf s'"
      "s_autoextend s' = s_autoextend (fst x)"
      "if ok then \<not> s_overflowed (fst x) \<and> \<not> s_overflowed s' \<and> sbuf_content s' = sbuf_content (fst x) @ t
       else s_overflowed s' \<and> sbuf_content s' = sbuf_content (fst x)"
    using vprintf_ok [of "fst x" pg t k "snd x"] assms by (auto simp: text_fits_def)
  then show ?thesis by (auto simp: sbuf_put_def sbuf_printf_def split: if_splits)
qed

lemma sbuf_append_buffer:
  "page_ok pg \<Longrightarrow> append_buffer (\<lambda>x. sbuf_wf (fst x)) (\<lambda>x. sbuf_content (fst x)) (\<lambda>x. s_overflowed (fst x))
     (sbuf_put k pg) text_fits"
proof (unfold_locales, goal_cases)
  case (1 s t) then show ?case using sbuf_put_ok [of s pg t k] by simp
next
  case (2 s t) then show ?case using sbuf_put_ok [of s pg t k] by simp
next
  case (3 s t) then show ?case using sbuf_put_ok [of s pg t k] by simp
qed

lemma page_ok_4096: "page_ok 4096"
  unfolding page_ok_def by (intro exI [of _ 12]) simp

interpretation sbuf_text: append_buffer "\<lambda>x. sbuf_wf (fst x)" "\<lambda>x. sbuf_content (fst x)" "\<lambda>x. s_overflowed (fst x)"
  "sbuf_put kenv0 4096" text_fits
  by (rule sbuf_append_buffer [OF page_ok_4096])

text \<open>The bytes a fixed buffer has room for.\<close>

lemma fixed_put:
  assumes "sbuf_wf (fst x)" "\<not> s_autoextend (fst x)" "\<not> s_overflowed (fst x)"
    "int (length (sbuf_content (fst x)) + length t) < s_size (fst x)"
  shows "\<not> s_overflowed (fst (sbuf_put k pg t x)) \<and> s_size (fst (sbuf_put k pg t x)) = s_size (fst x)"
proof -
  have l: "int (length (sbuf_content (fst x))) = s_len (fst x)" using assms(1) by (auto simp: sbuf_content_def sbuf_wf_def)
  then have c: "int (length t) \<le> sbuf_capacity (fst x)" "int (length t) \<le> INT_MAX"
    using assms(1,4) capacity_eq [OF assms(1)] by (auto simp: sbuf_wf_def)
  show ?thesis
    using assms(3) vprintf_loop_fit [OF assms(1) c, of k pg "snd x"]
    by (simp add: sbuf_put_def sbuf_printf_def sbuf_vprintf_def vsnprintf_at_def)
qed

lemma fixed_put_all:
  assumes "page_ok pg" "sbuf_wf (fst x)" "\<not> s_autoextend (fst x)" "\<not> s_overflowed (fst x)"
    "int (length (sbuf_content (fst x)) + length (concat ts)) < s_size (fst x)"
  shows "\<not> s_overflowed (fst (fold (sbuf_put k pg) ts x)) \<and>
    sbuf_content (fst (fold (sbuf_put k pg) ts x)) = sbuf_content (fst x) @ concat ts \<and>
    sbuf_wf (fst (fold (sbuf_put k pg) ts x))"
  using assms(2-5)
proof (induction ts arbitrary: x)
  case (Cons t ts)
  let ?y = "sbuf_put k pg t x"
  have y: "\<not> s_overflowed (fst ?y)" "s_size (fst ?y) = s_size (fst x)"
    using fixed_put [OF Cons.prems(1-3), of t k pg] Cons.prems(4) by auto
  have "text_fits t" using Cons.prems(1,4) by (auto simp: text_fits_def sbuf_wf_def)
  then have z: "sbuf_wf (fst ?y)" "\<not> s_autoextend (fst ?y)" "sbuf_content (fst ?y) = sbuf_content (fst x) @ t"
    using sbuf_put_ok [OF Cons.prems(1) assms(1), of t k] y Cons.prems(2) by auto
  show ?case using Cons.IH [OF z(1,2) y(1)] y z Cons.prems(4) by simp
qed simp
section \<open>Results\<close>

lemma clear_ok: "sbuf_wf s \<Longrightarrow> sbuf_wf (sbuf_clear s) \<and> sbuf_content (sbuf_clear s) = [] \<and> \<not> s_overflowed (sbuf_clear s)"
  by (auto simp: sbuf_clear_def sbuf_setpos_def sbuf_wf_def sbuf_content_def)

lemma bcat_wf: "sbuf_wf s \<Longrightarrow> page_ok pg \<Longrightarrow> sbuf_wf (snd (fst (sbuf_bcat k pg data s st)))"
  using bcat_ok [of s pg k data st] by (metis prod.collapse)

lemma putc_wf: "sbuf_wf s \<Longrightarrow> page_ok pg \<Longrightarrow> sbuf_wf (snd (fst (sbuf_putc k pg c s st)))"
  using putc_ok [of s pg k c st] by (metis prod.collapse)

lemma setpos_wf: "sbuf_wf s \<Longrightarrow> sbuf_wf (snd (sbuf_setpos pos s))"
  by (auto simp: sbuf_setpos_def sbuf_wf_def)

lemma trim_wf: "sbuf_wf s \<Longrightarrow> sbuf_wf (snd (sbuf_trim s))"
  using trim_len_bounds [of "s_len s" "s_buf s"] by (auto simp: sbuf_trim_def sbuf_wf_def)

lemma printf_wf:
  assumes "sbuf_wf s" "page_ok pg" "int (length t) \<le> INT_MAX"
  shows "\<exists>ok s' st'. sbuf_vprintf k pg t s st = Some ((ok, s'), st') \<and> sbuf_wf s'"
  using vprintf_ok [OF assms, of k st] by blast

text \<open>
  C19: every operation on a well-formed buffer, whether it succeeds or not, returns
  and leaves a well-formed buffer: position below the size, size within \<open>INT_MAX\<close>
  and no byte written outside the store.
\<close>

theorem sbuf_operations_safe:
  assumes "sbuf_wf s" "page_ok pg" "int (length t) \<le> INT_MAX"
  shows "sbuf_wf (snd (fst (sbuf_bcat k pg t s st))) \<and> sbuf_wf (snd (fst (sbuf_bcpy k pg t s st))) \<and>
    sbuf_wf (snd (fst (sbuf_cat k pg t s st))) \<and> sbuf_wf (snd (fst (sbuf_cpy k pg t s st))) \<and>
    sbuf_wf (snd (fst (sbuf_putc k pg c s st))) \<and>
    (\<exists>ok s' st'. sbuf_printf k pg t s st = Some ((ok, s'), st') \<and> sbuf_wf s') \<and>
    sbuf_wf (snd (sbuf_setpos pos s)) \<and> sbuf_wf (snd (sbuf_trim s)) \<and> sbuf_wf (sbuf_clear s) \<and>
    sbuf_wf (sbuf_finish s)"
  using assms clear_ok [OF assms(1)] finish_ok [OF assms(1)] printf_wf [OF assms]
  by (auto simp: sbuf_bcpy_def sbuf_cat_def sbuf_cpy_def sbuf_printf_def bcat_wf putc_wf setpos_wf trim_wf)

definition demo_sbuf :: sbuf where
  "demo_sbuf = (sbuf_init SBUF_FIXEDLEN False)\<lparr> s_buf := ''abc    '', s_size := 7, s_len := 3 \<rparr>"

lemma demo_sbuf_wf: "sbuf_wf demo_sbuf"
  by (simp add: demo_sbuf_def sbuf_wf_def sbuf_init_def INT_MAX_def)

theorem sbuf_operations_safe_witness:
  "sbuf_wf demo_sbuf \<and>
   (\<exists>ok s' st'. sbuf_printf kenv0 4096 ''0123456789'' demo_sbuf kst0 = Some ((ok, s'), st') \<and> sbuf_wf s')"
  using sbuf_operations_safe [OF demo_sbuf_wf page_ok_4096, of "''0123456789''"] demo_sbuf_wf by (simp add: INT_MAX_def)

text \<open>
  C7: printing texts one after the other into a buffer implements appending to a
  string: afterwards the buffer holds its old content and a number of the texts
  from the first on, each whole, and it is marked overflowed exactly when one of
  them is missing.
\<close>

theorem sbuf_append_whole:
  assumes "sbuf_wf s" "\<not> s_overflowed s" "page_ok pg" "\<forall>t \<in> set ts. text_fits t"
  shows "\<exists>n \<le> length ts.
    sbuf_content (fst (fold (sbuf_put k pg) ts (s, st))) = sbuf_content s @ concat (take n ts) \<and>
    (s_overflowed (fst (fold (sbuf_put k pg) ts (s, st))) \<longleftrightarrow> n < length ts)"
  using append_buffer.put_all [OF sbuf_append_buffer [OF assms(3)], of "(s, st)" ts] assms by simp

theorem sbuf_append_whole_witness:
  "\<exists>n \<le> length [''de'', ''fgh''].
     sbuf_content (fst (fold (sbuf_put kenv0 4096) [''de'', ''fgh''] (demo_sbuf, kst0))) =
       sbuf_content demo_sbuf @ concat (take n [''de'', ''fgh'']) \<and>
     (s_overflowed (fst (fold (sbuf_put kenv0 4096) [''de'', ''fgh''] (demo_sbuf, kst0))) \<longleftrightarrow>
       n < length [''de'', ''fgh''])"
  by (rule sbuf_append_whole [OF demo_sbuf_wf _ page_ok_4096])
     (simp_all add: demo_sbuf_def sbuf_init_def text_fits_def INT_MAX_def)

lemma ensure_autoextend:
  assumes "sbuf_wf s" "page_ok pg" "s_autoextend s" "\<And>n. malloc_ok k n" "0 \<le> w" "s_len s + w + 1 + pg \<le> INT_MAX"
  shows "\<exists>s' st'. sbuf_ensure_capacity k pg w s st = ((True, s'), st')"
proof (cases "w \<le> sbuf_capacity s")
  case False
  have c: "sbuf_capacity s = s_size s - s_len s - 1" by (rule capacity_eq [OF assms(1)])
  obtain n where n: "sbuf_extendsize pg (s_len s + w + 1) = Some n"
    using extendsize_Some [OF assms(2), of "s_len s + w + 1"] assms by (auto simp: sbuf_wf_def)
  have "s_size s + (w - sbuf_capacity s) = s_len s + w + 1" using c by simp
  note q = this
  have "sbuf_extendsize pg (s_size s + (w - sbuf_capacity s)) = Some n" "s_size s + (w - sbuf_capacity s) < 2 ^ 64"
    unfolding q using n assms(6) round_page(3) [OF assms(2)] by (simp_all add: INT_MAX_def)
  moreover have "16 \<le> pg" using round_page(3) [OF assms(2)] .
  moreover have "malloc_k k n st = (True, st\<lparr> mallocs := mallocs st + 1 \<rparr>)" for n using assms(4) by (simp add: malloc_k_def)
  ultimately have "fst (fst (sbuf_extend k pg (w - sbuf_capacity s) s st))"
    using False assms(3,6) unfolding sbuf_extend_def by (simp add: INT_MAX_def)
  then show ?thesis using False by (simp add: sbuf_ensure_capacity_def) (metis prod.collapse)
qed (simp add: sbuf_ensure_capacity_def)

text \<open>
  An extensible buffer never overflows while allocations succeed and the text
  stays a page below \<open>INT_MAX\<close>: the text is appended whole.
\<close>

lemma sbuf_autoextend_appends:
  assumes "sbuf_wf s" "\<not> s_overflowed s" "s_autoextend s" "page_ok pg" "\<forall>n. malloc_ok k n"
    and "s_len s + int (length t) + 1 + pg \<le> INT_MAX"
  shows "\<exists>s' st'. sbuf_bcat k pg t s st = ((True, s'), st') \<and> sbuf_wf s' \<and> sbuf_content s' = sbuf_content s @ t"
proof -
  obtain s1 st1 where e: "sbuf_ensure_capacity k pg (int (length t)) s st = ((True, s1), st1)"
    using ensure_autoextend [OF assms(1,4,3), of k "int (length t)" st] assms(5,6) by auto
  obtain s2 where b: "sbuf_bcat k pg t s st = ((True, s2), st1)" using e assms(2) by (simp add: sbuf_bcat_def)
  then show ?thesis using bcat_ok [OF assms(1,4) b] by simp
qed

theorem sbuf_autoextend_appends_witness:
  "\<exists>s' st'. sbuf_bcat kenv0 4096 ''0123456789'' (demo_sbuf\<lparr> s_autoextend := True \<rparr>) kst0 = ((True, s'), st') \<and>
     sbuf_content s' = ''abc0123456789''"
proof -
  have w: "sbuf_wf (demo_sbuf\<lparr> s_autoextend := True \<rparr>)" using demo_sbuf_wf by (simp add: sbuf_wf_def)
  have c: "sbuf_content (demo_sbuf\<lparr> s_autoextend := True \<rparr>) = ''abc''" by (simp add: sbuf_content_def demo_sbuf_def numeral_eq_Suc)
  show ?thesis
    using sbuf_autoextend_appends [OF w _ _ page_ok_4096, of kenv0 "''0123456789''" kst0] c
    by (auto simp: demo_sbuf_def sbuf_init_def kenv0_def INT_MAX_def)
qed

text \<open>
  \<open>sbuf_finish\<close> clears the overflow mark, so the length of a finished buffer is
  never the -1 its description gives for an overflowed one: a truncated text cannot be
  told from a complete one.
\<close>

lemma sbuf_finish_hides_overflow:
  "sbuf_len (sbuf_finish s) = s_len s \<and> \<not> s_overflowed (sbuf_finish s)"
  by (simp add: sbuf_finish_def sbuf_len_def)

text \<open>
  \<open>sbuf_new\<close> accepts a caller's buffer of length 0, and the capacity of the
  result wraps to the largest \<^verbatim>\<open>size_t\<close>: an append of any length is accepted.
\<close>

lemma sbuf_zero_length_unbounded:
  "\<exists>s. sbuf_new k pg True (Some []) 0 SBUF_FIXEDLEN st = (Some s, st) \<and> sbuf_capacity s = 2 ^ 64 - 1 \<and>
     fst (fst (sbuf_bcat k pg ''overflow'' s st)) \<and> length (s_buf (snd (fst (sbuf_bcat k pg ''overflow'' s st)))) = 8"
  by (simp add: sbuf_new_def sbuf_init_def SBUF_FIXEDLEN_def INT_MAX_def sbuf_capacity_def to_uint64_def
      sbuf_bcat_def sbuf_ensure_capacity_def put_at_def)

end
