(* ===== verification/Structure.thy ===== *)
theory Structure
imports Prelude
begin

text \<open>
  The layout tree of \<^verbatim>\<open>kext/procfs_structure.c\<close>. Structure nodes live in an
  explicit store: a pointer is an index, \<open>None\<close> at an index is freed memory.
  \<open>procfs_structure_init\<close> makes the calls of the source in the order of the
  source, \<open>release_node\<close> walks and frees a subtree. Proved: every operation
  that adds a node keeps the tree well formed with inherited flags; the layout
  the first mount builds has unique base ids, unique names among siblings and
  its dynamic entries last; freeing releases every node exactly once.
\<close>

section \<open>Data\<close>

datatype pfstype =
    PFSroot | PFSproc | PFSthread | PFSdir | PFSfile | PFSdirthis | PFSdirparent
  | PFScurproc | PFSprocnamedir | PFSfd | PFScpuinfo | PFSloadavg | PFSpartitions
  | PFSversion | PFSmeminfo | PFSmtab | PFSstat | PFSvmstat | PFSuptime | PFSswaps
  | PFSfilesystems | PFSproclink | PFSsysctl

text \<open>The function hooks, one constructor per function the layout installs.\<close>

datatype size_fn = SF_process_node_size | SF_fd_node_size | SF_thread_node_size

datatype read_fn =
    RF_docpuinfo | RF_doloadavg | RF_domeminfo | RF_domtab | RF_dostat | RF_dovmstat
  | RF_dopartitions | RF_doversion | RF_douptime | RF_doswaps | RF_dofilesystems
  | RF_doprocargs | RF_read_pid_data | RF_read_ppid_data | RF_read_pgid_data
  | RF_read_sid_data | RF_read_tty_data | RF_dostatus | RF_read_task_info | RF_donote
  | RF_dolimit | RF_domem | RF_domap | RF_domaps | RF_docomm | RF_doprocstat
  | RF_dostatm | RF_doenviron | RF_doregs | RF_dofpregs | RF_doauxv
  | RF_read_thread_info | RF_dothreadcomm | RF_dothreadstat | RF_dothreadstatus
  | RF_dothreadsched | RF_read_fd_data | RF_read_socket_data

type_synonym pfsbaseid = "16 word"
type_synonym saddr = nat

record pfssnode =
  psn_node_type :: pfstype
  psn_name :: string
  psn_base_node_id :: pfsbaseid
  psn_flags :: "16 word"
  psn_parent :: "saddr option"
  psn_children :: "saddr list"
  psn_node_size :: nat
  psn_getsize_fn :: "size_fn option"
  psn_read_data_fn :: "read_fn option"

definition PSN_FLAG_PROCESS :: "16 word" where "PSN_FLAG_PROCESS = push_bit 0 1"
definition PSN_FLAG_THREAD :: "16 word" where "PSN_FLAG_THREAD = push_bit 1 1"
definition PROCFS_ROOT_NODE_BASE_ID :: pfsbaseid where "PROCFS_ROOT_NODE_BASE_ID = 1"
definition MAX_STRUCT_NODE_NAME_LEN :: nat where "MAX_STRUCT_NODE_NAME_LEN = 16"

definition procfs_is_directory_type :: "pfstype \<Rightarrow> bool" where
  "procfs_is_directory_type type \<longleftrightarrow>
     type \<noteq> PFScurproc \<and> type \<noteq> PFSloadavg \<and>
     type \<noteq> PFSfile \<and> type \<noteq> PFScpuinfo \<and>
     type \<noteq> PFSpartitions \<and> type \<noteq> PFSversion \<and>
     type \<noteq> PFSmeminfo \<and> type \<noteq> PFSmtab \<and>
     type \<noteq> PFSstat \<and> type \<noteq> PFSvmstat \<and>
     type \<noteq> PFSuptime \<and> type \<noteq> PFSproclink \<and>
     type \<noteq> PFSswaps \<and> type \<noteq> PFSfilesystems \<and>
     type \<noteq> PFSsysctl"

text \<open>The file's statics and the memory of the nodes.\<close>

record sstate =
  snodes :: "pfssnode option list"
  next_node_id :: pfsbaseid
  root_node :: "saddr option"

definition sstate_init :: sstate where
  "sstate_init = \<lparr> snodes = [], next_node_id = PROCFS_ROOT_NODE_BASE_ID + 1, root_node = None \<rparr>"

definition snode_at :: "sstate \<Rightarrow> saddr \<Rightarrow> pfssnode option" where
  "snode_at s a = (if a < length (snodes s) then snodes s ! a else None)"

definition set_snode :: "saddr \<Rightarrow> pfssnode option \<Rightarrow> sstate \<Rightarrow> sstate" where
  "set_snode a v s = s\<lparr> snodes := (snodes s)[a := v] \<rparr>"

definition procfs_structure_root_node :: "sstate \<Rightarrow> saddr option" where
  "procfs_structure_root_node s = root_node s"

section \<open>Creation of structure nodes\<close>

text \<open>\<open>next_node_id++\<close> as an argument expression.\<close>

definition take_node_id :: "sstate \<Rightarrow> pfsbaseid \<times> sstate" where
  "take_node_id s = (next_node_id s, s\<lparr> next_node_id := next_node_id s + 1 \<rparr>)"

definition add_node ::
  "saddr option \<Rightarrow> string \<Rightarrow> pfstype \<Rightarrow> pfsbaseid \<Rightarrow> 16 word \<Rightarrow> nat \<Rightarrow>
   size_fn option \<Rightarrow> read_fn option \<Rightarrow> sstate \<Rightarrow> saddr \<times> sstate" where
  "add_node parent name type node_id flags sz node_size_fn node_read_data_fn s =
     (let a = length (snodes s);
          node = \<lparr> psn_node_type = type,
                   psn_name = strlcpy MAX_STRUCT_NODE_NAME_LEN name,
                   psn_base_node_id = node_id, psn_flags = flags,
                   psn_parent = parent, psn_children = [], psn_node_size = sz,
                   psn_getsize_fn = node_size_fn, psn_read_data_fn = node_read_data_fn \<rparr>
      in case parent of
           None \<Rightarrow> (a, s\<lparr> snodes := snodes s @ [Some node] \<rparr>)
         | Some p \<Rightarrow>
             (case snode_at s p of
                None \<Rightarrow> (a, s\<lparr> snodes := snodes s @ [Some node] \<rparr>)
              | Some pn \<Rightarrow>
                  (a, s\<lparr> snodes :=
                     (snodes s)[p := Some (pn\<lparr> psn_children := psn_children pn @ [a] \<rparr>)] @
                     [Some (node\<lparr> psn_flags := flags OR
                        (psn_flags pn AND (PSN_FLAG_PROCESS OR PSN_FLAG_THREAD)) \<rparr>)] \<rparr>)))"

text \<open>
  The recursive calls of \<open>add_directory\<close> pass \<open>raw = 1\<close> and so do not recurse
  again; a raw call is \<open>add_node\<close> with size 0.
\<close>

definition add_directory_raw ::
  "saddr option \<Rightarrow> string \<Rightarrow> pfstype \<Rightarrow> pfsbaseid \<Rightarrow> 16 word \<Rightarrow>
   size_fn option \<Rightarrow> read_fn option \<Rightarrow> sstate \<Rightarrow> saddr \<times> sstate" where
  "add_directory_raw parent name type node_id flags sf rf s =
     add_node parent name type node_id flags 0 sf rf s"

definition add_directory ::
  "saddr option \<Rightarrow> string \<Rightarrow> pfstype \<Rightarrow> pfsbaseid \<Rightarrow> 16 word \<Rightarrow> bool \<Rightarrow>
   size_fn option \<Rightarrow> read_fn option \<Rightarrow> sstate \<Rightarrow> saddr \<times> sstate" where
  "add_directory parent name type node_id flags raw sf rf s =
     (let (snode, s) = add_node parent name type node_id flags 0 sf rf s
      in if \<not> raw then
           let (i, s) = take_node_id s;
               (_, s) = add_directory_raw (Some snode) ''.'' PFSdirthis i
                          (flags AND (PSN_FLAG_PROCESS OR PSN_FLAG_THREAD)) None None s;
               (j, s) = take_node_id s;
               (_, s) = add_directory_raw (Some snode) ''..'' PFSdirparent j
                          (flags AND (PSN_FLAG_PROCESS OR PSN_FLAG_THREAD)) None None s
           in (snode, s)
         else (snode, s))"

definition add_file ::
  "saddr option \<Rightarrow> string \<Rightarrow> pfsbaseid \<Rightarrow> 16 word \<Rightarrow> nat \<Rightarrow>
   size_fn option \<Rightarrow> read_fn option \<Rightarrow> sstate \<Rightarrow> saddr \<times> sstate" where
  "add_file parent name node_id flags sz sf rf s =
     add_node parent name PFSfile node_id flags sz sf rf s"

section \<open>The layout\<close>

text \<open>
  The body of \<open>procfs_structure_init\<close> is straight-line code: each statement is a
  call with \<open>next_node_id++\<close> as its id argument, and the local variables hold
  the directories that later calls name as parents. A statement is a value of
  \<open>layout_call\<close>, its parent named by the local variable, and \<open>exec_call\<close> is
  the call it makes.
\<close>

datatype local_var =
    V_root_node | V_proc_by_name_dir | V_proc_name_dir | V_one_proc_dir | V_fd_dir
  | V_one_fd_dir | V_threads_dir | V_one_thread_dir | V_task_dir | V_one_task_dir

datatype layout_call =
    Add_directory local_var local_var string pfstype "16 word" "size_fn option"
  | Add_node local_var string pfstype "16 word" "read_fn option"
  | Add_file local_var string "16 word" nat read_fn

type_synonym locals = "(local_var \<times> saddr) list"

fun exec_call :: "layout_call \<Rightarrow> locals \<times> sstate \<Rightarrow> locals \<times> sstate" where
  "exec_call (Add_directory v p name type flags sf) (ls, s) =
     (case take_node_id s of (i, s) \<Rightarrow>
      case add_directory (map_of ls p) name type i flags False sf None s of (a, s) \<Rightarrow>
        ((v, a) # ls, s))"
| "exec_call (Add_node p name type flags rf) (ls, s) =
     (case take_node_id s of (i, s) \<Rightarrow>
        (ls, snd (add_node (map_of ls p) name type i flags 0 None rf s)))"
| "exec_call (Add_file p name flags sz rf) (ls, s) =
     (case take_node_id s of (i, s) \<Rightarrow>
        (ls, snd (add_file (map_of ls p) name i flags sz None (Some rf) s)))"

text \<open>
  Sizes of the structures of \<^verbatim>\<open>sys/proc_info.h\<close> on the 64-bit ABI, as \<^verbatim>\<open>sizeof\<close>
  gives them.
\<close>

definition sizeof_proc_bsdshortinfo :: nat where "sizeof_proc_bsdshortinfo = 64"
definition sizeof_proc_taskinfo :: nat where "sizeof_proc_taskinfo = 96"
definition sizeof_proc_threadinfo :: nat where "sizeof_proc_threadinfo = 112"
definition sizeof_vnode_fdinfowithpath :: nat where "sizeof_vnode_fdinfowithpath = 1200"
definition sizeof_socket_fdinfo :: nat where "sizeof_socket_fdinfo = 792"

definition root_calls :: "layout_call list" where
  "root_calls =
    [Add_directory V_proc_by_name_dir V_root_node ''byname'' PFSdir 0 None,
     Add_node V_root_node ''cpuinfo'' PFScpuinfo 0 (Some RF_docpuinfo),
     Add_node V_root_node ''curproc'' PFScurproc 0 None,
     Add_node V_root_node ''loadavg'' PFSloadavg 0 (Some RF_doloadavg),
     Add_node V_root_node ''meminfo'' PFSmeminfo 0 (Some RF_domeminfo),
     Add_node V_root_node ''mtab'' PFSmtab 0 (Some RF_domtab),
     Add_node V_root_node ''mounts'' PFSmtab 0 (Some RF_domtab),
     Add_node V_root_node ''stat'' PFSstat 0 (Some RF_dostat),
     Add_node V_root_node ''vmstat'' PFSvmstat 0 (Some RF_dovmstat),
     Add_node V_root_node ''partitions'' PFSpartitions 0 (Some RF_dopartitions),
     Add_node V_root_node ''version'' PFSversion 0 (Some RF_doversion),
     Add_node V_root_node ''uptime'' PFSuptime 0 (Some RF_douptime),
     Add_node V_root_node ''swaps'' PFSswaps 0 (Some RF_doswaps),
     Add_node V_root_node ''filesystems'' PFSfilesystems 0 (Some RF_dofilesystems),
     Add_node V_root_node ''sys'' PFSsysctl 0 None,
     Add_node V_root_node ''self'' PFScurproc 0 None]"

definition dir_calls :: "layout_call list" where
  "dir_calls =
    [Add_directory V_proc_name_dir V_proc_by_name_dir ''__Process_N__'' PFSprocnamedir
       PSN_FLAG_PROCESS (Some SF_process_node_size),
     Add_directory V_one_proc_dir V_root_node ''__Process__'' PFSproc
       PSN_FLAG_PROCESS (Some SF_process_node_size),
     Add_directory V_fd_dir V_one_proc_dir ''fd'' PFSdir PSN_FLAG_PROCESS None,
     Add_directory V_one_fd_dir V_fd_dir ''__File__'' PFSfd
       PSN_FLAG_PROCESS (Some SF_fd_node_size),
     Add_directory V_threads_dir V_one_proc_dir ''threads'' PFSdir PSN_FLAG_PROCESS None,
     Add_directory V_one_thread_dir V_threads_dir ''__Thread__'' PFSthread
       (PSN_FLAG_PROCESS OR PSN_FLAG_THREAD) (Some SF_thread_node_size),
     Add_directory V_task_dir V_one_proc_dir ''task'' PFSdir PSN_FLAG_PROCESS None,
     Add_directory V_one_task_dir V_task_dir ''__Thread__'' PFSthread
       (PSN_FLAG_PROCESS OR PSN_FLAG_THREAD) (Some SF_thread_node_size)]"

definition proc_file_calls :: "layout_call list" where
  "proc_file_calls =
    [Add_file V_one_proc_dir ''cmdline'' PSN_FLAG_PROCESS 0 RF_doprocargs,
     Add_file V_one_proc_dir ''pid'' PSN_FLAG_PROCESS 0 RF_read_pid_data,
     Add_file V_one_proc_dir ''ppid'' PSN_FLAG_PROCESS 0 RF_read_ppid_data,
     Add_file V_one_proc_dir ''pgid'' PSN_FLAG_PROCESS 0 RF_read_pgid_data,
     Add_file V_one_proc_dir ''sid'' PSN_FLAG_PROCESS 0 RF_read_sid_data,
     Add_file V_one_proc_dir ''tty'' PSN_FLAG_PROCESS 0 RF_read_tty_data,
     Add_file V_one_proc_dir ''status'' PSN_FLAG_PROCESS sizeof_proc_bsdshortinfo RF_dostatus,
     Add_file V_one_proc_dir ''taskinfo'' PSN_FLAG_PROCESS sizeof_proc_taskinfo RF_read_task_info,
     Add_file V_one_proc_dir ''note'' PSN_FLAG_PROCESS 0 RF_donote,
     Add_file V_one_proc_dir ''limit'' PSN_FLAG_PROCESS 0 RF_dolimit,
     Add_file V_one_proc_dir ''mem'' PSN_FLAG_PROCESS 0 RF_domem,
     Add_file V_one_proc_dir ''map'' PSN_FLAG_PROCESS 0 RF_domap,
     Add_file V_one_proc_dir ''maps'' PSN_FLAG_PROCESS 0 RF_domaps,
     Add_node V_one_proc_dir ''exe'' PFSproclink PSN_FLAG_PROCESS None,
     Add_node V_one_proc_dir ''cwd'' PFSproclink PSN_FLAG_PROCESS None,
     Add_node V_one_proc_dir ''root'' PFSproclink PSN_FLAG_PROCESS None,
     Add_file V_one_proc_dir ''comm'' PSN_FLAG_PROCESS 0 RF_docomm,
     Add_file V_one_proc_dir ''stat'' PSN_FLAG_PROCESS 0 RF_doprocstat,
     Add_file V_one_proc_dir ''statm'' PSN_FLAG_PROCESS 0 RF_dostatm,
     Add_file V_one_proc_dir ''environ'' PSN_FLAG_PROCESS 0 RF_doenviron,
     Add_file V_one_proc_dir ''regs'' PSN_FLAG_PROCESS 0 RF_doregs,
     Add_file V_one_proc_dir ''fpregs'' PSN_FLAG_PROCESS 0 RF_dofpregs,
     Add_file V_one_proc_dir ''auxv'' PSN_FLAG_PROCESS 0 RF_doauxv]"

definition thread_file_calls :: "layout_call list" where
  "thread_file_calls =
    [Add_file V_one_thread_dir ''info'' (PSN_FLAG_PROCESS OR PSN_FLAG_THREAD)
       sizeof_proc_threadinfo RF_read_thread_info,
     Add_file V_one_task_dir ''info'' (PSN_FLAG_PROCESS OR PSN_FLAG_THREAD)
       sizeof_proc_threadinfo RF_read_thread_info,
     Add_file V_one_task_dir ''comm'' (PSN_FLAG_PROCESS OR PSN_FLAG_THREAD) 0 RF_dothreadcomm,
     Add_file V_one_task_dir ''stat'' (PSN_FLAG_PROCESS OR PSN_FLAG_THREAD) 0 RF_dothreadstat,
     Add_file V_one_task_dir ''status'' (PSN_FLAG_PROCESS OR PSN_FLAG_THREAD) 0 RF_dothreadstatus,
     Add_file V_one_task_dir ''sched'' (PSN_FLAG_PROCESS OR PSN_FLAG_THREAD) 0 RF_dothreadsched,
     Add_file V_one_task_dir ''maps'' (PSN_FLAG_PROCESS OR PSN_FLAG_THREAD) 0 RF_domaps]"

definition fd_file_calls :: "layout_call list" where
  "fd_file_calls =
    [Add_file V_one_fd_dir ''details'' PSN_FLAG_PROCESS sizeof_vnode_fdinfowithpath RF_read_fd_data,
     Add_file V_one_fd_dir ''socket'' PSN_FLAG_PROCESS sizeof_socket_fdinfo RF_read_socket_data]"

definition layout_calls :: "layout_call list" where
  "layout_calls =
     root_calls @ dir_calls @ proc_file_calls @ thread_file_calls @ fd_file_calls"

definition create_root :: "sstate \<Rightarrow> locals \<times> sstate" where
  "create_root s =
     (case add_directory None ''/'' PFSroot PROCFS_ROOT_NODE_BASE_ID 0 False None None s of
        (r, s) \<Rightarrow> ([(V_root_node, r)], s\<lparr> root_node := Some r \<rparr>))"

definition procfs_structure_init :: "sstate \<Rightarrow> sstate" where
  "procfs_structure_init s =
     (if root_node s = None then snd (fold exec_call layout_calls (create_root s)) else s)"

section \<open>Clean up\<close>

text \<open>
  \<^verbatim>\<open>TAILQ_REMOVE\<close> of a node from a child list. A second removal of the node that
  was the head of the list writes the same links again, which \<open>remove1\<close> on a
  list without repetition reproduces.
\<close>

definition tailq_remove :: "saddr \<Rightarrow> saddr \<Rightarrow> sstate \<Rightarrow> sstate" where
  "tailq_remove p c s =
     (case snode_at s p of
        None \<Rightarrow> s
      | Some pn \<Rightarrow> set_snode p (Some (pn\<lparr> psn_children := remove1 c (psn_children pn) \<rparr>)) s)"

text \<open>
  \<open>None\<close> is reading a freed node or running out of fuel; \<open>Some\<close> is a walk that
  ended with every access to live memory.
\<close>

fun release_node :: "nat \<Rightarrow> saddr \<Rightarrow> sstate \<Rightarrow> sstate option"
and release_children :: "nat \<Rightarrow> saddr \<Rightarrow> sstate \<Rightarrow> sstate option" where
  "release_node 0 a s = None"
| "release_node (Suc f) a s =
     (case snode_at s a of
        None \<Rightarrow> None
      | Some n \<Rightarrow>
          (let s = (case psn_parent n of None \<Rightarrow> s | Some p \<Rightarrow> tailq_remove p a s)
           in case release_children f a s of
                None \<Rightarrow> None
              | Some s \<Rightarrow> Some (set_snode a None s)))"
| "release_children 0 a s = None"
| "release_children (Suc f) a s =
     (case snode_at s a of
        None \<Rightarrow> None
      | Some n \<Rightarrow>
          (case psn_children n of
             [] \<Rightarrow> Some s
           | c # _ \<Rightarrow>
               (case release_node f c (tailq_remove a c s) of
                  None \<Rightarrow> None
                | Some s \<Rightarrow> release_children f a s)))"

definition procfs_structure_free :: "nat \<Rightarrow> sstate \<Rightarrow> sstate option" where
  "procfs_structure_free fuel s =
     (case root_node s of
        None \<Rightarrow> Some s
      | Some r \<Rightarrow> map_option (\<lambda>s. s\<lparr> root_node := None \<rparr>) (release_node fuel r s))"

section \<open>Well-formed layouts\<close>

text \<open>
  A node is linked both ways: its children are live, younger and point back to
  it, and a node with a parent stands in that parent's child list and carries
  the parent's process and thread flags. Only \<open>root\<close> has no parent.
\<close>

definition inherits :: "pfssnode \<Rightarrow> pfssnode \<Rightarrow> bool" where
  "inherits m n \<longleftrightarrow>
     psn_flags m AND (PSN_FLAG_PROCESS OR PSN_FLAG_THREAD) AND psn_flags n =
     psn_flags m AND (PSN_FLAG_PROCESS OR PSN_FLAG_THREAD)"

definition links_down :: "sstate \<Rightarrow> saddr \<Rightarrow> pfssnode \<Rightarrow> bool" where
  "links_down s a n \<longleftrightarrow>
     distinct (psn_children n) \<and>
     list_all (\<lambda>c. a < c \<and> (case snode_at s c of None \<Rightarrow> False
                            | Some m \<Rightarrow> psn_parent m = Some a)) (psn_children n)"

definition links_up :: "sstate \<Rightarrow> saddr \<Rightarrow> pfssnode \<Rightarrow> bool" where
  "links_up s a n \<longleftrightarrow>
     (case psn_parent n of
        None \<Rightarrow> False
      | Some p \<Rightarrow> p < a \<and> (case snode_at s p of None \<Rightarrow> False
                          | Some m \<Rightarrow> a \<in> set (psn_children m) \<and> inherits m n))"

definition wf_layout :: "saddr \<Rightarrow> sstate \<Rightarrow> bool" where
  "wf_layout root s \<longleftrightarrow>
     list_all (\<lambda>a. case snode_at s a of
        None \<Rightarrow> True
      | Some n \<Rightarrow> links_down s a n \<and> (if a = root then psn_parent n = None else links_up s a n))
       [0..<length (snodes s)] \<and> snode_at s root \<noteq> None"

lemma snode_at_set [simp]:
  "snode_at (set_snode a v s) b = (if b = a \<and> a < length (snodes s) then v else snode_at s b)"
  by (auto simp: snode_at_def set_snode_def)

lemma set_snode_frame [simp]:
  "length (snodes (set_snode a v s)) = length (snodes s)"
  "root_node (set_snode a v s) = root_node s" "next_node_id (set_snode a v s) = next_node_id s"
  by (simp_all add: set_snode_def)

lemma snode_at_lt: "snode_at s a = Some n \<Longrightarrow> a < length (snodes s)"
  by (simp add: snode_at_def split: if_splits)

lemma snode_at_cong [simp]:
  "snode_at (s\<lparr> next_node_id := i \<rparr>) = snode_at s" "snode_at (s\<lparr> root_node := r \<rparr>) = snode_at s"
  by (simp_all add: snode_at_def fun_eq_iff)

lemma wf_layout_iff:
  "wf_layout root s \<longleftrightarrow>
     (\<forall>a n. snode_at s a = Some n \<longrightarrow> links_down s a n \<and>
        (if a = root then psn_parent n = None else links_up s a n)) \<and> snode_at s root \<noteq> None"
  by (auto simp: wf_layout_def list_all_iff split: option.splits dest: snode_at_lt)
     (metis snode_at_lt atLeastLessThan_iff le0)+

text \<open>What the heap holds after \<open>add_node\<close>.\<close>

lemma add_node_root:
  "add_node None name t i fl sz sf rf s = (a, s') \<Longrightarrow>
   a = length (snodes s) \<and> length (snodes s') = Suc a \<and>
   root_node s' = root_node s \<and> next_node_id s' = next_node_id s \<and>
   (\<forall>b. snode_at s' b = (if b = a then Some \<lparr> psn_node_type = t,
       psn_name = strlcpy MAX_STRUCT_NODE_NAME_LEN name, psn_base_node_id = i, psn_flags = fl,
       psn_parent = None, psn_children = [], psn_node_size = sz, psn_getsize_fn = sf,
       psn_read_data_fn = rf \<rparr> else snode_at s b))"
  by (auto simp: add_node_def snode_at_def nth_append)

lemma add_node_child:
  "add_node (Some p) name t i fl sz sf rf s = (a, s') \<Longrightarrow> snode_at s p = Some pn \<Longrightarrow>
   a = length (snodes s) \<and> length (snodes s') = Suc a \<and> p < a \<and>
   root_node s' = root_node s \<and> next_node_id s' = next_node_id s \<and>
   (\<forall>b. snode_at s' b = (if b = a then Some \<lparr> psn_node_type = t,
       psn_name = strlcpy MAX_STRUCT_NODE_NAME_LEN name, psn_base_node_id = i,
       psn_flags = fl OR (psn_flags pn AND (PSN_FLAG_PROCESS OR PSN_FLAG_THREAD)),
       psn_parent = Some p, psn_children = [], psn_node_size = sz, psn_getsize_fn = sf,
       psn_read_data_fn = rf \<rparr>
     else if b = p then Some (pn\<lparr> psn_children := psn_children pn @ [a] \<rparr>)
     else snode_at s b))"
  by (auto simp: add_node_def snode_at_def nth_append nth_list_update Let_def split: if_splits)

lemma inherits_new [simp]:
  "inherits m \<lparr> psn_node_type = t, psn_name = nm, psn_base_node_id = i,
     psn_flags = fl OR (psn_flags m AND (PSN_FLAG_PROCESS OR PSN_FLAG_THREAD)),
     psn_parent = p, psn_children = cs, psn_node_size = sz, psn_getsize_fn = sf,
     psn_read_data_fn = rf \<rparr>"
  by (auto simp: inherits_def bit_eq_iff bit_simps)

lemma inherits_children [simp]:
  "inherits (m\<lparr> psn_children := cs \<rparr>) n = inherits m n"
  "inherits m (n\<lparr> psn_children := cs \<rparr>) = inherits m n"
  by (simp_all add: inherits_def)

lemma links_down_child_new:
  assumes "links_down s p pn" "snode_at s p = Some pn" "a = length (snodes s)"
    and "\<forall>b. snode_at s' b = (if b = a then Some nn
           else if b = p then Some (pn\<lparr> psn_children := psn_children pn @ [a] \<rparr>) else snode_at s b)"
    and "psn_parent nn = Some p"
  shows "links_down s' p (pn\<lparr> psn_children := psn_children pn @ [a] \<rparr>)"
  using assms snode_at_lt [OF assms(2)]
  by (auto simp: links_down_def list_all_iff split: option.splits dest: snode_at_lt)

lemma add_node_wf:
  assumes wf: "wf_layout root s" and p: "snode_at s p = Some pn"
    and add: "add_node (Some p) name t i fl sz sf rf s = (a, s')"
  shows "wf_layout root s'"
proof -
  note h = add_node_child [OF add p]
  then have a: "a = length (snodes s)" and pa: "p < a" by auto
  have fresh: "snode_at s a = None" by (simp add: a snode_at_def)
  have root: "root \<noteq> a" "snode_at s root \<noteq> None" using wf fresh by (auto simp: wf_layout_iff)
  have old: "links_down s b n \<and> (if b = root then psn_parent n = None else links_up s b n)"
    if "snode_at s b = Some n" for b n using wf that by (auto simp: wf_layout_iff)
  have lt: "b < a" if "snode_at s b = Some n" for b n using snode_at_lt [OF that] a by simp
  have "links_down s' b n \<and> (if b = root then psn_parent n = None else links_up s' b n)"
    if n: "snode_at s' b = Some n" for b n
  proof -
    consider "b = a" | "b = p" "b \<noteq> a" | "b \<noteq> p" "b \<noteq> a" by blast
    then show ?thesis
    proof cases
      case 1
      then show ?thesis using h n root pa
        by (auto simp: links_down_def links_up_def)
    next
      case 2
      have "links_down s' p (pn\<lparr> psn_children := psn_children pn @ [a] \<rparr>)"
        by (rule links_down_child_new [OF conjunct1 [OF old [OF p]] p a])
           (use h in auto)
      moreover have "links_up s p pn \<Longrightarrow> links_up s' p (pn\<lparr> psn_children := psn_children pn @ [a] \<rparr>)"
        using h lt by (fastforce simp: links_up_def split: option.splits)
      ultimately show ?thesis using 2 n h old [OF p] by auto
    next
      case 3
      then have b: "snode_at s b = Some n" using h n by auto
      have "links_down s' b n" using old [OF b] h lt p
        by (fastforce simp: links_down_def list_all_iff split: option.splits)
      moreover have "links_up s b n \<Longrightarrow> links_up s' b n" using h lt p fresh
        by (auto simp: links_up_def split: option.splits)
      ultimately show ?thesis using old [OF b] by auto
    qed
  qed
  moreover have "snode_at s' root \<noteq> None" using h root by simp
  ultimately show ?thesis unfolding wf_layout_iff by blast
qed

section \<open>Every call of the layout keeps it well formed\<close>

text \<open>
  \<open>grows\<close> is what one call guarantees: the layout stays well formed, live nodes
  stay live and the base ids are extended by those it consumed, in the order of
  allocation.
\<close>

definition base_ids :: "sstate \<Rightarrow> pfsbaseid option list" where
  "base_ids s = map (map_option psn_base_node_id) (snodes s)"

definition grows :: "saddr \<Rightarrow> sstate \<Rightarrow> pfsbaseid list \<Rightarrow> sstate \<Rightarrow> bool" where
  "grows r s is s' \<longleftrightarrow>
     (wf_layout r s \<longrightarrow> wf_layout r s') \<and>
     (\<forall>a. snode_at s a \<noteq> None \<longrightarrow> snode_at s' a \<noteq> None) \<and>
     root_node s' = root_node s \<and> base_ids s' = base_ids s @ map Some is"

lemma grows_trans: "grows r s i1 t \<Longrightarrow> grows r t i2 u \<Longrightarrow> grows r s (i1 @ i2) u"
  by (simp add: grows_def)

lemma wf_layout_next [simp]: "wf_layout r (s\<lparr> next_node_id := i \<rparr>) = wf_layout r s"
  by (simp only: wf_layout_iff links_down_def links_up_def snode_at_cong)

lemma wf_layout_root [simp]: "wf_layout r (s\<lparr> root_node := i \<rparr>) = wf_layout r s"
  by (simp only: wf_layout_iff links_down_def links_up_def snode_at_cong)

lemma base_ids_next [simp]: "base_ids (s\<lparr> next_node_id := i \<rparr>) = base_ids s" "base_ids (s\<lparr> root_node := q \<rparr>) = base_ids s"
  by (simp_all add: base_ids_def)

lemma grows_next [simp]: "grows r (s\<lparr> next_node_id := i \<rparr>) is t = grows r s is t"
  by (simp add: grows_def)

lemma map_update_same: "k < length xs \<Longrightarrow> f (xs ! k) = f v \<Longrightarrow> map f (xs[k := v]) = map f xs"
  by (metis list_update_id map_update)

lemma add_node_ids: "base_ids (snd (add_node p name t i fl sz sf rf s)) = base_ids s @ [Some i]"
  by (auto simp: add_node_def base_ids_def Let_def map_update_same snode_at_def split: option.split)

lemma add_node_grows:
  assumes "snode_at s p = Some pn" and "add_node (Some p) name t i fl sz sf rf s = (a, s')"
  shows "grows r s [i] s'"
  using add_node_wf [of r s p pn] add_node_child [OF assms(2,1)] assms
    add_node_ids [of "Some p" name t i fl sz sf rf s]
  by (auto simp: grows_def)

lemma add_node_live:
  assumes "snode_at s p = Some pn" and "add_node (Some p) name t i fl sz sf rf s = (a, s')"
  shows "snode_at s' a \<noteq> None" "next_node_id s' = next_node_id s"
  using add_node_child [OF assms(2,1)] by auto

lemma add_directory_dots:
  assumes s1: "add_node p name t i fl 0 sf rf s = (a, s1)" and l: "snode_at s1 a \<noteq> None"
    and d: "add_directory p name t i fl False sf rf s = (a', s')"
  shows "a' = a \<and> grows r s1 [next_node_id s1, next_node_id s1 + 1] s' \<and> snode_at s' a \<noteq> None \<and>
    next_node_id s' = next_node_id s1 + 2"
proof -
  let ?s1 = "s1\<lparr> next_node_id := next_node_id s1 + 1 \<rparr>"
  obtain n where n: "snode_at ?s1 a = Some n" using l by auto
  define fm where "fm = fl AND (PSN_FLAG_PROCESS OR PSN_FLAG_THREAD)"
  obtain b s2 where s2: "add_node (Some a) ''.'' PFSdirthis (next_node_id s1) fm 0 None None ?s1 = (b, s2)"
    by fastforce
  note g2 = add_node_grows [OF n s2] add_node_live [OF n s2]
  let ?s2 = "s2\<lparr> next_node_id := next_node_id s2 + 1 \<rparr>"
  obtain m where m: "snode_at ?s2 a = Some m" using g2(1) [of r] n by (fastforce simp: grows_def)
  obtain c s3 where s3: "add_node (Some a) ''..'' PFSdirparent (next_node_id s2) fm 0 None None ?s2 = (c, s3)"
    by fastforce
  note g3 = add_node_grows [OF m s3] add_node_live [OF m s3]
  have e: "s' = s3 \<and> a' = a"
    using d s1 s2 s3
    by (simp add: add_directory_def add_directory_raw_def take_node_id_def Let_def fm_def)
  have "grows r s1 [next_node_id s1, next_node_id s1 + 1] s'"
    using grows_trans [OF g2(1) [simplified] g3(1) [simplified], of r] g2(3) e by simp
  moreover have "snode_at s' a \<noteq> None" using g3(1) [of r] m e by (auto simp: grows_def)
  moreover have "next_node_id s' = next_node_id s1 + 2" using g2(3) g3(3) e by simp
  ultimately show ?thesis using e by blast
qed

lemma add_directory_grows:
  assumes "snode_at s p = Some pn" and d: "add_directory (Some p) name t i fl False sf rf s = (a, s')"
  shows "grows r s [i, next_node_id s, next_node_id s + 1] s' \<and> snode_at s' a \<noteq> None \<and>
    next_node_id s' = next_node_id s + 2"
proof -
  obtain b s1 where s1: "add_node (Some p) name t i fl 0 sf rf s = (b, s1)" by fastforce
  note g1 = add_node_grows [OF assms(1) s1] add_node_live [OF assms(1) s1]
  note g2 = add_directory_dots [OF s1 g1(2) d, of r]
  show ?thesis using grows_trans [OF g1(1), of r] g1(3) g2 by fastforce
qed

text \<open>The locals always name live nodes, and each call's parent is in scope.\<close>

fun call_parent :: "layout_call \<Rightarrow> local_var" where
  "call_parent (Add_directory v p name type flags sf) = p"
| "call_parent (Add_node p name type flags rf) = p"
| "call_parent (Add_file p name flags sz rf) = p"

fun call_defines :: "layout_call \<Rightarrow> local_var list" where
  "call_defines (Add_directory v p name type flags sf) = [v]"
| "call_defines c = []"

fun call_cost :: "layout_call \<Rightarrow> nat" where
  "call_cost (Add_directory v p name type flags sf) = 3"
| "call_cost c = 1"

fun scoped :: "local_var list \<Rightarrow> layout_call list \<Rightarrow> bool" where
  "scoped vs [] = True"
| "scoped vs (c # cs) = (call_parent c \<in> set vs \<and> scoped (call_defines c @ vs) cs)"

definition locals_live :: "locals \<times> sstate \<Rightarrow> bool" where
  "locals_live q = (\<forall>(v, a) \<in> set (fst q). snode_at (snd q) a \<noteq> None)"

definition id_run :: "pfsbaseid \<Rightarrow> nat \<Rightarrow> pfsbaseid list" where
  "id_run i n = map (\<lambda>k. i + of_nat k) [0..<n]"

lemma id_run_add: "id_run i (m + n) = id_run i m @ id_run (i + of_nat m) n"
  by (induction n) (simp_all add: id_run_def add.assoc)

lemma id_run_two: "id_run i 2 = [i, i + 1]"
  by (simp add: id_run_def upt_rec numeral_2_eq_2)

lemma exec_call_step:
  assumes "locals_live q" "call_parent c \<in> fst ` set (fst q)" and q': "exec_call c q = q'"
  shows "grows r (snd q) (id_run (next_node_id (snd q)) (call_cost c)) (snd q') \<and>
    next_node_id (snd q') = next_node_id (snd q) + of_nat (call_cost c) \<and>
    locals_live q' \<and> fst ` set (fst q') = set (call_defines c) \<union> fst ` set (fst q)"
proof -
  obtain ls s where q: "q = (ls, s)" by (cases q)
  obtain p where p: "map_of ls (call_parent c) = Some p"
    using assms(2) q by (metis domIff dom_map_of_conv_image_fst fst_conv not_None_eq)
  then obtain pn where pn: "snode_at s p = Some pn"
    using assms(1) q map_of_SomeD [OF p] by (auto simp: locals_live_def)
  let ?s = "s\<lparr> next_node_id := next_node_id s + 1 \<rparr>"
  have pn': "snode_at ?s p = Some pn" using pn by simp
  have live: "locals_live (ls, t)" if "grows r s js t" for js t
    using assms(1) that q by (fastforce simp: locals_live_def grows_def)
  have "grows r s (id_run (next_node_id s) (call_cost c)) (snd q') \<and>
    next_node_id (snd q') = next_node_id s + of_nat (call_cost c) \<and> locals_live q' \<and>
    fst ` set (fst q') = set (call_defines c) \<union> fst ` set ls"
  proof (cases c)
    case (Add_directory v p' name t fl sf)
    obtain a t' where d: "add_directory (Some p) name t (next_node_id s) fl False sf None ?s = (a, t')"
      by fastforce
    note g = add_directory_grows [OF pn' d, of r]
    have "id_run (next_node_id s) 3 = [next_node_id s, next_node_id s + 1, next_node_id s + 1 + 1]"
      by (simp add: id_run_def upt_rec numeral_3_eq_3)
    then show ?thesis using g p q q' d Add_directory live [OF conjunct1 [OF g, unfolded grows_next]]
      by (auto simp: take_node_id_def locals_live_def)
  next
    case (Add_node p' name t fl rf)
    obtain a t' where d: "add_node (Some p) name t (next_node_id s) fl 0 None rf ?s = (a, t')"
      by fastforce
    show ?thesis using add_node_grows [OF pn' d, of r] add_node_live [OF pn' d] p q q' d Add_node
        live [OF add_node_grows [OF pn' d, unfolded grows_next]]
      by (auto simp: take_node_id_def id_run_def)
  next
    case (Add_file p' name fl sz rf)
    obtain a t' where d: "add_node (Some p) name PFSfile (next_node_id s) fl sz None (Some rf) ?s = (a, t')"
      by fastforce
    show ?thesis using add_node_grows [OF pn' d, of r] add_node_live [OF pn' d] p q q' d Add_file
        live [OF add_node_grows [OF pn' d, unfolded grows_next]]
      by (auto simp: take_node_id_def add_file_def id_run_def)
  qed
  then show ?thesis using q by auto
qed

lemma exec_calls:
  assumes "locals_live q" "scoped vs cs" "set vs = fst ` set (fst q)"
  shows "grows r (snd q) (id_run (next_node_id (snd q)) (sum_list (map call_cost cs)))
           (snd (fold exec_call cs q)) \<and>
         next_node_id (snd (fold exec_call cs q)) =
           next_node_id (snd q) + of_nat (sum_list (map call_cost cs))"
  using assms
proof (induction cs arbitrary: q vs)
  case Nil
  then show ?case by (simp add: grows_def id_run_def)
next
  case (Cons c cs)
  have p: "call_parent c \<in> fst ` set (fst q)" using Cons.prems by auto
  note st = exec_call_step [OF Cons.prems(1) p refl, of r]
  have "scoped (call_defines c @ vs) cs" using Cons.prems by simp
  moreover have "set (call_defines c @ vs) = fst ` set (fst (exec_call c q))"
    using st Cons.prems(3) by simp
  ultimately show ?case
    using Cons.IH [of "exec_call c q" "call_defines c @ vs"] st grows_trans
    by (fastforce simp: id_run_add add.assoc)
qed

section \<open>The layout a mount builds\<close>

definition no_live :: "sstate \<Rightarrow> bool" where
  "no_live s = list_all (\<lambda>x. x = None) (snodes s)"

lemma no_live_iff: "no_live s \<longleftrightarrow> (\<forall>a. snode_at s a = None)"
  by (auto simp: no_live_def list_all_length snode_at_def)

lemma create_root_step:
  assumes "no_live s" and q: "create_root s = q"
  shows "\<exists>r. r = length (snodes s) \<and> fst q = [(V_root_node, r)] \<and> locals_live q \<and>
    wf_layout r (snd q) \<and> root_node (snd q) = Some r \<and>
    base_ids (snd q) = base_ids s @ map Some [PROCFS_ROOT_NODE_BASE_ID, next_node_id s, next_node_id s + 1] \<and>
    next_node_id (snd q) = next_node_id s + 2"
proof -
  obtain r s1 where s1: "add_node None ''/'' PFSroot PROCFS_ROOT_NODE_BASE_ID 0 0 None None s = (r, s1)"
    by fastforce
  note h = add_node_root [OF s1]
  have w: "wf_layout r s1" and l: "snode_at s1 r \<noteq> None"
    using h assms(1) by (simp_all add: wf_layout_iff links_down_def no_live_iff)
  obtain a s2 where s2: "add_directory None ''/'' PFSroot PROCFS_ROOT_NODE_BASE_ID 0 False None None s = (a, s2)"
    by fastforce
  note g = add_directory_dots [OF s1 l s2, of r]
  have "base_ids s1 = base_ids s @ [Some PROCFS_ROOT_NODE_BASE_ID]"
    using add_node_ids [of None "''/''" PFSroot PROCFS_ROOT_NODE_BASE_ID 0 0 None None s] s1 by simp
  then show ?thesis
    using g h w s2 q by (auto simp: create_root_def locals_live_def grows_def)
qed

lemma layout_calls_scoped: "scoped [V_root_node] layout_calls"
  by code_simp

lemma layout_calls_cost: "sum_list (map call_cost layout_calls) = 74"
  by code_simp

lemma init_layout:
  assumes "no_live s" "root_node s = None"
  shows "wf_layout (length (snodes s)) (procfs_structure_init s)"
    "root_node (procfs_structure_init s) = Some (length (snodes s))"
    "base_ids (procfs_structure_init s) =
       base_ids s @ Some PROCFS_ROOT_NODE_BASE_ID # map Some (id_run (next_node_id s) 76)"
    "next_node_id (procfs_structure_init s) = next_node_id s + 76"
proof -
  define q where "q = create_root s"
  from create_root_step [OF assms(1) q_def [symmetric]] obtain r where
    r: "r = length (snodes s)" and fq: "fst q = [(V_root_node, r)]" and lq: "locals_live q"
    and wq: "wf_layout r (snd q)" and rq: "root_node (snd q) = Some r"
    and iq: "base_ids (snd q) = base_ids s @ map Some [PROCFS_ROOT_NODE_BASE_ID, next_node_id s, next_node_id s + 1]"
    and nq: "next_node_id (snd q) = next_node_id s + 2" by blast
  have e: "procfs_structure_init s = snd (fold exec_call layout_calls q)"
    using assms(2) by (simp add: procfs_structure_init_def q_def)
  have g: "grows r (snd q) (id_run (next_node_id (snd q)) 74) (procfs_structure_init s) \<and>
      next_node_id (procfs_structure_init s) = next_node_id (snd q) + 74"
    using exec_calls [OF lq layout_calls_scoped, of r] fq layout_calls_cost e by simp
  have "id_run (next_node_id s) 76 = [next_node_id s, next_node_id s + 1] @ id_run (next_node_id s + 2) 74"
    using id_run_add [of "next_node_id s" 2 74] by (simp add: id_run_two)
  then show "base_ids (procfs_structure_init s) =
       base_ids s @ Some PROCFS_ROOT_NODE_BASE_ID # map Some (id_run (next_node_id s) 76)"
    using g iq nq by (simp add: grows_def)
  show "wf_layout (length (snodes s)) (procfs_structure_init s)"
    "root_node (procfs_structure_init s) = Some (length (snodes s))"
    "next_node_id (procfs_structure_init s) = next_node_id s + 76"
    using g wq rq r nq by (simp_all add: grows_def)
qed

section \<open>Releasing the layout\<close>

text \<open>
  The walk of \<open>release_node\<close> needs the downward links of every live node, and the
  upward links of every live node outside \<open>E\<close>: the nodes already taken off
  their parent's list.
\<close>

definition releasable :: "saddr set \<Rightarrow> sstate \<Rightarrow> bool" where
  "releasable E s \<longleftrightarrow>
     (\<forall>a n. snode_at s a = Some n \<longrightarrow> links_down s a n \<and> (a \<notin> E \<longrightarrow> links_up s a n))"

definition younger :: "saddr \<Rightarrow> sstate \<Rightarrow> nat" where
  "younger a s = card {b. a < b \<and> snode_at s b \<noteq> None}"

lemma finite_live: "finite {b. P b \<and> snode_at s b \<noteq> None}"
  by (rule finite_subset [of _ "{..<length (snodes s)}"]) (auto dest: snode_at_lt)

lemma younger_less:
  assumes "snode_at s c \<noteq> None" "a < c"
    and "\<And>b. c \<le> b \<Longrightarrow> snode_at t b \<noteq> None \<Longrightarrow> snode_at s b \<noteq> None"
  shows "younger c t < younger a s"
  unfolding younger_def
  by (rule psubset_card_mono [OF finite_live]) (use assms in \<open>auto dest: less_trans\<close>)

lemma younger_freed:
  assumes "snode_at s c \<noteq> None" "a < c" "snode_at t c = None"
    and "\<And>b. snode_at t b \<noteq> None \<Longrightarrow> snode_at s b \<noteq> None"
  shows "younger a t < younger a s"
proof -
  have "c \<in> {b. a < b \<and> snode_at s b \<noteq> None} - {b. a < b \<and> snode_at t b \<noteq> None}"
    using assms(1-3) by simp
  moreover have "{b. a < b \<and> snode_at t b \<noteq> None} \<subseteq> {b. a < b \<and> snode_at s b \<noteq> None}"
    using assms(4) by blast
  ultimately show ?thesis unfolding younger_def by (intro psubset_card_mono [OF finite_live]) blast
qed

lemma younger_mono:
  assumes "\<And>b. snode_at t b \<noteq> None \<Longrightarrow> snode_at s b \<noteq> None"
  shows "younger a t \<le> younger a s"
  unfolding younger_def by (rule card_mono [OF finite_live]) (use assms in auto)

lemma tailq_remove_at:
  "snode_at s p = Some pn \<Longrightarrow> snode_at (tailq_remove p c s) b =
     (if b = p then Some (pn\<lparr> psn_children := remove1 c (psn_children pn) \<rparr>) else snode_at s b)"
  by (auto simp: tailq_remove_def dest: snode_at_lt)

lemma tailq_remove_noop:
  "snode_at s p = Some pn \<Longrightarrow> c \<notin> set (psn_children pn) \<Longrightarrow> tailq_remove p c s = s"
  by (auto simp: tailq_remove_def set_snode_def remove1_idem snode_at_def split: if_splits)
     (metis list_update_id sstate.surjective sstate.update_convs(1))

lemma tailq_remove_releasable:
  assumes r: "releasable E s" and p: "snode_at s p = Some pn"
  shows "releasable (insert c E) (tailq_remove p c s)"
proof -
  let ?t = "tailq_remove p c s"
  let ?pn = "pn\<lparr> psn_children := remove1 c (psn_children pn) \<rparr>"
  note at = tailq_remove_at [OF p, of c]
  have old: "links_down s b n \<and> (b \<notin> E \<longrightarrow> links_up s b n)" if "snode_at s b = Some n" for b n
    using r that by (auto simp: releasable_def)
  have down: "links_down ?t b n" if "links_down s b n" for b n
    using that p unfolding links_down_def
    by (auto simp: at list_all_iff split: option.splits)
  have up: "links_up ?t b n" if "links_up s b n" "b \<noteq> c" for b n
    using that p unfolding links_up_def
    by (auto simp: at split: option.splits)
  have "links_down ?t b n \<and> (b \<notin> insert c E \<longrightarrow> links_up ?t b n)" if n: "snode_at ?t b = Some n" for b n
  proof (cases "b = p")
    case True
    then have "n = ?pn" using n by (simp add: at)
    moreover have "links_down ?t p ?pn"
      using down [OF conjunct1 [OF old [OF p]]]
      by (auto simp: links_down_def list_all_iff dest: notin_set_remove1 [rotated])
    moreover have "p \<notin> insert c E \<Longrightarrow> links_up ?t p ?pn"
      using up [of p pn] old [OF p] by (auto simp: links_up_def split: option.splits)
    ultimately show ?thesis using True by simp
  next
    case False
    then show ?thesis using n old down up by (simp add: at)
  qed
  then show ?thesis by (auto simp: releasable_def)
qed

lemma free_releasable:
  assumes r: "releasable E s" and a: "snode_at s a = Some n" "psn_children n = []"
    and orphan: "\<And>p m. psn_parent n = Some p \<Longrightarrow> snode_at s p = Some m \<Longrightarrow> a \<notin> set (psn_children m)"
  shows "releasable E (set_snode a None s)"
proof -
  have la: "a < length (snodes s)" by (rule snode_at_lt [OF a(1)])
  have old: "links_down s b m \<and> (b \<notin> E \<longrightarrow> links_up s b m)" if "snode_at s b = Some m" for b m
    using r that by (auto simp: releasable_def)
  have "links_down (set_snode a None s) b m \<and> (b \<notin> E \<longrightarrow> links_up (set_snode a None s) b m)"
    if m: "snode_at s b = Some m" "b \<noteq> a" for b m
  proof -
    have "a \<notin> set (psn_children m)"
    proof
      assume "a \<in> set (psn_children m)"
      then have "psn_parent n = Some b" using old [OF m(1)] a by (auto simp: links_down_def list_all_iff)
      then show False using orphan m \<open>a \<in> set (psn_children m)\<close> by blast
    qed
    moreover have "psn_parent m \<noteq> Some a" if "links_up s b m" using that a by (auto simp: links_up_def)
    ultimately show ?thesis using old [OF m(1)] la
      by (auto simp: links_down_def links_up_def list_all_iff split: option.splits)
  qed
  then show ?thesis using la by (auto simp: releasable_def)
qed

definition orphan :: "sstate \<Rightarrow> saddr \<Rightarrow> pfssnode \<Rightarrow> bool" where
  "orphan s a n \<longleftrightarrow>
     (case psn_parent n of
        None \<Rightarrow> True
      | Some p \<Rightarrow> p < a \<and> (case snode_at s p of None \<Rightarrow> True
                          | Some m \<Rightarrow> a \<notin> set (psn_children m)))"

definition release_frame :: "saddr \<Rightarrow> sstate \<Rightarrow> sstate \<Rightarrow> bool" where
  "release_frame a s s' \<longleftrightarrow>
     (\<forall>b < a. snode_at s' b = snode_at s b) \<and> (\<forall>b. snode_at s' b \<noteq> None \<longrightarrow> snode_at s b \<noteq> None) \<and>
     length (snodes s') = length (snodes s) \<and> next_node_id s' = next_node_id s"

lemma tailq_remove_frame [simp]:
  "length (snodes (tailq_remove p c s)) = length (snodes s)"
  "next_node_id (tailq_remove p c s) = next_node_id s"
  by (simp_all add: tailq_remove_def split: option.split)

lemma release_children_step:
  assumes node: "\<And>a s E n. 2 * younger a s + 2 \<le> f \<Longrightarrow> releasable E s \<Longrightarrow> a \<in> E \<Longrightarrow>
      snode_at s a = Some n \<Longrightarrow> orphan s a n \<Longrightarrow>
      \<exists>s'. release_node f a s = Some s' \<and> releasable E s' \<and> snode_at s' a = None \<and> release_frame a s s'"
    and kids: "\<And>a s E n. 2 * younger a s + 1 \<le> f \<Longrightarrow> releasable E s \<Longrightarrow> a \<in> E \<Longrightarrow>
      snode_at s a = Some n \<Longrightarrow>
      \<exists>s'. release_children f a s = Some s' \<and> releasable E s' \<and>
        snode_at s' a = Some (n\<lparr> psn_children := [] \<rparr>) \<and> release_frame a s s'"
    and f: "2 * younger a s + 1 \<le> Suc f" and r: "releasable E s" "a \<in> E" and n: "snode_at s a = Some n"
  shows "\<exists>s'. release_children (Suc f) a s = Some s' \<and> releasable E s' \<and>
        snode_at s' a = Some (n\<lparr> psn_children := [] \<rparr>) \<and> release_frame a s s'"
proof (cases "psn_children n")
  case Nil
  then show ?thesis using n r by (auto simp: release_frame_def)
next
  case (Cons c cs)
  define t where "t = tailq_remove a c s"
  have d: "links_down s a n" using r n by (auto simp: releasable_def)
  then obtain m where m: "snode_at s c = Some m" "psn_parent m = Some a" "a < c" "c \<notin> set cs"
    using Cons by (auto simp: links_down_def split: option.splits)
  have at: "snode_at t b = (if b = a then Some (n\<lparr> psn_children := cs \<rparr>) else snode_at s b)" for b
    using tailq_remove_at [OF n, of c] Cons by (simp add: t_def)
  have mt: "snode_at t c = Some m" "orphan t c m" using m at by (auto simp: orphan_def)
  have rt: "releasable (insert c E) t" unfolding t_def by (rule tailq_remove_releasable [OF r(1) n])
  have y: "younger c t < younger a s" by (rule younger_less) (use m at n in auto)
  obtain u where u: "release_node f c t = Some u" "releasable (insert c E) u" "snode_at u c = None"
    "release_frame c t u"
    using node [OF _ rt _ mt] f y by auto
  have ru: "releasable E u" using u(2,3) by (fastforce simp: releasable_def)
  have nu: "snode_at u a = Some (n\<lparr> psn_children := cs \<rparr>)" using u(4) m(3) at by (simp add: release_frame_def)
  have sub: "snode_at u b \<noteq> None \<Longrightarrow> snode_at s b \<noteq> None" for b
    using u(4) at [of b] n by (cases "b = a") (metis option.distinct(1) release_frame_def)+
  have "younger a u < younger a s" by (rule younger_freed [OF _ m(3) u(3) sub]) (use m in auto)
  then obtain v where v: "release_children f a u = Some v" "releasable E v"
    "snode_at v a = Some (n\<lparr> psn_children := [] \<rparr>)" "release_frame a u v"
    using kids [OF _ ru r(2) nu] f by auto
  have "release_frame a s v"
    using v(4) u(4) sub at m(3) by (auto simp: release_frame_def t_def)
  then show ?thesis using v u n Cons by (auto simp: t_def)
qed

lemma release_node_step:
  assumes kids: "\<And>a s E n. 2 * younger a s + 1 \<le> f \<Longrightarrow> releasable E s \<Longrightarrow> a \<in> E \<Longrightarrow>
      snode_at s a = Some n \<Longrightarrow>
      \<exists>s'. release_children f a s = Some s' \<and> releasable E s' \<and>
        snode_at s' a = Some (n\<lparr> psn_children := [] \<rparr>) \<and> release_frame a s s'"
    and f: "2 * younger a s + 2 \<le> Suc f" and r: "releasable E s" "a \<in> E" and n: "snode_at s a = Some n"
    and o: "orphan s a n"
  shows "\<exists>s'. release_node (Suc f) a s = Some s' \<and> releasable E s' \<and> snode_at s' a = None \<and>
    release_frame a s s'"
proof -
  have e: "(case psn_parent n of None \<Rightarrow> s | Some p \<Rightarrow> tailq_remove p a s) = s"
    using o tailq_remove_noop [of s _ _ a]
    by (auto simp: orphan_def tailq_remove_def split: option.splits)
  obtain u where u: "release_children f a s = Some u" "releasable E u"
    "snode_at u a = Some (n\<lparr> psn_children := [] \<rparr>)" "release_frame a s u"
    using kids [OF _ r n] f by auto
  have "releasable E (set_snode a None u)"
    by (rule free_releasable [OF u(2,3)])
       (use o u(4) in \<open>auto simp: orphan_def release_frame_def split: option.splits\<close>)
  moreover have "release_frame a s (set_snode a None u)"
    using u(4) by (auto simp: release_frame_def split: if_splits)
  ultimately show ?thesis
    using u n e snode_at_lt [OF u(3)] by auto
qed

lemma release_terminates:
  "2 * younger a s + 2 \<le> f \<Longrightarrow> releasable E s \<Longrightarrow> a \<in> E \<Longrightarrow> snode_at s a = Some n \<Longrightarrow> orphan s a n \<Longrightarrow>
     \<exists>s'. release_node f a s = Some s' \<and> releasable E s' \<and> snode_at s' a = None \<and> release_frame a s s'"
  "2 * younger a s + 1 \<le> f \<Longrightarrow> releasable E s \<Longrightarrow> a \<in> E \<Longrightarrow> snode_at s a = Some n \<Longrightarrow>
     \<exists>s'. release_children f a s = Some s' \<and> releasable E s' \<and>
        snode_at s' a = Some (n\<lparr> psn_children := [] \<rparr>) \<and> release_frame a s s'"
proof (induction f arbitrary: a s E n)
  case 0
  {
    case 1
    then show ?case by simp
  next
    case 2
    then show ?case by simp
  }
next
  case (Suc f)
  {
    case 1
    show ?case by (rule release_node_step [OF Suc.IH(2) 1])
  next
    case 2
    show ?case by (rule release_children_step [OF Suc.IH(1) Suc.IH(2) 2])
  }
qed

lemma releasable_root_empty:
  assumes "releasable {r} s" "snode_at s r = None"
  shows "no_live s"
proof -
  have "snode_at s a = None" for a
  proof (induction a rule: less_induct)
    case (less a)
    show ?case
    proof (cases "snode_at s a")
      case (Some n)
      then have "links_up s a n" using assms by (fastforce simp: releasable_def)
      then obtain p where "p < a" "snode_at s p \<noteq> None" by (auto simp: links_up_def split: option.splits)
      then show ?thesis using less by simp
    qed simp
  qed
  then show ?thesis by (simp add: no_live_iff)
qed

lemma younger_bound: "younger a s \<le> length (snodes s) - Suc a"
proof -
  have "younger a s \<le> card {a<..<length (snodes s)}"
    unfolding younger_def by (rule card_mono) (auto dest: snode_at_lt)
  then show ?thesis by simp
qed

lemma structure_free_layout:
  assumes wf: "wf_layout r s" and r: "root_node s = Some r"
    and f: "2 * (length (snodes s) - Suc r) + 2 \<le> fuel"
  shows "\<exists>s'. procfs_structure_free fuel s = Some s' \<and> no_live s' \<and> root_node s' = None \<and>
    length (snodes s') = length (snodes s) \<and> next_node_id s' = next_node_id s"
proof -
  obtain n where n: "snode_at s r = Some n" using wf by (auto simp: wf_layout_iff)
  then have "orphan s r n" using wf by (auto simp: wf_layout_iff orphan_def)
  moreover have "releasable {r} s" using wf by (auto simp: wf_layout_iff releasable_def)
  moreover have "2 * younger r s + 2 \<le> fuel" using f younger_bound [of r s] by linarith
  ultimately obtain u where u: "release_node fuel r s = Some u" "releasable {r} u" "snode_at u r = None"
    "release_frame r s u"
    using release_terminates(1) [of r s fuel "{r}" n] n by blast
  then have "no_live u" by (blast intro: releasable_root_empty)
  then show ?thesis using u r by (auto simp: procfs_structure_free_def release_frame_def no_live_def)
qed

section \<open>Properties of the layout\<close>

text \<open>
  The mount and unmount of the last instance, as far as the layout is
  concerned; \<open>mount_cycles n\<close> repeats it. The fuel 156 is twice the 76 nodes
  below the root plus two.
\<close>

fun mount_cycles :: "nat \<Rightarrow> sstate \<Rightarrow> sstate option" where
  "mount_cycles 0 s = Some s"
| "mount_cycles (Suc n) s =
     (case mount_cycles n s of
        None \<Rightarrow> None
      | Some s \<Rightarrow> procfs_structure_free 156 (procfs_structure_init s))"

lemma length_base_ids [simp]: "length (base_ids s) = length (snodes s)"
  by (simp add: base_ids_def)

lemma init_length:
  assumes "no_live s" "root_node s = None"
  shows "length (snodes (procfs_structure_init s)) = length (snodes s) + 77"
  using arg_cong [OF init_layout(3) [OF assms], of length] by (simp add: id_run_def)

lemma init_then_free:
  assumes "no_live s" "root_node s = None"
  shows "\<exists>s'. procfs_structure_free 156 (procfs_structure_init s) = Some s' \<and> no_live s' \<and>
    root_node s' = None \<and> next_node_id s' = next_node_id s + 76"
  using structure_free_layout [OF init_layout(1,2) [OF assms], of 156]
    init_length [OF assms] init_layout(4) [OF assms] by auto

lemma mount_cycles_state:
  assumes "no_live s" "root_node s = None"
  shows "\<exists>s'. mount_cycles n s = Some s' \<and> no_live s' \<and> root_node s' = None \<and>
    next_node_id s' = next_node_id s + of_nat (76 * n)"
proof (induction n)
  case 0
  then show ?case using assms by simp
next
  case (Suc n)
  then obtain t where "mount_cycles n s = Some t" "no_live t" "root_node t = None"
    "next_node_id t = next_node_id s + of_nat (76 * n)" by blast
  then show ?case using init_then_free [of t] by (auto simp: algebra_simps)
qed

lemma init_node_id:
  assumes "no_live s" "root_node s = None" "k \<le> 76"
  shows "\<exists>n. snode_at (procfs_structure_init s) (length (snodes s) + k) = Some n \<and>
    psn_base_node_id n = (if k = 0 then PROCFS_ROOT_NODE_BASE_ID else next_node_id s + of_nat (k - 1))"
proof -
  let ?t = "procfs_structure_init s"
  have l: "length (snodes s) + k < length (snodes ?t)" using init_length [OF assms(1,2)] assms(3) by simp
  have "map_option psn_base_node_id (snodes ?t ! (length (snodes s) + k)) = base_ids ?t ! (length (snodes s) + k)"
    using l by (simp add: base_ids_def)
  also have "\<dots> = Some (if k = 0 then PROCFS_ROOT_NODE_BASE_ID else next_node_id s + of_nat (k - 1))"
    using assms(3) init_layout(3) [OF assms(1,2)] by (simp add: nth_append nth_Cons' id_run_def)
  finally show ?thesis using l by (auto simp: snode_at_def)
qed

lemma init_id_at:
  assumes "no_live s" "root_node s = None" "k \<le> 76"
    and "snode_at (procfs_structure_init s) (length (snodes s) + k) = Some n"
  shows "psn_base_node_id n = (if k = 0 then PROCFS_ROOT_NODE_BASE_ID else next_node_id s + of_nat (k - 1))"
  using init_node_id [OF assms(1-3)] unfolding assms(4) by (elim exE conjE) (simp only: option.inject)

lemma init_live_offset:
  assumes "no_live s" "root_node s = None" "snode_at (procfs_structure_init s) a = Some n"
  obtains k where "a = length (snodes s) + k" "k \<le> 76"
proof -
  let ?t = "procfs_structure_init s"
  have l: "a < length (snodes s) + 77" using snode_at_lt [OF assms(3)] init_length [OF assms(1,2)] by simp
  moreover have "\<not> a < length (snodes s)"
  proof
    assume b: "a < length (snodes s)"
    have "base_ids ?t ! a = base_ids s ! a" using b init_layout(3) [OF assms(1,2)] by (simp add: nth_append)
    also have "\<dots> = None" using b assms(1) by (simp add: base_ids_def no_live_def list_all_length)
    finally show False using assms(3) b l init_length [OF assms(1,2)]
      by (simp add: base_ids_def snode_at_def split: if_splits)
  qed
  ultimately show ?thesis using that [of "a - length (snodes s)"] by simp
qed

text \<open>
  C4: \<open>procfs_structure_init\<close>, called with no layout in memory, builds a
  well-formed one: every node is linked with its parent in both directions,
  inherits the parent's process and thread flags, and only the root has no
  parent.
\<close>

theorem structure_init_wf:
  assumes "no_live s" "root_node s = None"
  shows "wf_layout (length (snodes s)) (procfs_structure_init s) \<and>
    procfs_structure_root_node (procfs_structure_init s) = Some (length (snodes s)) \<and>
    length (snodes (procfs_structure_init s)) = length (snodes s) + 77"
  using init_layout [OF assms] init_length [OF assms] by (simp add: procfs_structure_root_node_def)

lemma no_live_init: "no_live sstate_init" "root_node sstate_init = None" "next_node_id sstate_init = 2"
  "snodes sstate_init = []"
  by (simp_all add: no_live_def sstate_init_def PROCFS_ROOT_NODE_BASE_ID_def)

theorem structure_init_wf_witness:
  "wf_layout 0 (procfs_structure_init sstate_init) \<and>
   length (snodes (procfs_structure_init sstate_init)) = 77"
  using structure_init_wf [OF no_live_init(1,2)] by (simp add: no_live_init)

lemma id_offset_inject:
  "(if j = 0 then 1 else u + (j - 1)) = (if k = 0 then 1 else u + (k - 1)) \<Longrightarrow> (1 :: nat) < u \<Longrightarrow> j = k"
  by (cases j; cases k) simp_all

text \<open>
  The base ids of one layout are unique, as long as the 16-bit counter does
  not pass 65535 while the layout is built: two live nodes with the same base id
  are the same node.
\<close>

lemma structure_ids_unique:
  assumes "no_live s" "root_node s = None"
    and "1 < unat (next_node_id s)" "unat (next_node_id s) + 76 \<le> 65536"
    and "snode_at (procfs_structure_init s) a = Some n" "snode_at (procfs_structure_init s) b = Some m"
    and "psn_base_node_id n = psn_base_node_id m"
  shows "a = b"
proof -
  obtain j k where j: "a = length (snodes s) + j" "j \<le> 76" and k: "b = length (snodes s) + k" "k \<le> 76"
    using init_live_offset [OF assms(1,2,5)] init_live_offset [OF assms(1,2,6)] by metis
  have val: "unat (if i = 0 then PROCFS_ROOT_NODE_BASE_ID else next_node_id s + of_nat (i - 1)) =
      (if i = 0 then 1 else unat (next_node_id s) + (i - 1))" if "i \<le> 76" for i
    using that assms(4)
    by (cases i) (simp_all add: PROCFS_ROOT_NODE_BASE_ID_def unat_word_ariths unat_of_nat)
  have "unat (psn_base_node_id n) = (if j = 0 then 1 else unat (next_node_id s) + (j - 1))"
    unfolding init_id_at [OF assms(1,2) j(2) assms(5) [unfolded j(1)]] by (rule val [OF j(2)])
  moreover have "unat (psn_base_node_id m) = (if k = 0 then 1 else unat (next_node_id s) + (k - 1))"
    unfolding init_id_at [OF assms(1,2) k(2) assms(6) [unfolded k(1)]] by (rule val [OF k(2)])
  ultimately have "(if j = 0 then 1 else unat (next_node_id s) + (j - 1)) =
      (if k = 0 then 1 else unat (next_node_id s) + (k - 1))" unfolding assms(7) by (rule trans [OF sym])
  then have "j = k" by (rule id_offset_inject [OF _ assms(3)])
  then show ?thesis by (simp add: j(1) k(1))
qed

theorem structure_ids_unique_witness:
  "map_option psn_base_node_id (snode_at (procfs_structure_init sstate_init) 24) \<noteq>
   map_option psn_base_node_id (snode_at (procfs_structure_init sstate_init) 27)"
proof -
  obtain n m where "snode_at (procfs_structure_init sstate_init) 24 = Some n"
    "snode_at (procfs_structure_init sstate_init) 27 = Some m"
    using init_node_id [OF no_live_init(1,2), of 24] init_node_id [OF no_live_init(1,2), of 27]
    by (auto simp: no_live_init)
  then show ?thesis
    using structure_ids_unique [OF no_live_init(1,2), of 24 n 27 m] by (auto simp: no_live_init)
qed

text \<open>
  C23: unmounting after a mount releases every structure node without touching
  freed memory, and leaves no root, so that the next mount builds a new layout.
\<close>

theorem structure_free_all:
  assumes "no_live s" "root_node s = None"
  shows "\<exists>s'. procfs_structure_free 156 (procfs_structure_init s) = Some s' \<and> no_live s' \<and>
    procfs_structure_root_node s' = None"
  using init_then_free [OF assms] by (auto simp: procfs_structure_root_node_def)

theorem structure_free_all_witness:
  "\<exists>s'. procfs_structure_free 156 (procfs_structure_init sstate_init) = Some s' \<and> no_live s'"
  using structure_free_all [OF no_live_init(1,2)] by blast

text \<open>
  \<open>next_node_id\<close> is never reset, so after 862 mounts and unmounts the next
  layout contains a node below the root whose base id is the root's own.
\<close>

lemma remount_reuses_root_id:
  "\<exists>s a n. mount_cycles 862 sstate_init = Some s \<and>
     procfs_structure_root_node (procfs_structure_init s) \<noteq> Some a \<and>
     snode_at (procfs_structure_init s) a = Some n \<and> psn_base_node_id n = PROCFS_ROOT_NODE_BASE_ID"
proof -
  obtain s where s: "mount_cycles 862 sstate_init = Some s" "no_live s" "root_node s = None"
    "next_node_id s = 2 + of_nat (76 * 862)"
    using mount_cycles_state [OF no_live_init(1,2), of 862] no_live_init(3) by auto
  obtain n where "snode_at (procfs_structure_init s) (length (snodes s) + 24) = Some n"
    "psn_base_node_id n = next_node_id s + of_nat 23"
    using init_node_id [OF s(2,3), of 24] by auto
  moreover have "next_node_id s + of_nat 23 = PROCFS_ROOT_NODE_BASE_ID"
    by (simp add: s(4) PROCFS_ROOT_NODE_BASE_ID_def)
  ultimately show ?thesis using s(1) init_layout(2) [OF s(2,3)]
    by (intro exI [of _ s] exI [of _ "length (snodes s) + 24"]) (auto simp: procfs_structure_root_node_def)
qed

text \<open>The layout rule stated before \<open>procfs_structure_init\<close>, and names among siblings.\<close>

definition expands :: "pfstype \<Rightarrow> bool" where
  "expands t \<longleftrightarrow> t \<in> {PFSproc, PFSprocnamedir, PFSthread, PFSfd}"

definition child_lists :: "sstate \<Rightarrow> saddr list list" where
  "child_lists s = List.map_filter (map_option psn_children) (snodes s)"

definition dynamic_last :: "saddr list list \<Rightarrow> bool option list \<Rightarrow> bool" where
  "dynamic_last css ts = list_all (list_all (\<lambda>c. ts ! c = Some False) \<circ> butlast) css"

definition names_unique :: "saddr list list \<Rightarrow> string option list \<Rightarrow> bool" where
  "names_unique css ns = list_all (\<lambda>cs. distinct (map (\<lambda>c. ns ! c) cs)) css"

definition layout_ok :: "sstate \<Rightarrow> bool" where
  "layout_ok s \<longleftrightarrow>
     dynamic_last (child_lists s) (map (map_option (\<lambda>n. expands (psn_node_type n))) (snodes s)) \<and>
     names_unique (child_lists s) (map (map_option psn_name) (snodes s))"

text \<open>
  In the layout of the first mount, the entries that expand to processes,
  threads and descriptors are the last in their parent's child list, and no two
  children of a node have the same name.
\<close>

lemma layout_dynamic_last: "layout_ok (procfs_structure_init sstate_init)"
  by code_simp

end
