(* ===== verification/Subr.thy ===== *)
theory Subr
imports Structure Kernel
begin

text \<open>
  The helpers of \<^verbatim>\<open>kext/procfs_subr.c\<close> and the node types of
  \<^verbatim>\<open>include/fs/procfs/procfs.h\<close>: vnode types, file ids, number parsing, the
  process and thread lists, the access checks and \<open>procfs_copy_data\<close>. Proved:
  numbers printed in decimal parse back, file ids are injective on the range
  they have room for, the process list is the ascending list of accessible pids
  with every reference returned, the access decision, and that successive reads
  through \<open>procfs_copy_data\<close> deliver the data exactly once.
\<close>

section \<open>Node identities\<close>

definition PRNODE_NO_PID :: int where "PRNODE_NO_PID = - 1"
definition PRNODE_NO_OBJECTID :: "64 word" where "PRNODE_NO_OBJECTID = 0"

record pfsid =
  nodeid_pid :: int
  nodeid_objectid :: "64 word"
  nodeid_base_id :: pfsbaseid

record pfsmount =
  pmnt_id :: int
  pmnt_flags :: int
  pmnt_mount_time :: "int \<times> int"

record pfsnode =
  node_vnode :: "vnode option"
  node_attaching_vnode :: bool
  node_thread_waiting_attach :: bool
  node_mnt_id :: int
  node_id :: pfsid
  node_structure_node :: saddr

definition PROCFS_MOPT_NOPROCPERMS :: int where "PROCFS_MOPT_NOPROCPERMS = 1"

definition procfs_should_access_check :: "pfsmount \<Rightarrow> bool" where
  "procfs_should_access_check pmp \<longleftrightarrow> pmnt_flags pmp AND PROCFS_MOPT_NOPROCPERMS = 0"

definition procfsnode_to_pid :: "pfsnode \<Rightarrow> int" where
  "procfsnode_to_pid n = nodeid_pid (node_id n)"

section \<open>Node types\<close>

datatype vtype = VNON | VREG | VDIR | VLNK

fun procfs_allocvp :: "pfstype \<Rightarrow> vtype" where
  "procfs_allocvp PFSroot = VDIR"
| "procfs_allocvp PFSproc = VDIR"
| "procfs_allocvp PFSthread = VDIR"
| "procfs_allocvp PFSdir = VDIR"
| "procfs_allocvp PFSdirthis = VDIR"
| "procfs_allocvp PFSdirparent = VDIR"
| "procfs_allocvp PFSfd = VDIR"
| "procfs_allocvp PFSsysctl = VDIR"
| "procfs_allocvp PFSfile = VREG"
| "procfs_allocvp PFScpuinfo = VREG"
| "procfs_allocvp PFSloadavg = VREG"
| "procfs_allocvp PFSpartitions = VREG"
| "procfs_allocvp PFSversion = VREG"
| "procfs_allocvp PFSmeminfo = VREG"
| "procfs_allocvp PFSmtab = VREG"
| "procfs_allocvp PFSstat = VREG"
| "procfs_allocvp PFSvmstat = VREG"
| "procfs_allocvp PFSuptime = VREG"
| "procfs_allocvp PFSswaps = VREG"
| "procfs_allocvp PFSfilesystems = VREG"
| "procfs_allocvp PFSprocnamedir = VLNK"
| "procfs_allocvp PFScurproc = VLNK"
| "procfs_allocvp PFSproclink = VLNK"

definition procfs_node_type_has_pid :: "pfstype \<Rightarrow> bool" where
  "procfs_node_type_has_pid t \<longleftrightarrow>
     t \<noteq> PFSroot \<and> t \<noteq> PFScurproc \<and> t \<noteq> PFSdir \<and> t \<noteq> PFScpuinfo \<and>
     t \<noteq> PFSversion \<and> t \<noteq> PFSmeminfo \<and> t \<noteq> PFSmtab \<and> t \<noteq> PFSstat \<and>
     t \<noteq> PFSvmstat \<and> t \<noteq> PFSuptime \<and> t \<noteq> PFSswaps \<and> t \<noteq> PFSfilesystems \<and>
     t \<noteq> PFSsysctl"

text \<open>
  The process of a node: \<open>Inl ENOENT\<close>, or the pid and the process if there is one.
\<close>

definition procfs_get_process_info ::
  "kenv \<Rightarrow> pfstype \<Rightarrow> pfsnode \<Rightarrow> kst \<Rightarrow> (int \<times> proc option) result \<times> kst" where
  "procfs_get_process_info k node_type pfsnode st =
     (let pid = procfsnode_to_pid pfsnode;
          (p, st) = (if pid = PRNODE_NO_PID then (None, st) else proc_find k pid st)
      in if p = None \<and> procfs_node_type_has_pid node_type then (Inl ENOENT, st)
         else (Inr (pid, p), st))"

section \<open>File ids\<close>

text \<open>
  \<^verbatim>\<open>pid << 8\<close> is computed in 32-bit \<^verbatim>\<open>int\<close> and sign extended when it is or-ed into
  the 64-bit id.
\<close>

definition procfs_get_fileid :: "int \<Rightarrow> 64 word \<Rightarrow> pfsbaseid \<Rightarrow> 64 word" where
  "procfs_get_fileid pid objectid base_id =
     (let i = ucast base_id;
          i = (if pid \<noteq> PRNODE_NO_PID then i OR scast (push_bit 8 (word_of_int pid :: 32 word)) else i)
      in i OR push_bit 24 objectid)"

definition procfs_get_node_fileid :: "(saddr \<Rightarrow> pfsbaseid) \<Rightarrow> pfsnode \<Rightarrow> 64 word" where
  "procfs_get_node_fileid base_of pnp =
     procfs_get_fileid (nodeid_pid (node_id pnp)) (nodeid_objectid (node_id pnp))
       (base_of (node_structure_node pnp))"

section \<open>Numbers\<close>

text \<open>
  The accumulator is a 32-bit \<^verbatim>\<open>int\<close>. The result is the value, -1 if the first
  character is not a digit, with the text at \<^verbatim>\<open>*end_ptr\<close>.
\<close>

fun atoi_loop :: "int \<Rightarrow> string \<Rightarrow> int \<times> string" where
  "atoi_loop v [] = (v, [])"
| "atoi_loop v (c # cs) =
     (if c \<noteq> CHR 0x00 \<and> isdigit c
      then atoi_loop (to_int32 (to_int32 (v * 10) + int (of_char c) - 48)) cs
      else (v, c # cs))"

definition procfs_atoi :: "string \<Rightarrow> int \<times> string" where
  "procfs_atoi p = (case atoi_loop 0 p of (v, e) \<Rightarrow> (if e = p then (- 1, e) else (v, e)))"

section \<open>Processes\<close>

text \<open>0 if the credentials may see the process, \<open>EACCES\<close> otherwise.\<close>

definition procfs_check_can_access_process :: "cred \<Rightarrow> proc \<Rightarrow> kst \<Rightarrow> err \<times> kst" where
  "procfs_check_can_access_process creds p st =
     (let st = cred_ref st;
          proc_cred = p_cred p;
          error = Some EACCES;
          cred_euid = cr_uid creds;
          error = (if cred_euid = cr_uid proc_cred \<or> cred_euid = cr_ruid proc_cred then None else error);
          cred_egid = cr_gid creds;
          error = (if error \<noteq> None \<and> (cred_egid = cr_gid proc_cred \<or> cred_egid = cr_rgid proc_cred)
                   then None else error);
          st = cred_unref st
      in (error, st))"

definition procfs_check_can_access_proc_pid :: "kenv \<Rightarrow> cred \<Rightarrow> int \<Rightarrow> kst \<Rightarrow> err \<times> kst" where
  "procfs_check_can_access_proc_pid k creds pid st =
     (case proc_find k pid st of
        (None, st) \<Rightarrow> (Some ESRCH, st)
      | (Some p, st) \<Rightarrow>
          (case procfs_check_can_access_process creds p st of
             (error, st) \<Rightarrow> (error, proc_rele pid st)))"

definition procfs_issuser :: "cred \<Rightarrow> err" where
  "procfs_issuser creds = (if cr_uid creds = 0 then None else Some EPERM)"

definition PROCFS_MAX_PID :: int where "PROCFS_MAX_PID = 99999"
definition PROCFS_MAX_PROCS :: nat where "PROCFS_MAX_PROCS = 1024"

text \<open>The callback of the list iteration; the result is \<^verbatim>\<open>PROC_RETURNED\<close> throughout.\<close>

record procfs_pidlist_data =
  max_procs :: nat
  pl_creds :: "cred option"
  pids :: "int list"

definition procfs_get_pid :: "proc \<Rightarrow> procfs_pidlist_data \<Rightarrow> kst \<Rightarrow> procfs_pidlist_data \<times> kst" where
  "procfs_get_pid p data st =
     (let (ok, st) = (case pl_creds data of
                        None \<Rightarrow> (True, st)
                      | Some creds \<Rightarrow> (case procfs_check_can_access_process creds p st of
                                         (e, st) \<Rightarrow> (e = None, st)))
      in if ok then
           if length (pids data) \<ge> max_procs data then (data, st)
           else (data\<lparr> pids := pids data @ [p_pid p] \<rparr>, st)
         else (data, st))"

text \<open>The enumeration loop, with the pids collected so far.\<close>

function get_pids_loop :: "kenv \<Rightarrow> cred option \<Rightarrow> int \<Rightarrow> int list \<Rightarrow> kst \<Rightarrow> int list \<times> kst" where
  "get_pids_loop k creds pid acc st =
     (if pid \<le> PROCFS_MAX_PID \<and> length acc < PROCFS_MAX_PROCS then
        (case proc_find k pid st of
           (None, st) \<Rightarrow> get_pids_loop k creds (pid + 1) acc st
         | (Some p, st) \<Rightarrow>
             (case (case creds of
                      None \<Rightarrow> (None, st)
                    | Some c \<Rightarrow> procfs_check_can_access_process c p st) of
                (e, st) \<Rightarrow>
                  get_pids_loop k creds (pid + 1)
                    (if e = None then acc @ [pid] else acc) (proc_rele pid st)))
      else (acc, st))"
  by pat_completeness auto
termination
  by (relation "measure (\<lambda>(k, creds, pid, acc, st). nat (PROCFS_MAX_PID + 1 - pid))") auto

declare get_pids_loop.simps [simp del]

text \<open>\<open>None\<close> is the NULL list; the size is what the caller must free.\<close>

definition procfs_get_pids :: "kenv \<Rightarrow> cred option \<Rightarrow> kst \<Rightarrow> (int list option \<times> int) \<times> kst" where
  "procfs_get_pids k creds st =
     (let pidsize = int PROCFS_MAX_PROCS * 4
      in case OSMalloc k pidsize st of
           (False, st) \<Rightarrow> ((None, 0), st)
         | (True, st) \<Rightarrow>
             (case get_pids_loop k creds 0 [] st of
                (pidp, st) \<Rightarrow> ((Some pidp, pidsize), st)))"

definition procfs_release_pids :: "int \<Rightarrow> kst \<Rightarrow> kst" where
  "procfs_release_pids sz st = OSFree sz st"

definition procfs_get_process_count :: "kenv \<Rightarrow> cred \<Rightarrow> kst \<Rightarrow> int \<times> kst" where
  "procfs_get_process_count k creds st =
     (let is_suser = (procfs_issuser creds = None)
      in case procfs_get_pids k (if is_suser then None else Some creds) st of
           ((pidp, sz), st) \<Rightarrow>
             ((case pidp of None \<Rightarrow> 0 | Some l \<Rightarrow> int (length l)), procfs_release_pids sz st))"

section \<open>Threads\<close>

definition PROCFS_THREAD_SIZE_MAX :: int where "PROCFS_THREAD_SIZE_MAX = 262144"
definition PROCFS_MAX_THREADS :: nat where "PROCFS_MAX_THREADS = 100000"
definition PROCFS_KPTR_MIN :: int where "PROCFS_KPTR_MIN = 0xfffffe0000000000"

definition procfs_kptr_ok :: "kenv \<Rightarrow> int \<Rightarrow> bool" where
  "procfs_kptr_ok k va = (if va < PROCFS_KPTR_MIN then False else phys_of k va \<noteq> 0)"

text \<open>The search of \<open>procfs_thread_size_init\<close> for the lowest uthread above the thread.\<close>

fun best_uthread :: "kenv \<Rightarrow> int \<Rightarrow> int list \<Rightarrow> nat \<Rightarrow> int option \<Rightarrow> int option" where
  "best_uthread k th [] i best = best"
| "best_uthread k th (u # us) i best =
     (if i < PROCFS_MAX_THREADS then
        if \<not> procfs_kptr_ok k u then best
        else best_uthread k th us (i + 1)
               (if u > th \<and> u - th < PROCFS_THREAD_SIZE_MAX
                then (case best of None \<Rightarrow> Some u | Some b \<Rightarrow> (if u < b then Some u else best))
                else best)
      else best)"

text \<open>
  The statics \<open>g_thread_struct_size\<close> and \<open>g_thread_size_known\<close>: the size, once known.
\<close>

definition procfs_thread_size_init :: "kenv \<Rightarrow> int option \<Rightarrow> int option" where
  "procfs_thread_size_init k size_known =
     (case size_known of
        Some sz \<Rightarrow> Some sz
      | None \<Rightarrow>
          (case current_proc k of
             None \<Rightarrow> None
           | Some cp \<Rightarrow>
               if current_thread k = 0 then None
               else map_option (\<lambda>best. best - current_thread k)
                      (best_uthread k (current_thread k) (p_uthlist cp) 0 None)))"

fun count_uthreads :: "kenv \<Rightarrow> int list \<Rightarrow> nat \<Rightarrow> nat" where
  "count_uthreads k [] n = n"
| "count_uthreads k (u # us) n =
     (if n < PROCFS_MAX_THREADS then
        if \<not> procfs_kptr_ok k u then n else count_uthreads k us (n + 1)
      else n)"

fun collect_tids :: "kenv \<Rightarrow> int \<Rightarrow> nat \<Rightarrow> int list \<Rightarrow> int list \<Rightarrow> int list" where
  "collect_tids k sz count [] ids = ids"
| "collect_tids k sz count (u # us) ids =
     (if length ids < count then
        if \<not> procfs_kptr_ok k u then ids
        else let thread = to_uint64 (u - sz)
             in collect_tids k sz count us
                  (if procfs_kptr_ok k thread then ids @ [tid_of k thread] else ids)
      else ids)"

datatype kern_return = KERN_SUCCESS | KERN_NOT_SUPPORTED | KERN_RESOURCE_SHORTAGE

text \<open>The return code, the ids (\<open>None\<close> is NULL) and the recorded structure size.\<close>

definition procfs_get_thread_ids_for_task ::
  "kenv \<Rightarrow> proc option \<Rightarrow> int option \<Rightarrow> kst \<Rightarrow> (kern_return \<times> int list option) \<times> int option \<times> kst" where
  "procfs_get_thread_ids_for_task k p g st =
     (let g = procfs_thread_size_init k g
      in case (g, p) of
           (Some sz, Some p) \<Rightarrow>
             (let count = count_uthreads k (p_uthlist p) 0
              in if count = 0 then ((KERN_SUCCESS, None), g, st)
                 else case OSMalloc k (int count * 8) st of
                        (False, st) \<Rightarrow> ((KERN_RESOURCE_SHORTAGE, None), g, st)
                      | (True, st) \<Rightarrow>
                          ((KERN_SUCCESS, Some (collect_tids k sz count (p_uthlist p) [])), g, st))
         | _ \<Rightarrow> ((KERN_NOT_SUPPORTED, None), g, st))"

definition procfs_release_thread_ids :: "int \<Rightarrow> kst \<Rightarrow> kst" where
  "procfs_release_thread_ids thread_count st = OSFree (thread_count * 8) st"

definition ids_count :: "int list option \<Rightarrow> int" where
  "ids_count ids = (case ids of None \<Rightarrow> 0 | Some l \<Rightarrow> int (length l))"

definition procfs_get_task_thread_count ::
  "kenv \<Rightarrow> proc option \<Rightarrow> int option \<Rightarrow> kst \<Rightarrow> int \<times> int option \<times> kst" where
  "procfs_get_task_thread_count k p g st =
     (case procfs_get_thread_ids_for_task k p g st of
        ((kr, ids), g, st) \<Rightarrow>
          (ids_count ids, g,
           if kr = KERN_SUCCESS then procfs_release_thread_ids (ids_count ids) st else st))"

section \<open>Copying file data\<close>

text \<open>
  \<open>data_len\<close> is a 32-bit \<^verbatim>\<open>int\<close>, the offset a 64-bit \<^verbatim>\<open>off_t\<close>: the subtraction is
  done in 64 bits and its result cut to 32.
\<close>

definition procfs_copy_data :: "uiomove_fn \<Rightarrow> bytes option \<Rightarrow> int \<Rightarrow> uio \<Rightarrow> err \<times> uio" where
  "procfs_copy_data um data data_len uio =
     (let start_offset = uio_offset uio;
          data_len = to_int32 (data_len - start_offset)
      in case data of
           Some b \<Rightarrow> if data_len \<ge> 0 then um (b, start_offset) data_len uio else (Some EIO, uio)
         | None \<Rightarrow> if data_len \<ge> 0 then (Some EFAULT, uio) else (Some ENOTSUP, uio))"

section \<open>Parsing numbers\<close>

lemma to_int32_mod: "to_int32 x mod 2 ^ 32 = x mod 2 ^ 32"
  unfolding to_int32_def by (metis add_diff_cancel_right' mod_diff_left_eq)

lemma to_int32_cong: "x mod 2 ^ 32 = y mod 2 ^ 32 \<Longrightarrow> to_int32 x = to_int32 y"
  unfolding to_int32_def by (metis mod_add_left_eq)

lemma to_int32_mult: "to_int32 (to_int32 x * y) = to_int32 (x * y)"
  by (rule to_int32_cong) (metis mod_mult_left_eq to_int32_mod)

lemma to_int32_add: "to_int32 (to_int32 x + y) = to_int32 (x + y)"
  by (rule to_int32_cong) (metis mod_add_left_eq to_int32_mod)

lemma to_int32_step: "to_int32 (to_int32 (to_int32 x * 10) + c - 48) = to_int32 (10 * x + (c - 48))"
  using to_int32_add [of "x * 10" "c - 48"]
  by (simp only: to_int32_mult add_diff_eq mult.commute)

lemma isdigit_not_nul [simp]: "isdigit c \<Longrightarrow> c \<noteq> CHR 0x00"
  by (auto simp: isdigit_def)

lemma digit_value_int: "isdigit c \<Longrightarrow> int (digit_value c) = int (of_char c) - 48"
  by (simp add: isdigit_def digit_value_def)

lemma atoi_loop_digits:
  assumes "\<forall>c \<in> set s. isdigit c" and "r = [] \<or> \<not> isdigit (hd r)"
  shows "atoi_loop (to_int32 (int v)) (s @ r) = (to_int32 (int (digits_value v s)), r)"
  using assms(1)
proof (induction s arbitrary: v)
  case Nil
  then show ?case using assms(2) by (cases r) auto
next
  case (Cons c s)
  have "to_int32 (to_int32 (to_int32 (int v) * 10) + int (of_char c) - 48) =
      to_int32 (int (10 * v + digit_value c))"
    using Cons.prems digit_value_int [of c] by (simp add: to_int32_step)
  then show ?case using Cons.prems Cons.IH [of "10 * v + digit_value c"] by simp
qed

lemma atoi_digits:
  assumes "s \<noteq> []" "\<forall>c \<in> set s. isdigit c" "r = [] \<or> \<not> isdigit (hd r)"
  shows "procfs_atoi (s @ r) = (to_int32 (int (digits_value 0 s)), r)"
  using atoi_loop_digits [OF assms(2,3), of 0] assms(1) by (simp add: procfs_atoi_def)

lemma atoi_print:
  assumes "0 \<le> n" "n < 2 ^ 31" "r = [] \<or> \<not> isdigit (hd r)"
  shows "procfs_atoi (fmt_u n @ r) = (n, r)"
  using atoi_digits [of "fmt_u n" r] assms nat_to_base10_digits by (auto simp: fmt_u_def)

lemma atoi_no_digit: "s = [] \<or> \<not> isdigit (hd s) \<Longrightarrow> procfs_atoi s = (- 1, s)"
  by (cases s) (auto simp: procfs_atoi_def)

text \<open>
  \<open>procfs_atoi\<close> consumes exactly the leading digits and returns their decimal
  value reduced to a signed 32-bit integer; without a leading digit it returns
  -1 and consumes nothing.
\<close>

lemma procfs_atoi_value:
  "procfs_atoi s =
     (let d = takeWhile isdigit s
      in if d = [] then (- 1, s) else (to_int32 (int (digits_value 0 d)), dropWhile isdigit s))"
proof -
  have h: "dropWhile isdigit s = [] \<or> \<not> isdigit (hd (dropWhile isdigit s))"
    using hd_dropWhile by blast
  show ?thesis
  proof (cases "takeWhile isdigit s = []")
    case True
    then show ?thesis using atoi_no_digit [of s] by (cases s) (auto split: if_splits)
  next
    case False
    then show ?thesis
      using atoi_digits [OF False _ h] by (auto simp: Let_def dest: set_takeWhileD)
  qed
qed

text \<open>
  A non-negative number below \<open>2 ^ 31\<close> printed in decimal is read back
  unchanged and leaves the text that follows it, so the name of a process or
  thread directory determines its number.
\<close>

lemma procfs_atoi_print:
  assumes "0 \<le> n" "n < 2 ^ 31"
  shows "procfs_atoi (fmt_d n) = (n, [])"
  using atoi_print [OF assms, of "[]"] assms by (simp add: fmt_d_def)

theorem procfs_atoi_print_witness: "procfs_atoi (fmt_d 99999) = (99999, [])"
  by (rule procfs_atoi_print) simp_all

lemma procfs_atoi_wraps: "procfs_atoi ''4294967297'' = procfs_atoi ''1''"
  by code_simp

section \<open>File ids\<close>

lemma bit_int_below: "0 \<le> (i :: int) \<Longrightarrow> i < 2 ^ k \<Longrightarrow> k \<le> n \<Longrightarrow> \<not> bit i n"
  by (metis bit_take_bit_iff not_less take_bit_int_eq_self)

lemma bit_word_below: "unat (w :: 'a :: len word) < 2 ^ k \<Longrightarrow> k \<le> n \<Longrightarrow> \<not> bit w n"
  by (metis bit_take_bit_iff less_irrefl_nat not_less take_bit_nat_eq_self unsigned_take_bit_eq unsigned_word_eqI)

lemma bit_fileid:
  assumes "0 \<le> pid" "pid < 2 ^ 16" "unat base < 2 ^ 8"
  shows "bit (procfs_get_fileid pid obj base) n \<longleftrightarrow>
    n < 64 \<and> (if n < 8 then bit base n else if n < 24 then bit pid (n - 8) else bit obj (n - 24))"
proof -
  have "pid \<noteq> PRNODE_NO_PID" using assms(1) by (simp add: PRNODE_NO_PID_def)
  moreover have "bit base n \<Longrightarrow> n < 8" using bit_word_below [OF assms(3)] by (metis not_less)
  moreover have "bit pid m \<Longrightarrow> m < 16" for m using bit_int_below [OF assms(1,2)] by (metis not_less)
  ultimately show ?thesis
    unfolding procfs_get_fileid_def Let_def
    by (auto simp: bit_simps not_less) fastforce+
qed

lemma fileid_inject:
  assumes "0 \<le> p1" "p1 < 2 ^ 16" "unat b1 < 2 ^ 8" and "0 \<le> p2" "p2 < 2 ^ 16" "unat b2 < 2 ^ 8"
    and o: "unat o1 < 2 ^ 40" "unat o2 < 2 ^ 40"
    and e: "procfs_get_fileid p1 o1 b1 = procfs_get_fileid p2 o2 b2"
  shows "p1 = p2 \<and> o1 = o2 \<and> b1 = b2"
proof -
  have eq: "n < 64 \<Longrightarrow> (if n < 8 then bit b1 n else if n < 24 then bit p1 (n - 8) else bit o1 (n - 24)) =
      (if n < 8 then bit b2 n else if n < 24 then bit p2 (n - 8) else bit o2 (n - 24))" for n
    using bit_fileid [OF assms(1-3), of o1 n] bit_fileid [OF assms(4-6), of o2 n] e by simp
  have "b1 = b2"
  proof (rule bit_word_eqI)
    fix n show "bit b1 n = bit b2 n"
      using eq [of n] bit_word_below [OF assms(3), of n] bit_word_below [OF assms(6), of n]
      by (cases "n < 8") auto
  qed
  moreover have "p1 = p2"
  proof (rule bit_eqI)
    fix n show "bit p1 n = bit p2 n"
      using eq [of "n + 8"] bit_int_below [OF assms(1,2), of n] bit_int_below [OF assms(4,5), of n]
      by (cases "n < 16") auto
  qed
  moreover have "o1 = o2"
  proof (rule bit_word_eqI)
    fix n show "bit o1 n = bit o2 n"
      using eq [of "n + 24"] bit_word_below [OF o(1), of n] bit_word_below [OF o(2), of n]
      by (cases "n < 40") auto
  qed
  ultimately show ?thesis by simp
qed

text \<open>
  C28: file ids are unique for pids below 65536, base ids below 256 and object
  ids below \<open>2 ^ 40\<close>: equal file ids come from the same process, object and
  structure node.
\<close>

theorem procfs_fileid_unique:
  assumes "0 \<le> p1" "p1 < 65536" "unat b1 < 256" and "0 \<le> p2" "p2 < 65536" "unat b2 < 256"
    and "unat o1 < 2 ^ 40" "unat o2 < 2 ^ 40"
    and "procfs_get_fileid p1 o1 b1 = procfs_get_fileid p2 o2 b2"
  shows "p1 = p2 \<and> o1 = o2 \<and> b1 = b2"
  by (rule fileid_inject) (use assms in simp_all)

theorem procfs_fileid_unique_witness: "procfs_get_fileid 100 3 27 \<noteq> procfs_get_fileid 101 3 27"
  using procfs_fileid_unique [of 100 27 101 27 3 3] by auto

text \<open>
  Pids run up to 99999 and need 17 bits, so the pid field of a file id
  overlaps the object id: a node of process 65537 and a node of object 1 of
  process 1 have the same file id.
\<close>

lemma procfs_fileid_collides: "procfs_get_fileid 65537 0 27 = procfs_get_fileid 1 1 27"
  by (simp add: procfs_get_fileid_def PRNODE_NO_PID_def)

section \<open>Access and process lists\<close>

text \<open>
  What the check decides: the caller's effective user id is the process's
  effective or real one, or its group id the process's effective or real one.
\<close>

definition may_access :: "cred \<Rightarrow> proc \<Rightarrow> bool" where
  "may_access c p \<longleftrightarrow>
     cr_uid c = cr_uid (p_cred p) \<or> cr_uid c = cr_ruid (p_cred p) \<or>
     cr_gid c = cr_gid (p_cred p) \<or> cr_gid c = cr_rgid (p_cred p)"

lemma check_access [simp]:
  "procfs_check_can_access_process c p st = ((if may_access c p then None else Some EACCES), st)"
  by (simp add: procfs_check_can_access_process_def may_access_def Let_def)

definition visible :: "kenv \<Rightarrow> cred option \<Rightarrow> int \<Rightarrow> bool" where
  "visible k creds pid \<longleftrightarrow>
     (case proc_find_k k pid of
        None \<Rightarrow> False
      | Some p \<Rightarrow> (case creds of None \<Rightarrow> True | Some c \<Rightarrow> may_access c p))"

lemma get_pids_loop_spec:
  "get_pids_loop k creds pid acc st =
     (acc @ take (PROCFS_MAX_PROCS - length acc) (filter (visible k creds) [pid..PROCFS_MAX_PID]), st)"
proof (induction k creds pid acc st rule: get_pids_loop.induct)
  case (1 k creds pid acc st)
  show ?case
  proof (cases "pid \<le> PROCFS_MAX_PID \<and> length acc < PROCFS_MAX_PROCS")
    case False
    then show ?thesis by (subst get_pids_loop.simps) auto
  next
    case True
    have u: "[pid..PROCFS_MAX_PID] = pid # [pid + 1..PROCFS_MAX_PID]" using True by (simp add: upto_rec1)
    have n: "PROCFS_MAX_PROCS - length acc = Suc (PROCFS_MAX_PROCS - Suc (length acc))" using True by linarith
    show ?thesis
    proof (cases "proc_find_k k pid")
      case None
      then have "\<not> visible k creds pid" by (simp add: visible_def)
      then show ?thesis using None True 1(1) [OF True, of None st] u
        by (subst get_pids_loop.simps) simp
    next
      case (Some p)
      define st' where "st' = proc_hold pid st"
      have f: "proc_find k pid st = (Some p, st')" using Some by (simp add: st'_def)
      have r: "proc_rele pid st' = st" by (simp add: st'_def)
      define e where "e = (case creds of None \<Rightarrow> None | Some c \<Rightarrow> if may_access c p then None else Some EACCES)"
      have c: "(case creds of None \<Rightarrow> (None, st') | Some c \<Rightarrow> procfs_check_can_access_process c p st') = (e, st')"
        by (simp add: e_def split: option.split)
      have v: "visible k creds pid = (e = None)" using Some by (simp add: visible_def e_def split: option.split)
      have "get_pids_loop k creds pid acc st =
          get_pids_loop k creds (pid + 1) (if e = None then acc @ [pid] else acc) st"
        using True f c r by (subst get_pids_loop.simps) simp
      then show ?thesis
        using 1(2) [OF True f [symmetric] refl c [symmetric]] r u v n by auto
    qed
  qed
qed

lemma get_pids_state:
  "procfs_get_pids k creds st =
     (if malloc_ok k 4096
      then ((Some (take PROCFS_MAX_PROCS (filter (visible k creds) [0..PROCFS_MAX_PID])), 4096),
            snd (OSMalloc k 4096 st))
      else ((None, 0), st))"
  by (simp add: procfs_get_pids_def get_pids_loop_spec OSMalloc_def PROCFS_MAX_PROCS_def)

lemma process_count_state [simp]: "snd (procfs_get_process_count k creds st) = st"
  by (simp add: procfs_get_process_count_def get_pids_state procfs_release_pids_def OSFree_def OSMalloc_def Let_def)

text \<open>
  C6: \<open>procfs_get_pids\<close> returns the first 1024 pids, in ascending order, of the
  processes that exist and that the credentials may see (all of them without
  credentials), and gives back every process and credential reference it took.
\<close>

theorem procfs_get_pids_list:
  "procfs_get_pids k creds st =
     (if malloc_ok k 4096
      then ((Some (take 1024 (filter (visible k creds) [0..99999])), 4096),
            st\<lparr> os_bytes := os_bytes st + 4096 \<rparr>)
      else ((None, 0), st))"
  using get_pids_state [of k creds st] unfolding PROCFS_MAX_PROCS_def PROCFS_MAX_PID_def
  by (simp add: OSMalloc_def split: if_splits)


section \<open>Thread lists\<close>

lemma count_uthreads_le: "count_uthreads k us n \<le> n + length us"
  by (induction us arbitrary: n) (auto split: if_splits, metis add_Suc add_Suc_right)

lemma count_uthreads_all:
  assumes "\<forall>u \<in> set us. procfs_kptr_ok k u" "n + length us \<le> PROCFS_MAX_THREADS"
  shows "count_uthreads k us n = n + length us"
  using assms by (induction us arbitrary: n) auto

lemma collect_tids_all:
  assumes "\<forall>u \<in> set us. procfs_kptr_ok k u \<and> procfs_kptr_ok k (to_uint64 (u - sz))"
    and "length ids + length us \<le> count"
  shows "collect_tids k sz count us ids = ids @ map (\<lambda>u. tid_of k (to_uint64 (u - sz))) us"
  using assms by (induction us arbitrary: ids) (auto simp: Let_def)

lemma collect_tids_le: "length ids \<le> count \<Longrightarrow> length (collect_tids k sz count us ids) \<le> count"
  by (induction us arbitrary: ids) (auto simp: Let_def)

lemma thread_count_bytes:
  "os_bytes (snd (snd (procfs_get_task_thread_count k p g st))) =
     os_bytes st +
     (case procfs_get_thread_ids_for_task k p g st of
        ((kr, None), _) \<Rightarrow> 0
      | ((kr, Some l), _) \<Rightarrow>
          8 * (int (count_uthreads k (p_uthlist (the p)) 0) - int (length l)))"
  by (auto simp: procfs_get_task_thread_count_def procfs_get_thread_ids_for_task_def Let_def
      OSMalloc_def OSFree_def procfs_release_thread_ids_def ids_count_def
      split: option.splits if_splits prod.splits bool.splits)

text \<open>
  For a process whose uthreads and threads are all mapped, at most 100000
  of them, the thread list is the thread id of each uthread in list order.
\<close>

lemma procfs_thread_ids_complete:
  assumes "g = Some sz" "p_uthlist p \<noteq> []" "length (p_uthlist p) \<le> PROCFS_MAX_THREADS"
    and "\<forall>u \<in> set (p_uthlist p). procfs_kptr_ok k u \<and> procfs_kptr_ok k (to_uint64 (u - sz))"
    and "malloc_ok k (int (length (p_uthlist p)) * 8)"
  shows "fst (procfs_get_thread_ids_for_task k (Some p) g st) =
    (KERN_SUCCESS, Some (map (\<lambda>u. tid_of k (to_uint64 (u - sz))) (p_uthlist p)))"
  using assms count_uthreads_all [of "p_uthlist p" k 0]
    collect_tids_all [of "p_uthlist p" k sz "[]" "length (p_uthlist p)"]
  by (simp add: procfs_get_thread_ids_for_task_def procfs_thread_size_init_def OSMalloc_def)

definition thread_env :: kenv where
  "thread_env = kenv0\<lparr> phys_of := (\<lambda>va. if va = 0xfffffe0000000100 then 0 else 1), tid_of := (\<lambda>a. a mod 1000) \<rparr>"

definition thread_proc :: proc where
  "thread_proc = proc0\<lparr> p_uthlist := [0xfffffe0000001000, 0xfffffe0000002000] \<rparr>"

theorem procfs_thread_ids_complete_witness:
  "fst (procfs_get_thread_ids_for_task thread_env (Some thread_proc) (Some 256) kst0) =
     (KERN_SUCCESS, Some (map (\<lambda>u. tid_of thread_env (to_uint64 (u - 256))) (p_uthlist thread_proc)))"
  by (rule procfs_thread_ids_complete)
     (simp_all add: thread_env_def thread_proc_def kenv0_def procfs_kptr_ok_def PROCFS_KPTR_MIN_def
        PROCFS_MAX_THREADS_def to_uint64_def)

text \<open>
  When a uthread is mapped but the thread below it is not, the list is
  shorter than the block allocated for it, and the release, which computes the
  block size from the list length, gives back fewer bytes than were allocated.
\<close>

lemma procfs_thread_ids_short_free:
  "os_bytes (snd (snd (procfs_get_task_thread_count
      (thread_env\<lparr> phys_of := (\<lambda>va. if va = 0xfffffe0000000f00 then 0 else 1) \<rparr>)
      (Some thread_proc) (Some 256) kst0))) = 8"
  by (simp add: thread_count_bytes procfs_get_thread_ids_for_task_def procfs_thread_size_init_def
      thread_env_def thread_proc_def kenv0_def procfs_kptr_ok_def PROCFS_KPTR_MIN_def kst0_def
      PROCFS_MAX_THREADS_def to_uint64_def OSMalloc_def)

section \<open>Sequential reads\<close>

text \<open>
  A reader of a file with fixed content: what the read handlers promise to
  \<^verbatim>\<open>read(2)\<close>. \<open>read_loop\<close> is a program that reads the file in pieces, each call
  starting where the last one ended.
\<close>

fun read_loop :: "(uio \<Rightarrow> err \<times> uio) \<Rightarrow> int list \<Rightarrow> int \<Rightarrow> bytes \<times> err \<times> int" where
  "read_loop rd [] off = ([], None, off)"
| "read_loop rd (n # ns) off =
     (case rd \<lparr> uio_offset = off, uio_resid = n, uio_out = [] \<rparr> of
        (Some e, u) \<Rightarrow> ([], Some e, off)
      | (None, u) \<Rightarrow>
          (case read_loop rd ns (uio_offset u) of (b, e, f) \<Rightarrow> (uio_out u @ b, e, f)))"

locale seq_reader =
  fixes rd :: "'e \<Rightarrow> uio \<Rightarrow> err \<times> uio" and content :: "'e \<Rightarrow> bytes"
  assumes rd_delivers:
    "\<lbrakk> length (content x) < 2 ^ 31; 0 \<le> uio_offset u; uio_offset u \<le> int (length (content x));
       0 \<le> uio_resid u \<rbrakk> \<Longrightarrow>
     rd x u = (None, uio_put (take (nat (uio_resid u)) (drop (nat (uio_offset u)) (content x))) u)"
begin

lemma read_loop_from:
  assumes "length (content x) < 2 ^ 31" "\<forall>n \<in> set ns. 0 \<le> n" "off \<le> length (content x)"
  shows "read_loop (rd x) ns (int off) =
    (take (nat (sum_list ns)) (drop off (content x)), None,
     int (min (off + nat (sum_list ns)) (length (content x))))"
  using assms(2,3)
proof (induction ns arbitrary: off)
  case Nil
  then show ?case by simp
next
  case (Cons n ns)
  define b where "b = take (nat n) (drop off (content x))"
  have r: "rd x \<lparr> uio_offset = int off, uio_resid = n, uio_out = [] \<rparr> =
      (None, uio_put b \<lparr> uio_offset = int off, uio_resid = n, uio_out = [] \<rparr>)"
    using rd_delivers [OF assms(1), of "\<lparr> uio_offset = int off, uio_resid = n, uio_out = [] \<rparr>"]
      Cons.prems by (simp add: b_def)
  have s: "0 \<le> sum_list ns" using Cons.prems by (intro sum_list_nonneg) auto
  have l: "off + length b \<le> length (content x)" using Cons.prems by (simp add: b_def)
  have "read_loop (rd x) ns (int (off + length b)) =
      (take (nat (sum_list ns)) (drop (off + length b) (content x)), None,
       int (min (off + length b + nat (sum_list ns)) (length (content x))))"
    using Cons.IH [OF _ l] Cons.prems by simp
  moreover have "b @ take (nat (sum_list ns)) (drop (off + length b) (content x)) =
      take (nat (n + sum_list ns)) (drop off (content x))"
    using s Cons.prems by (simp add: b_def nat_add_distrib take_add add.commute) (simp add: min_def add.commute)
  moreover have "min (off + length b + nat (sum_list ns)) (length (content x)) =
      min (off + nat (n + sum_list ns)) (length (content x))"
    using s Cons.prems by (auto simp: b_def nat_add_distrib min_def)
  ultimately show ?case using r by simp
qed

lemma read_loop_all:
  assumes "length (content x) < 2 ^ 31" "\<forall>n \<in> set ns. 0 \<le> n" "int (length (content x)) \<le> sum_list ns"
  shows "read_loop (rd x) ns 0 = (content x, None, int (length (content x)))"
  using read_loop_from [OF assms(1,2), of 0] assms(3) by simp

lemma read_at_end: "length (content x) < 2 ^ 31 \<Longrightarrow> uio_offset u = int (length (content x)) \<Longrightarrow>
    0 \<le> uio_resid u \<Longrightarrow> rd x u = (None, u)"
  by (simp add: rd_delivers)

end

lemma copy_data_reader:
  assumes "uiomove_ok um"
  shows "seq_reader (\<lambda>data. procfs_copy_data um (Some data) (int (length data))) (\<lambda>data. data)"
proof
  fix x :: bytes and u :: uio
  assume a: "length x < 2 ^ 31" "0 \<le> uio_offset u" "uio_offset u \<le> int (length x)" "0 \<le> uio_resid u"
  have "in_buffer (x, uio_offset u) (int (length x) - uio_offset u)" using a by (simp add: in_buffer_def)
  then have "um (x, uio_offset u) (int (length x) - uio_offset u) u =
      uiomove_ref (x, uio_offset u) (int (length x) - uio_offset u) u"
    using uiomove_okD [OF assms] a by blast
  moreover have "take (nat (min (int (length x) - uio_offset u) (uio_resid u))) (drop (nat (uio_offset u)) x) =
      take (nat (uio_resid u)) (drop (nat (uio_offset u)) x)"
    using a by (simp add: min_def nat_diff_distrib)
  ultimately show "procfs_copy_data um (Some x) (int (length x)) u =
      (None, uio_put (take (nat (uio_resid u)) (drop (nat (uio_offset u)) x)) u)"
    using a by (simp add: procfs_copy_data_def uiomove_ref_def)
qed

interpretation copy_out: seq_reader
  "\<lambda>data. procfs_copy_data uiomove_ref (Some data) (int (length data))" "\<lambda>data. data"
  by (rule copy_data_reader) simp

text \<open>
  C2: reading a buffer through \<open>procfs_copy_data\<close> in pieces of any size delivers its
  bytes in order, each exactly once, without an error, and stops at the end.
\<close>

theorem copy_data_sequential:
  assumes "uiomove_ok um" "length data < 2 ^ 31" "\<forall>n \<in> set ns. 0 \<le> n"
  shows "read_loop (procfs_copy_data um (Some data) (int (length data))) ns 0 =
    (take (nat (sum_list ns)) data, None, int (min (nat (sum_list ns)) (length data)))"
  using seq_reader.read_loop_from [OF copy_data_reader [OF assms(1)] assms(2,3), of 0] by simp

theorem copy_data_sequential_witness:
  "read_loop (procfs_copy_data uiomove_ref (Some ''Darwin'') 6) [4, 4, 4] 0 = (''Darwin'', None, 6)"
  using copy_data_sequential [of uiomove_ref "''Darwin''" "[4, 4, 4]"] by simp

text \<open>
  C22: the remaining length is cut to 32 bits, so at an offset of \<open>2 ^ 32\<close> the end of
  file test passes and the copy is asked for from \<open>2 ^ 32\<close> bytes past the start of
  the buffer, outside of it.
\<close>

theorem copy_data_out_of_bounds:
  assumes "uio_offset u = 2 ^ 32" "0 < length data" "length data < 2 ^ 31"
  shows "procfs_copy_data um (Some data) (int (length data)) u = um (data, 2 ^ 32) (int (length data)) u \<and>
    \<not> in_buffer (data, 2 ^ 32) (int (length data))"
proof -
  have "to_int32 (int (length data) - 2 ^ 32) = to_int32 (int (length data))"
    by (rule to_int32_cong) simp
  then show ?thesis using assms by (simp add: procfs_copy_data_def in_buffer_def)
qed

theorem copy_data_out_of_bounds_witness:
  "procfs_copy_data uiomove_ref (Some ''0123'') 4 \<lparr> uio_offset = 2 ^ 32, uio_resid = 1, uio_out = [] \<rparr> =
     uiomove_ref (''0123'', 2 ^ 32) 4 \<lparr> uio_offset = 2 ^ 32, uio_resid = 1, uio_out = [] \<rparr>"
  using copy_data_out_of_bounds [of "\<lparr> uio_offset = 2 ^ 32, uio_resid = 1, uio_out = [] \<rparr>" "''0123''" uiomove_ref]
  by simp

end
