(* ===== verification/Kern.thy ===== *)
theory Kern
imports Subr
begin

text \<open>
  The routines of \<^verbatim>\<open>kext/lib/kern.c\<close> that the sources carry over from the kernel:
  the load average step, the chunked pid list, the process and task summaries,
  and the descriptor table (\<open>proc_fdlist\<close>, \<open>procfs_fd_vnode_info\<close>,
  \<open>procfs_fd_socket\<close>) with the descriptor list of \<^verbatim>\<open>kext/procfs_subr.c\<close> on top of
  it. Proved: the descriptor list is the ascending list of open descriptors with
  its block and the table mutex accounted for, a pid list large enough never
  runs out, and which flag word decides the traced bit.
\<close>

section \<open>Load average\<close>

definition FSHIFT :: nat where "FSHIFT = 11"
definition FSCALE :: int where "FSCALE = 2048"

text \<open>\<^verbatim>\<open>(fixpt_t)\<close> of the three decay factors times \<open>FSCALE\<close>.\<close>

definition cexp :: "int list" where "cexp = [1884, 2014, 2036]"

definition averunnable_step :: "int \<Rightarrow> int \<Rightarrow> int \<Rightarrow> int" where
  "averunnable_step nrun c avg =
     to_uint32 (to_uint32 (c * avg) + to_uint32 (to_uint32 (nrun * FSCALE) * to_uint32 (FSCALE - c))) div 2 ^ FSHIFT"

definition compute_averunnable :: "int \<Rightarrow> int list \<Rightarrow> int list" where
  "compute_averunnable nrun ldavg = map2 (averunnable_step nrun) cexp ldavg"

section \<open>Pid lists\<close>

text \<open>
  The chunks in list order with their used entries, the index of the active
  chunk and the capacity, an unsigned 32-bit integer.
\<close>

definition PIDS_PER_ENTRY :: nat where "PIDS_PER_ENTRY = 1021"

record pidlist =
  pl_head :: "int list list"
  pl_active :: "nat option"
  pl_nalloc :: int

definition pidlist_init :: pidlist where
  "pidlist_init = \<lparr> pl_head = [], pl_active = None, pl_nalloc = 0 \<rparr>"

definition pidlist_grow :: "pidlist \<Rightarrow> pidlist" where
  "pidlist_grow pl = pl\<lparr> pl_head := [] # pl_head pl, pl_active := map_option Suc (pl_active pl),
     pl_nalloc := to_uint32 (pl_nalloc pl + int PIDS_PER_ENTRY) \<rparr>"

partial_function (option) pidlist_alloc :: "pidlist \<Rightarrow> int \<Rightarrow> pidlist option" where
  "pidlist_alloc pl needed =
     (if pl_nalloc pl < needed then pidlist_alloc (pidlist_grow pl) needed else Some pl)"

declare pidlist_alloc.simps [code]

text \<open>The chunk the active pointer refers to stays recorded; it is freed memory.\<close>

definition pidlist_free :: "pidlist \<Rightarrow> pidlist" where
  "pidlist_free pl = pl\<lparr> pl_head := [], pl_nalloc := 0 \<rparr>"

definition pidlist_set_active :: "pidlist \<Rightarrow> pidlist option" where
  "pidlist_set_active pl =
     (case pl_head pl of [] \<Rightarrow> None | _ \<Rightarrow> Some (pl\<lparr> pl_active := Some 0 \<rparr>))"

text \<open>\<open>None\<close> is the panic when the chunks are exhausted, or a missing active chunk.\<close>

definition pidlist_add_pid :: "int \<Rightarrow> pidlist \<Rightarrow> pidlist option" where
  "pidlist_add_pid pid pl =
     (case pl_active pl of
        None \<Rightarrow> None
      | Some i \<Rightarrow>
          if i < length (pl_head pl) then
            let j = (if length (pl_head pl ! i) \<ge> PIDS_PER_ENTRY then i + 1 else i)
            in if j < length (pl_head pl)
               then Some (pl\<lparr> pl_active := Some j, pl_head := (pl_head pl)[j := pl_head pl ! j @ [pid]] \<rparr>)
               else None
          else None)"

fun pidlist_add_all :: "int list \<Rightarrow> pidlist \<Rightarrow> pidlist option" where
  "pidlist_add_all [] pl = Some pl"
| "pidlist_add_all (p # ps) pl =
     (case pidlist_add_pid p pl of None \<Rightarrow> None | Some pl \<Rightarrow> pidlist_add_all ps pl)"

definition pidlist_nalloc :: "pidlist \<Rightarrow> int" where "pidlist_nalloc pl = pl_nalloc pl"

section \<open>Process and task summaries\<close>

text \<open>
  Functions of the kernel that are called only if their symbol was found at load
  time: \<open>None\<close> is a symbol that was not.
\<close>

record proc_taskinfo =
  pti_virtual_size :: int
  pti_resident_size :: int
  pti_total_user :: int
  pti_total_system :: int
  pti_threads_user :: int
  pti_threads_system :: int
  pti_policy :: int
  pti_faults :: int
  pti_pageins :: int
  pti_cow_faults :: int
  pti_messages_sent :: int
  pti_messages_received :: int
  pti_syscalls_mach :: int
  pti_syscalls_unix :: int
  pti_csw :: int
  pti_threadnum :: int
  pti_numrunning :: int
  pti_priority :: int

definition taskinfo0 :: proc_taskinfo where
  "taskinfo0 = \<lparr> pti_virtual_size = 0, pti_resident_size = 0, pti_total_user = 0, pti_total_system = 0,
     pti_threads_user = 0, pti_threads_system = 0, pti_policy = 0, pti_faults = 0, pti_pageins = 0,
     pti_cow_faults = 0, pti_messages_sent = 0, pti_messages_received = 0, pti_syscalls_mach = 0,
     pti_syscalls_unix = 0, pti_csw = 0, pti_threadnum = 0, pti_numrunning = 0, pti_priority = 0 \<rparr>"

record stat64 =
  st_dev :: int
  st_mode :: int
  st_nlink :: int
  st_ino :: int
  st_uid :: int
  st_gid :: int
  st_atimespec_sec :: int
  st_atimespec_nsec :: int
  st_mtimespec_sec :: int
  st_mtimespec_nsec :: int
  st_ctimespec_sec :: int
  st_ctimespec_nsec :: int
  st_birthtimespec_sec :: int
  st_birthtimespec_nsec :: int
  st_size :: int
  st_blocks :: int
  st_blksize :: int
  st_flags :: int
  st_gen :: int
  st_rdev :: int
  st_qspare0 :: int
  st_qspare1 :: int

definition stat64_0 :: stat64 where
  "stat64_0 = \<lparr> st_dev = 0, st_mode = 0, st_nlink = 0, st_ino = 0,
     st_uid = 0, st_gid = 0, st_atimespec_sec = 0, st_atimespec_nsec = 0,
     st_mtimespec_sec = 0, st_mtimespec_nsec = 0, st_ctimespec_sec = 0, st_ctimespec_nsec = 0,
     st_birthtimespec_sec = 0, st_birthtimespec_nsec = 0, st_size = 0, st_blocks = 0,
     st_blksize = 0, st_flags = 0, st_gen = 0, st_rdev = 0,
     st_qspare0 = 0, st_qspare1 = 0 \<rparr>"

record vinfo_stat =
  vst_dev :: int
  vst_mode :: int
  vst_nlink :: int
  vst_ino :: int
  vst_uid :: int
  vst_gid :: int
  vst_atime :: int
  vst_atimensec :: int
  vst_mtime :: int
  vst_mtimensec :: int
  vst_ctime :: int
  vst_ctimensec :: int
  vst_birthtime :: int
  vst_birthtimensec :: int
  vst_size :: int
  vst_blocks :: int
  vst_blksize :: int
  vst_flags :: int
  vst_gen :: int
  vst_rdev :: int
  vst_qspare0 :: int
  vst_qspare1 :: int

record ksyms =
  sym_proc_issetugid :: "(proc \<Rightarrow> bool) option"
  sym_proc_get_darwinbgstate :: "(int \<Rightarrow> int \<Rightarrow> int) option"
  sym_fill_taskprocinfo :: "(int \<Rightarrow> proc_taskinfo) option"
  sym_fill_taskthreadinfo :: "(int \<Rightarrow> int \<Rightarrow> bool \<Rightarrow> bytes) option"
  sym_proc_gettty :: "(proc \<Rightarrow> (err \<times> vnode option)) option"
  sym_vn_stat :: "(vnode \<Rightarrow> err \<times> stat64) option"
  sym_dead_mountp :: "nat option"

definition ksyms0 :: ksyms where
  "ksyms0 = \<lparr> sym_proc_issetugid = None, sym_proc_get_darwinbgstate = None, sym_fill_taskprocinfo = None,
     sym_fill_taskthreadinfo = None, sym_proc_gettty = None, sym_vn_stat = None,
     sym_dead_mountp = None \<rparr>"

definition P_LHASTASK :: int where "P_LHASTASK = 0x2"
definition P_LTRACED :: int where "P_LTRACED = 0x400"
definition P_LPPWAIT :: int where "P_LPPWAIT = 0x2000"
definition P_CONTROLT :: int where "P_CONTROLT = 0x2"
definition P_SYSTEM :: int where "P_SYSTEM = 0x200"
definition P_TIMEOUT :: int where "P_TIMEOUT = 0x400"
definition P_EXEC :: int where "P_EXEC = 0x4000"
definition P_DELAYIDLESLEEP :: int where "P_DELAYIDLESLEEP = 0x40000"
definition P_THCWD :: int where "P_THCWD = 0x1000000"
definition P_PCMAX :: int where "P_PCMAX = 3"
definition SZOMB :: int where "SZOMB = 5"

definition PROC_FLAG_SYSTEM :: int where "PROC_FLAG_SYSTEM = 1"
definition PROC_FLAG_TRACED :: int where "PROC_FLAG_TRACED = 2"
definition PROC_FLAG_INEXIT :: int where "PROC_FLAG_INEXIT = 4"
definition PROC_FLAG_PPWAIT :: int where "PROC_FLAG_PPWAIT = 8"
definition PROC_FLAG_LP64 :: int where "PROC_FLAG_LP64 = 0x10"
definition PROC_FLAG_CONTROLT :: int where "PROC_FLAG_CONTROLT = 0x80"
definition PROC_FLAG_THCWD :: int where "PROC_FLAG_THCWD = 0x100"
definition PROC_FLAG_PC_THROTTLE :: int where "PROC_FLAG_PC_THROTTLE = 0x200"
definition PROC_FLAG_PC_SUSP :: int where "PROC_FLAG_PC_SUSP = 0x400"
definition PROC_FLAG_PC_KILL :: int where "PROC_FLAG_PC_KILL = 0x600"
definition PROC_FLAG_PA_THROTTLE :: int where "PROC_FLAG_PA_THROTTLE = 0x800"
definition PROC_FLAG_PA_SUSP :: int where "PROC_FLAG_PA_SUSP = 0x1000"
definition PROC_FLAG_PSUGID :: int where "PROC_FLAG_PSUGID = 0x2000"
definition PROC_FLAG_EXEC :: int where "PROC_FLAG_EXEC = 0x4000"
definition PROC_FLAG_DELAYIDLESLEEP :: int where "PROC_FLAG_DELAYIDLESLEEP = 0x40000"

lemmas proc_flag_defs =
  P_LHASTASK_def P_LTRACED_def P_LPPWAIT_def P_CONTROLT_def P_SYSTEM_def P_TIMEOUT_def P_EXEC_def
  P_DELAYIDLESLEEP_def P_THCWD_def P_PCMAX_def SZOMB_def
  PROC_FLAG_SYSTEM_def PROC_FLAG_TRACED_def PROC_FLAG_INEXIT_def PROC_FLAG_PPWAIT_def
  PROC_FLAG_LP64_def PROC_FLAG_CONTROLT_def PROC_FLAG_THCWD_def PROC_FLAG_PC_THROTTLE_def
  PROC_FLAG_PC_SUSP_def PROC_FLAG_PC_KILL_def PROC_FLAG_PA_THROTTLE_def PROC_FLAG_PA_SUSP_def
  PROC_FLAG_PSUGID_def PROC_FLAG_EXEC_def PROC_FLAG_DELAYIDLESLEEP_def

definition MAXCOMLEN :: nat where "MAXCOMLEN = 16"

text \<open>A task is its address, 0 is \<^verbatim>\<open>TASK_NULL\<close>.\<close>

definition proc_task :: "proc \<Rightarrow> int" where
  "proc_task p = (if p_lflag p AND P_LHASTASK \<noteq> 0 then p_task p else 0)"

record proc_bsdshortinfo =
  pbsi_pid :: int
  pbsi_ppid :: int
  pbsi_pgid :: int
  pbsi_status :: int
  pbsi_comm :: string
  pbsi_flags :: int
  pbsi_uid :: int
  pbsi_gid :: int
  pbsi_ruid :: int
  pbsi_rgid :: int
  pbsi_svuid :: int
  pbsi_svgid :: int

text \<open>\<open>if (cond) flags |= f\<close>.\<close>

definition set_flag :: "bool \<Rightarrow> int \<Rightarrow> int \<Rightarrow> int" where
  "set_flag c f flags = (if c then flags OR f else flags)"

definition bsd_flag_tests :: "ksyms \<Rightarrow> proc \<Rightarrow> (bool \<times> int) list" where
  "bsd_flag_tests ks p =
    [(p_flag p AND P_SYSTEM = P_SYSTEM, PROC_FLAG_SYSTEM),
     (p_flag p AND P_LTRACED = P_LTRACED, PROC_FLAG_TRACED),
     (p_exiting p, PROC_FLAG_INEXIT),
     (p_flag p AND P_LPPWAIT = P_LPPWAIT, PROC_FLAG_PPWAIT),
     (p_is64bit p, PROC_FLAG_LP64),
     (p_flag p AND P_CONTROLT = P_CONTROLT, PROC_FLAG_CONTROLT),
     (p_flag p AND P_THCWD = P_THCWD, PROC_FLAG_THCWD),
     ((case sym_proc_issetugid ks of None \<Rightarrow> False | Some f \<Rightarrow> f p), PROC_FLAG_PSUGID),
     (p_flag p AND P_EXEC = P_EXEC, PROC_FLAG_EXEC),
     (p_flag p AND P_DELAYIDLESLEEP = P_DELAYIDLESLEEP, PROC_FLAG_DELAYIDLESLEEP)]"

definition pc_control_flag :: "proc \<Rightarrow> int \<Rightarrow> int" where
  "pc_control_flag p flags =
     (let c = p_pcaction p AND P_PCMAX
      in if c = 1 then flags OR PROC_FLAG_PC_THROTTLE
         else if c = 2 then flags OR PROC_FLAG_PC_SUSP
         else if c = 3 then flags OR PROC_FLAG_PC_KILL else flags)"

definition pc_action_flag :: "proc \<Rightarrow> int \<Rightarrow> int" where
  "pc_action_flag p flags =
     (let a = drop_bit 16 (p_pcaction p) AND P_PCMAX
      in if a = 1 then flags OR PROC_FLAG_PA_THROTTLE
         else if a = 2 then flags OR PROC_FLAG_PA_SUSP else flags)"

definition bsd_flags :: "ksyms \<Rightarrow> proc \<Rightarrow> bool \<Rightarrow> int" where
  "bsd_flags ks p zombie =
     (let flags = fold (\<lambda>(c, f). set_flag c f) (bsd_flag_tests ks p) 0;
          flags = pc_control_flag p flags;
          flags = pc_action_flag p flags
      in case sym_proc_get_darwinbgstate ks of
           None \<Rightarrow> flags
         | Some bg \<Rightarrow> if \<not> zombie \<and> to_uint32 (p_stat p) \<noteq> SZOMB \<and> proc_task p \<noteq> 0
                      then bg (proc_task p) flags else flags)"

definition proc_pidshortbsdinfo :: "ksyms \<Rightarrow> proc \<Rightarrow> bool \<Rightarrow> kst \<Rightarrow> proc_bsdshortinfo \<times> kst" where
  "proc_pidshortbsdinfo ks p zombie st =
     (let st = cred_ref st; my_cred = p_cred p;
          info = \<lparr> pbsi_pid = to_uint32 (p_pid p), pbsi_ppid = to_uint32 (p_ppid p),
                   pbsi_pgid = to_uint32 (p_pgrpid p), pbsi_status = to_uint32 (p_stat p),
                   pbsi_comm = strlcpy MAXCOMLEN (p_comm p), pbsi_flags = bsd_flags ks p zombie,
                   pbsi_uid = cr_uid my_cred, pbsi_gid = cr_gid my_cred,
                   pbsi_ruid = cr_ruid my_cred, pbsi_rgid = cr_rgid my_cred,
                   pbsi_svuid = cr_svuid my_cred, pbsi_svgid = cr_svgid my_cred \<rparr>
      in (info, cred_unref st))"

definition proc_pidtaskinfo :: "ksyms \<Rightarrow> proc \<Rightarrow> proc_taskinfo" where
  "proc_pidtaskinfo ks p =
     (case sym_fill_taskprocinfo ks of None \<Rightarrow> taskinfo0 | Some fill \<Rightarrow> fill (proc_task p))"

definition proc_pidthreadinfo :: "ksyms \<Rightarrow> proc \<Rightarrow> int \<Rightarrow> bool \<Rightarrow> bytes" where
  "proc_pidthreadinfo ks p arg thuniqueid =
     (case sym_fill_taskthreadinfo ks of
        None \<Rightarrow> replicate sizeof_proc_threadinfo (CHR 0x00)
      | Some fill \<Rightarrow> fill (proc_task p) arg thuniqueid)"

section \<open>Vnodes\<close>

text \<open>
  The information about a vnode, \<open>vinfo\<close> before the call and after it: without
  \<^verbatim>\<open>vn_stat\<close> the attributes stay as they were.
\<close>

definition munge_vinfo_stat :: "stat64 \<Rightarrow> vinfo_stat" where
  "munge_vinfo_stat sbp =
     \<lparr> vst_dev = st_dev sbp, vst_mode = st_mode sbp, vst_nlink = st_nlink sbp,
       vst_ino = st_ino sbp, vst_uid = st_uid sbp, vst_gid = st_gid sbp,
       vst_atime = st_atimespec_sec sbp, vst_atimensec = st_atimespec_nsec sbp, vst_mtime = st_mtimespec_sec sbp,
       vst_mtimensec = st_mtimespec_nsec sbp, vst_ctime = st_ctimespec_sec sbp, vst_ctimensec = st_ctimespec_nsec sbp,
       vst_birthtime = st_birthtimespec_sec sbp, vst_birthtimensec = st_birthtimespec_nsec sbp, vst_size = st_size sbp,
       vst_blocks = st_blocks sbp, vst_blksize = st_blksize sbp, vst_flags = st_flags sbp,
       vst_gen = st_gen sbp, vst_rdev = st_rdev sbp, vst_qspare0 = st_qspare0 sbp,
       vst_qspare1 = st_qspare1 sbp \<rparr>"

record vnode_info =
  vi_stat :: vinfo_stat
  vi_type :: int
  vi_fsid :: "int \<times> int"

definition fill_vnodeinfo :: "kenv \<Rightarrow> ksyms \<Rightarrow> vnode \<Rightarrow> vnode_info \<Rightarrow> kst \<Rightarrow> (err \<times> vnode_info) \<times> kst" where
  "fill_vnodeinfo k ks vp vinfo st =
     (let st = vfs_context_create st;
          (error, vinfo) =
            (case sym_vn_stat ks of
               None \<Rightarrow> (None, vinfo)
             | Some vn_stat \<Rightarrow> (case vn_stat vp of (e, sb) \<Rightarrow> (e, vinfo\<lparr> vi_stat := munge_vinfo_stat sb \<rparr>)));
          st = vfs_context_rele st
      in if error \<noteq> None then ((error, vinfo), st)
         else ((None, vinfo\<lparr> vi_fsid := (if sym_dead_mountp ks \<noteq> None \<and> Some (vnode_mount_k k vp) \<noteq> sym_dead_mountp ks
                                           then mount_fsid_k k (vnode_mount_k k vp) else (0, 0)),
                             vi_type := vnode_vtype_k k vp \<rparr>), st))"

section \<open>Descriptors\<close>

definition DTYPE_VNODE :: int where "DTYPE_VNODE = 1"
definition DTYPE_SOCKET :: int where "DTYPE_SOCKET = 2"
definition DTYPE_ATALK :: int where "DTYPE_ATALK = 8"
definition PROX_FDTYPE_ATALK :: int where "PROX_FDTYPE_ATALK = 0"
definition UF_RESERVED :: int where "UF_RESERVED = 4"
definition FP_CLOEXEC :: int where "FP_CLOEXEC = 1"
definition FP_CLOFORK :: int where "FP_CLOFORK = 2"
definition GUARD_CLOSE :: int where "GUARD_CLOSE = 1"
definition GUARD_DUP :: int where "GUARD_DUP = 2"
definition GUARD_SOCKET_IPC :: int where "GUARD_SOCKET_IPC = 4"
definition GUARD_FILEPORT :: int where "GUARD_FILEPORT = 8"

record proc_fileinfo =
  fi_openflags :: int
  fi_status :: int
  fi_offset :: int
  fi_type :: int
  fi_guardflags :: int

definition fileinfo0 :: proc_fileinfo where
  "fileinfo0 = \<lparr> fi_openflags = 0, fi_status = 0, fi_offset = 0, fi_type = 0, fi_guardflags = 0 \<rparr>"

text \<open>\<open>has_proc\<close> is \<^verbatim>\<open>p != PROC_NULL\<close>. A \<open>fileproc\<close> passed here has a \<^verbatim>\<open>fp_glob\<close>.\<close>

definition fill_fileinfo :: "(fileproc \<times> fileglob) option \<Rightarrow> bool \<Rightarrow> proc_fileinfo" where
  "fill_fileinfo fpg has_proc =
     (case fpg of
        None \<Rightarrow> fileinfo0
      | Some (fp, g) \<Rightarrow>
          (let status = set_flag (fg_count g > 1) 1 0;
               status = set_flag (has_proc \<and> fp_flags fp AND FP_CLOEXEC \<noteq> 0) 2 status;
               status = set_flag (has_proc \<and> fp_flags fp AND FP_CLOFORK \<noteq> 0) 8 status;
               status = set_flag (fp_guard_attrs fp \<noteq> 0) 4 status;
               guardflags = set_flag (fp_guard_attrs fp AND GUARD_CLOSE \<noteq> 0) 1 0;
               guardflags = set_flag (fp_guard_attrs fp AND GUARD_DUP \<noteq> 0) 2 guardflags;
               guardflags = set_flag (fp_guard_attrs fp AND GUARD_SOCKET_IPC \<noteq> 0) 4 guardflags;
               guardflags = set_flag (fp_guard_attrs fp AND GUARD_FILEPORT \<noteq> 0) 8 guardflags
           in \<lparr> fi_openflags = fg_flag g, fi_status = status, fi_offset = fg_offset g,
                fi_type = fg_type g,
                fi_guardflags = (if fp_guard_attrs fp \<noteq> 0 then guardflags else 0) \<rparr>))"

definition PROCFS_FD_NFILES_MAX :: int where "PROCFS_FD_NFILES_MAX = 1048576"

definition procfs_fd_layout_ok :: "filedesc \<Rightarrow> bool" where
  "procfs_fd_layout_ok fdp \<longleftrightarrow>
     fd_nfiles fdp > 0 \<and> fd_nfiles fdp \<le> PROCFS_FD_NFILES_MAX \<and>
     fd_afterlast fdp \<ge> 0 \<and> fd_afterlast fdp \<le> fd_nfiles fdp"

text \<open>
  The tests a slot of the table has to pass: a file, an open file description and
  no pending open.
\<close>

definition fd_slot :: "filedesc \<Rightarrow> int \<Rightarrow> (fileproc \<times> fileglob) option" where
  "fd_slot fdp fd =
     (case nth_opt (fd_ofiles fdp) fd of
        Some (Some fp) \<Rightarrow>
          (case fp_glob fp of
             None \<Rightarrow> None
           | Some g \<Rightarrow>
               (case nth_opt (fd_ofileflags fdp) fd of
                  None \<Rightarrow> None
                | Some fl \<Rightarrow> if fl AND UF_RESERVED \<noteq> 0 then None else Some (fp, g)))
      | _ \<Rightarrow> None)"

definition fd_info :: "filedesc \<Rightarrow> int \<Rightarrow> (int \<times> int) option" where
  "fd_info fdp fd =
     map_option (\<lambda>(fp, g). (fd, if fg_type g \<noteq> DTYPE_ATALK then fg_type g else PROX_FDTYPE_ATALK))
       (fd_slot fdp fd)"

function fdlist_loop :: "filedesc \<Rightarrow> nat \<Rightarrow> int \<Rightarrow> (int \<times> int) list \<Rightarrow> (int \<times> int) list" where
  "fdlist_loop fdp numfds fd buf =
     (if fd < fd_afterlast fdp \<and> length buf < numfds then
        fdlist_loop fdp numfds (fd + 1)
          (case fd_info fdp fd of None \<Rightarrow> buf | Some i \<Rightarrow> buf @ [i])
      else buf)"
  by pat_completeness auto
termination
  by (relation "measure (\<lambda>(fdp, n, fd, buf). nat (fd_afterlast fdp - fd))") auto

declare fdlist_loop.simps [simp del]

text \<open>The call with a NULL buffer and the call that fills one of \<open>numfds\<close> entries.\<close>

definition proc_fdlist_size :: "proc option \<Rightarrow> kst \<Rightarrow> (err \<times> int) \<times> kst" where
  "proc_fdlist_size p st =
     (case p of
        None \<Rightarrow> ((Some EINVAL, 0), st)
      | Some p \<Rightarrow>
          if \<not> procfs_fd_layout_ok (p_fd p) then ((Some EINVAL, 0), st)
          else ((None, fd_afterlast (p_fd p)), proc_fdunlock (proc_fdlock st)))"

definition proc_fdlist :: "proc option \<Rightarrow> nat \<Rightarrow> kst \<Rightarrow> (err \<times> (int \<times> int) list) \<times> kst" where
  "proc_fdlist p numfds st =
     (case p of
        None \<Rightarrow> ((Some EINVAL, []), st)
      | Some p \<Rightarrow>
          if \<not> procfs_fd_layout_ok (p_fd p) then ((Some EINVAL, []), st)
          else (let st = proc_fdlock st; buf = fdlist_loop (p_fd p) numfds 0 []
                in ((None, buf), proc_fdunlock st)))"

text \<open>
  The result is an error code with the list, \<open>None\<close> the NULL list with count 0. The
  block of the list is charged until \<open>procfs_release_fd_list\<close>.
\<close>

definition procfs_get_fd_list ::
  "kenv \<Rightarrow> proc option \<Rightarrow> kst \<Rightarrow> (err \<times> (int \<times> int) list option) \<times> kst" where
  "procfs_get_fd_list k p st =
     (if p = None then ((Some EINVAL, None), st)
      else case proc_fdlist_size p st of
             ((error, capacity), st) \<Rightarrow>
               if error \<noteq> None \<or> capacity = 0 then ((error, None), st)
               else case malloc_k k (capacity * 8) st of
                      (False, st) \<Rightarrow> ((Some ENOMEM, None), st)
                    | (True, st) \<Rightarrow>
                        (case proc_fdlist p (nat capacity) st of
                           ((Some e, _), st) \<Rightarrow> ((Some e, None), free_k st)
                         | ((None, buf), st) \<Rightarrow> ((None, Some buf), st)))"

definition procfs_release_fd_list :: "(int \<times> int) list option \<Rightarrow> kst \<Rightarrow> kst" where
  "procfs_release_fd_list fdlist st = (if fdlist \<noteq> None then free_k st else st)"

definition fd_list_of :: "(int \<times> int) list option \<Rightarrow> (int \<times> int) list" where
  "fd_list_of l = (case l of None \<Rightarrow> [] | Some l \<Rightarrow> l)"

text \<open>The vnode or socket of a descriptor; \<open>None\<close> is \<open>EBADF\<close>.\<close>

definition fd_object :: "proc \<Rightarrow> int \<Rightarrow> int \<Rightarrow> (nat \<times> proc_fileinfo) option" where
  "fd_object p fd dtype =
     (if fd < 0 \<or> fd \<ge> fd_nfiles (p_fd p) then None
      else case fd_slot (p_fd p) fd of
             None \<Rightarrow> None
           | Some (fp, g) \<Rightarrow>
               if fg_type g \<noteq> dtype then None
               else map_option (\<lambda>d. (d, fill_fileinfo (Some (fp, g)) True)) (fg_data g))"

definition procfs_fd_vnode_info ::
  "kenv \<Rightarrow> proc \<Rightarrow> int \<Rightarrow> kst \<Rightarrow> (vnode \<times> int \<times> proc_fileinfo) result \<times> kst" where
  "procfs_fd_vnode_info k p fd st =
     (if \<not> procfs_fd_layout_ok (p_fd p) then (Inl EBADF, st)
      else (let st = proc_fdlock st
            in case fd_object p fd DTYPE_VNODE of
                 None \<Rightarrow> (Inl EBADF, proc_fdunlock st)
               | Some (vp, fi) \<Rightarrow> (Inr (vp, vnode_vid k vp, fi), proc_fdunlock st)))"

definition procfs_fd_socket :: "proc \<Rightarrow> int \<Rightarrow> kst \<Rightarrow> (socket \<times> proc_fileinfo) result \<times> kst" where
  "procfs_fd_socket p fd st =
     (if \<not> procfs_fd_layout_ok (p_fd p) then (Inl EBADF, st)
      else (let st = proc_fdlock st
            in case fd_object p fd DTYPE_SOCKET of
                 None \<Rightarrow> (Inl EBADF, proc_fdunlock st)
               | Some (so, fi) \<Rightarrow>
                   (let st = sock_retain so st in (Inr (so, fi), proc_fdunlock st))))"

section \<open>Descriptor lists\<close>

text \<open>The open descriptors of a process with their types, in ascending order.\<close>

definition open_fds :: "proc \<Rightarrow> (int \<times> int) list" where
  "open_fds p = List.map_filter (fd_info (p_fd p)) [0..fd_afterlast (p_fd p) - 1]"

lemma fdlist_loop_spec:
  "fdlist_loop fdp n fd buf =
     buf @ take (n - length buf) (List.map_filter (fd_info fdp) [fd..fd_afterlast fdp - 1])"
proof (induction fdp n fd buf rule: fdlist_loop.induct)
  case (1 fdp n fd buf)
  show ?case
  proof (cases "fd < fd_afterlast fdp \<and> length buf < n")
    case False
    then show ?thesis by (subst fdlist_loop.simps) (auto simp: List.map_filter_def)
  next
    case True
    have u: "[fd..fd_afterlast fdp - 1] = fd # [fd + 1..fd_afterlast fdp - 1]"
      using True by (simp add: upto_rec1)
    have n: "n - length buf = Suc (n - Suc (length buf))" using True by linarith
    show ?thesis
      using 1 [OF True] True u n
      by (subst fdlist_loop.simps) (cases "fd_info fdp fd"; simp add: map_filter_Cons)
  qed
qed

lemma fdlist_all: "fdlist_loop (p_fd p) (nat (fd_afterlast (p_fd p))) 0 [] = open_fds p"
  using length_map_filter [of "fd_info (p_fd p)" "[0..fd_afterlast (p_fd p) - 1]"]
  by (simp add: fdlist_loop_spec open_fds_def)

lemma get_fd_list_eq:
  "procfs_get_fd_list k (Some p) st =
     (if \<not> procfs_fd_layout_ok (p_fd p) then ((Some EINVAL, None), st)
      else if fd_afterlast (p_fd p) = 0 then ((None, None), st)
      else if malloc_ok k (fd_afterlast (p_fd p) * 8)
           then ((None, Some (open_fds p)), st\<lparr> mallocs := mallocs st + 1 \<rparr>)
      else ((Some ENOMEM, None), st))"
  by (simp add: procfs_get_fd_list_def proc_fdlist_size_def proc_fdlist_def malloc_k_def fdlist_all Let_def)

lemma get_fd_list_balance [simp]:
  "procfs_release_fd_list (snd (fst (procfs_get_fd_list k (Some p) st))) (snd (procfs_get_fd_list k (Some p) st)) = st"
  by (simp add: get_fd_list_eq procfs_release_fd_list_def free_k_def)

lemma open_fds_empty: "fd_afterlast (p_fd p) = 0 \<Longrightarrow> open_fds p = []"
  by (simp add: open_fds_def List.map_filter_def)

lemma fd_info_fst: "fd_info fdp fd = Some i \<Longrightarrow> fst i = fd"
  by (auto simp: fd_info_def)

lemma open_fds_fd: "(fd, ty) \<in> set (open_fds p) \<longleftrightarrow>
    0 \<le> fd \<and> fd < fd_afterlast (p_fd p) \<and> fd_info (p_fd p) fd = Some (fd, ty)"
  using fd_info_fst [of "p_fd p"] by (auto simp: open_fds_def set_map_filter) fastforce+

lemma open_fds_iff: "(\<exists>ty. (fd, ty) \<in> set (open_fds p)) =
    (0 \<le> fd \<and> fd < fd_afterlast (p_fd p) \<and> fd_slot (p_fd p) fd \<noteq> None)"
  by (cases "fd_slot (p_fd p) fd") (auto simp: open_fds_fd fd_info_def)

lemma sorted_fst_map_filter:
  "sorted_wrt (<) xs \<Longrightarrow> (\<And>x y. f x = Some y \<Longrightarrow> fst y = x) \<Longrightarrow>
    sorted_wrt (<) (map fst (List.map_filter f xs))"
proof (induction xs)
  case (Cons x xs)
  have "sorted_wrt (<) (map fst (List.map_filter f xs))" using Cons by simp
  moreover have "\<forall>y \<in> set (List.map_filter f xs). x < fst y"
    using Cons.prems(1) Cons.prems(2) [symmetric] by (fastforce simp: set_map_filter)
  ultimately show ?case using Cons.prems(2) [of x]
    by (simp add: map_filter_Cons split: option.split)
qed (simp add: List.map_filter_def)

lemma sorted_upto: "sorted_wrt (<) [i..j :: int]"
  by (induction i j rule: upto.induct) (subst upto.simps, auto)

lemma open_fds_sorted: "sorted_wrt (<) (map fst (open_fds p))"
  unfolding open_fds_def
  by (rule sorted_fst_map_filter) (auto simp: sorted_upto dest: fd_info_fst)

text \<open>
  \<open>procfs_get_fd_list\<close> of a process whose descriptor table has a plausible
  layout returns its open descriptors in ascending order, holding one block
  unless the table is empty and leaving the table mutex free; an implausible
  layout is an error, and nothing is held then.
\<close>

lemma procfs_fd_list_open:
  "procfs_get_fd_list k (Some p) st =
     (if \<not> procfs_fd_layout_ok (p_fd p) then ((Some EINVAL, None), st)
      else if fd_afterlast (p_fd p) = 0 then ((None, None), st)
      else if malloc_ok k (fd_afterlast (p_fd p) * 8)
           then ((None, Some (open_fds p)), st\<lparr> mallocs := mallocs st + 1 \<rparr>)
      else ((Some ENOMEM, None), st)) \<and>
   sorted_wrt (<) (map fst (open_fds p)) \<and>
   (\<forall>fd. (\<exists>ty. (fd, ty) \<in> set (open_fds p)) =
      (0 \<le> fd \<and> fd < fd_afterlast (p_fd p) \<and> fd_slot (p_fd p) fd \<noteq> None))"
  using get_fd_list_eq [of k p st] open_fds_sorted [of p] open_fds_iff [of _ p] by simp

lemma fd_vnode_info_state [simp]: "snd (procfs_fd_vnode_info k p fd st) = st"
  by (simp add: procfs_fd_vnode_info_def Let_def split: option.split)

lemma fd_socket_state:
  "snd (procfs_fd_socket p fd st) =
     (case fst (procfs_fd_socket p fd st) of Inl e \<Rightarrow> st | Inr (so, fi) \<Rightarrow> sock_retain so st)"
  by (simp add: procfs_fd_socket_def Let_def sock_retain_def proc_fdlock_def proc_fdunlock_def split: option.split)

section \<open>Flags and averages\<close>

lemma set_flag_bit: "(set_flag c f x) AND m = (if c then (x AND m) OR (f AND m) else x AND m)"
  by (simp add: set_flag_def bit.conj_disj_distrib2)

text \<open>
  The traced bit of the process summary is decided by the bit \<open>P_LTRACED\<close> of
  \<^verbatim>\<open>p_flag\<close>, where that value means \<open>P_TIMEOUT\<close>: a process with \<open>P_LTRACED\<close> set in
  \<^verbatim>\<open>p_lflag\<close> is not reported as traced, and one timing out in a sleep is.
\<close>

lemma shortbsdinfo_traced_flag:
  "pbsi_flags (fst (proc_pidshortbsdinfo ksyms0 (proc0\<lparr> p_lflag := P_LTRACED \<rparr>) False st)) AND PROC_FLAG_TRACED = 0 \<and>
   pbsi_flags (fst (proc_pidshortbsdinfo ksyms0 (proc0\<lparr> p_flag := P_TIMEOUT \<rparr>) False st)) AND PROC_FLAG_TRACED =
     PROC_FLAG_TRACED"
  by (simp add: proc_pidshortbsdinfo_def bsd_flags_def bsd_flag_tests_def pc_control_flag_def pc_action_flag_def
      set_flag_def proc_flag_defs proc0_def ksyms0_def Let_def)

lemma averunnable_fixed:
  assumes "c \<in> set cexp" "0 \<le> nrun" "nrun < 1024"
  shows "averunnable_step nrun c (nrun * FSCALE) = nrun * FSCALE"
proof -
  have c: "0 \<le> c" "c \<le> 2048" using assms(1) by (auto simp: cexp_def)
  have a: "to_uint32 (nrun * 2048) = nrun * 2048" "to_uint32 (2048 - c) = 2048 - c"
    using assms c by auto
  have "to_uint32 (to_uint32 (c * (nrun * 2048)) + to_uint32 (nrun * 2048 * (2048 - c))) =
      to_uint32 (nrun * 2048 * 2048)"
    unfolding to_uint32_def mod_add_eq by (rule arg_cong [where f = "\<lambda>x. x mod 2 ^ 32"]) (simp add: algebra_simps)
  also have "\<dots> = nrun * 2048 * 2048" using assms by simp
  finally show ?thesis using a by (simp add: averunnable_step_def FSCALE_def FSHIFT_def)
qed

section \<open>Pid lists\<close>

lemma pidlist_alloc_steps:
  assumes "pl_nalloc pl = int (PIDS_PER_ENTRY * length (pl_head pl))" "needed \<le> 2 ^ 32 - 1021" "pl_nalloc pl < 2 ^ 32"
    and "pl_active pl = None" "\<forall>c \<in> set (pl_head pl). c = []"
    and "pl_nalloc pl < needed + 1021" "0 \<le> needed"
  shows "\<exists>pl'. pidlist_alloc pl needed = Some pl' \<and> needed \<le> pl_nalloc pl' \<and> pl_nalloc pl' < needed + 1021 \<and>
    pl_nalloc pl' = int (PIDS_PER_ENTRY * length (pl_head pl')) \<and> (\<forall>c \<in> set (pl_head pl'). c = []) \<and> pl_active pl' = None"
  using assms
proof (induction "nat (needed - pl_nalloc pl)" arbitrary: pl rule: less_induct)
  case less
  show ?case
  proof (cases "pl_nalloc pl < needed")
    case False
    then show ?thesis using less.prems by (subst pidlist_alloc.simps) auto
  next
    case True
    have n: "pl_nalloc (pidlist_grow pl) = pl_nalloc pl + 1021"
      using True less.prems by (simp add: pidlist_grow_def PIDS_PER_ENTRY_def)
    have "\<exists>pl'. pidlist_alloc (pidlist_grow pl) needed = Some pl' \<and> needed \<le> pl_nalloc pl' \<and> pl_nalloc pl' < needed + 1021 \<and>
    pl_nalloc pl' = int (PIDS_PER_ENTRY * length (pl_head pl')) \<and> (\<forall>c \<in> set (pl_head pl'). c = []) \<and> pl_active pl' = None"
    proof (rule less.hyps)
      show "pl_nalloc (pidlist_grow pl) = int (PIDS_PER_ENTRY * length (pl_head (pidlist_grow pl)))"
        using n less.prems(1) by (simp add: pidlist_grow_def PIDS_PER_ENTRY_def)
    qed (use True n less.prems in \<open>auto simp: pidlist_grow_def\<close>)
    then show ?thesis using True by (subst pidlist_alloc.simps) simp
  qed
qed

text \<open>A partly filled list: full chunks, the active chunk, then empty chunks.\<close>

definition pl_filled :: "pidlist \<Rightarrow> int list \<Rightarrow> bool" where
  "pl_filled pl ps \<longleftrightarrow>
     (\<exists>i full cur k. pl_active pl = Some i \<and> length full = i \<and> pl_head pl = full @ cur # replicate k [] \<and>
        (\<forall>c \<in> set full. length c = PIDS_PER_ENTRY) \<and> length cur \<le> PIDS_PER_ENTRY \<and>
        concat full @ cur = ps)"

lemma length_concat_const: "\<forall>c \<in> set full. length c = n \<Longrightarrow> length (concat full) = n * length full"
  by (induction full) auto

lemma pl_add_step:
  assumes "pl_filled pl ps" "length ps < PIDS_PER_ENTRY * length (pl_head pl)"
  shows "\<exists>pl'. pidlist_add_pid p pl = Some pl' \<and> pl_filled pl' (ps @ [p]) \<and> length (pl_head pl') = length (pl_head pl)"
proof -
  obtain i full cur k where f: "pl_active pl = Some i" "length full = i" "pl_head pl = full @ cur # replicate k []"
      "\<forall>c \<in> set full. length c = PIDS_PER_ENTRY" "length cur \<le> PIDS_PER_ENTRY" "concat full @ cur = ps"
    using assms(1) by (auto simp: pl_filled_def)
  have len: "length ps = PIDS_PER_ENTRY * i + length cur"
    using f length_concat_const by (metis length_append)
  show ?thesis
  proof (cases "length cur < PIDS_PER_ENTRY")
    case True
    have "pidlist_add_pid p pl = Some (pl\<lparr> pl_active := Some i, pl_head := full @ (cur @ [p]) # replicate k [] \<rparr>)"
      using f True by (simp add: pidlist_add_pid_def nth_append list_update_append)
    then show ?thesis using f True by (fastforce simp: pl_filled_def)
  next
    case False
    then have c: "length cur = PIDS_PER_ENTRY" using f by simp
    have "PIDS_PER_ENTRY * (i + 1) < PIDS_PER_ENTRY * (i + 1 + k)" using assms(2) f(2,3) len c by simp
    then obtain k' where k: "k = Suc k'" by (cases k) auto
    have "pidlist_add_pid p pl =
        Some (pl\<lparr> pl_active := Some (i + 1), pl_head := (full @ [cur]) @ [p] # replicate k' [] \<rparr>)"
      using f c k by (simp add: pidlist_add_pid_def nth_append list_update_append)
    moreover have "1 \<le> PIDS_PER_ENTRY" by (simp add: PIDS_PER_ENTRY_def)
    ultimately show ?thesis using f c k
      by (auto simp: pl_filled_def intro!: exI [of _ "full @ [cur]"] exI [of _ "[p]"])
  qed
qed

lemma pl_add_all:
  assumes "pl_filled pl qs" "length qs + length ps \<le> PIDS_PER_ENTRY * length (pl_head pl)"
  shows "\<exists>pl'. pidlist_add_all ps pl = Some pl' \<and> pl_filled pl' (qs @ ps)"
  using assms
proof (induction ps arbitrary: pl qs)
  case (Cons p ps)
  then obtain pl' where s: "pidlist_add_pid p pl = Some pl'" "pl_filled pl' (qs @ [p])"
      "length (pl_head pl') = length (pl_head pl)"
    using pl_add_step [of pl qs p] by auto
  then show ?case using Cons.IH [of pl' "qs @ [p]"] Cons.prems(2) by simp
qed simp

text \<open>
  \<open>pidlist_alloc\<close> ends with a capacity of at least \<open>needed\<close> and less than one
  chunk more, for any need below \<open>2 ^ 32 - 1020\<close>, and a list of that capacity takes
  that many pids without the exhaustion panic and holds them in order.
\<close>

lemma pidlist_capacity:
  assumes "0 < needed" "needed \<le> 2 ^ 32 - 1021" "int (length ps) \<le> needed"
  shows "\<exists>pl pl1 pl2. pidlist_alloc pidlist_init needed = Some pl \<and>
    needed \<le> pidlist_nalloc pl \<and> pidlist_nalloc pl < needed + 1021 \<and>
    pidlist_set_active pl = Some pl1 \<and> pidlist_add_all ps pl1 = Some pl2 \<and> concat (pl_head pl2) = ps"
proof -
  obtain pl where a: "pidlist_alloc pidlist_init needed = Some pl" "needed \<le> pl_nalloc pl" "pl_nalloc pl < needed + 1021"
      "pl_nalloc pl = int (PIDS_PER_ENTRY * length (pl_head pl))" "\<forall>c \<in> set (pl_head pl). c = []"
    using pidlist_alloc_steps [of pidlist_init needed] assms by (auto simp: pidlist_init_def)
  have h: "pl_head pl = replicate (length (pl_head pl)) []"
    using a(5) by (metis replicate_length_same)
  obtain n where n: "length (pl_head pl) = Suc n" using a assms(1) by (cases "length (pl_head pl)") auto
  define pl1 where "pl1 = pl\<lparr> pl_active := Some 0 \<rparr>"
  have hd: "pl_head pl = [] # replicate n []" using h n by simp
  have "pidlist_set_active pl = Some pl1" using hd by (simp add: pidlist_set_active_def pl1_def)
  moreover have "pl_filled pl1 []"
    using hd by (force simp: pl_filled_def pl1_def PIDS_PER_ENTRY_def)
  then obtain pl2 where "pidlist_add_all ps pl1 = Some pl2" "pl_filled pl2 ps"
    using pl_add_all [of pl1 "[]" ps] a assms(3) by (auto simp: pl1_def)
  moreover have "concat (pl_head pl2) = ps" using calculation(3) by (auto simp: pl_filled_def)
  ultimately show ?thesis using a by (auto simp: pidlist_nalloc_def)
qed

theorem pidlist_capacity_witness:
  "\<exists>pl pl1 pl2. pidlist_alloc pidlist_init 3 = Some pl \<and> 3 \<le> pidlist_nalloc pl \<and> pidlist_nalloc pl < 3 + 1021 \<and>
    pidlist_set_active pl = Some pl1 \<and> pidlist_add_all [10, 20, 30] pl1 = Some pl2 \<and>
    concat (pl_head pl2) = [10, 20, 30]"
  by (rule pidlist_capacity) simp_all

end
