(* ===== verification/Text.thy ===== *)
theory Text
imports Sbuf Kern
begin

text \<open>
  Nodes whose content is rendered into an sbuf: the common frame of the
  renderers, \<^verbatim>\<open>kext/procfs_limit.c\<close>, and the notes of \<^verbatim>\<open>kext/procfs_note.c\<close>. Proved: a
  rendered node behaves as a file that contains the text, read in pieces of any
  size.
\<close>

section \<open>Rendered nodes\<close>

text \<open>
  The frame of the renderers: a new sbuf, the printed pieces \<open>ts\<close>, finish, copy to
  the caller and delete.
\<close>

definition text_node ::
  "kenv \<Rightarrow> int \<Rightarrow> uiomove_fn \<Rightarrow> bytes option \<Rightarrow> int \<Rightarrow> int \<Rightarrow> string list \<Rightarrow> uio \<Rightarrow> kst \<Rightarrow> (err \<times> uio) \<times> kst" where
  "text_node k pg um buf sz flags ts uio st =
     (case sbuf_new k pg True buf sz flags st of
        (None, st) \<Rightarrow> ((Some ENOMEM, uio), st)
      | (Some sb, st) \<Rightarrow>
          (case fold (sbuf_put k pg) ts (sb, st) of
             (sb, st) \<Rightarrow>
               (let sb = sbuf_finish sb
                in (procfs_copy_data um (Some (sbuf_data sb)) (sbuf_len sb) uio, sbuf_delete sb st))))"

lemma copy_data_prefix:
  assumes "uiomove_ok um" "n \<le> length b" "n < 2 ^ 31" "0 \<le> uio_offset u" "uio_offset u \<le> int n" "0 \<le> uio_resid u"
  shows "procfs_copy_data um (Some b) (int n) u = procfs_copy_data um (Some (take n b)) (int n) u"
proof -
  have d: "to_int32 (int n - uio_offset u) = int n - uio_offset u" using assms by simp
  have i: "in_buffer (b, uio_offset u) (int n - uio_offset u)" "in_buffer (take n b, uio_offset u) (int n - uio_offset u)"
    using assms by (auto simp: in_buffer_def)
  have m: "nat (min (int n - uio_offset u) (uio_resid u)) \<le> n - nat (uio_offset u)" using assms by (auto simp: min_def)
  have "take (nat (min (int n - uio_offset u) (uio_resid u))) (drop (nat (uio_offset u)) (take n b)) =
      take (nat (min (int n - uio_offset u) (uio_resid u))) (drop (nat (uio_offset u)) b)"
    using m by (simp add: drop_take min_def)
  then show ?thesis
    using d i assms uiomove_okD [OF assms(1)] by (simp add: procfs_copy_data_def uiomove_ref_def)
qed

lemma copy_data_delivers:
  assumes "uiomove_ok um" "n \<le> length b" "n < 2 ^ 31" "0 \<le> uio_offset u" "uio_offset u \<le> int n" "0 \<le> uio_resid u"
  shows "procfs_copy_data um (Some b) (int n) u =
    (None, uio_put (take (nat (uio_resid u)) (drop (nat (uio_offset u)) (take n b))) u)"
  using copy_data_prefix [OF assms] seq_reader.rd_delivers [OF copy_data_reader [OF assms(1)], of "take n b" u] assms
  by simp

text \<open>The frame gives back the store of the sbuf, extended or not.\<close>

definition sbuf_owned :: "kst \<Rightarrow> sbuf \<Rightarrow> kst \<Rightarrow> bool" where
  "sbuf_owned st0 s st \<longleftrightarrow> \<not> s_dynstruct s \<and> st = st0\<lparr> mallocs := mallocs st0 + of_bool (s_dynamic s) \<rparr>"

lemma owned_delete: "sbuf_owned st0 s st \<Longrightarrow> sbuf_delete s st = st0"
  by (auto simp: sbuf_owned_def sbuf_delete_def free_k_def)

lemma owned_upd [simp]:
  "sbuf_owned st0 (s\<lparr> s_buf := b \<rparr>) st = sbuf_owned st0 s st"
  "sbuf_owned st0 (s\<lparr> s_len := n \<rparr>) st = sbuf_owned st0 s st"
  "sbuf_owned st0 (s\<lparr> s_overflowed := x \<rparr>) st = sbuf_owned st0 s st"
  "sbuf_owned st0 (vsnprintf_at t s) st = sbuf_owned st0 s st"
  "sbuf_owned st0 (sbuf_finish s) st = sbuf_owned st0 s st"
  by (simp_all add: sbuf_owned_def vsnprintf_at_def sbuf_finish_def)

lemma owned_ensure:
  "sbuf_owned st0 s st \<Longrightarrow> sbuf_owned st0 (snd (fst (sbuf_ensure_capacity k pg w s st))) (snd (sbuf_ensure_capacity k pg w s st))"
  by (auto simp: sbuf_owned_def sbuf_ensure_capacity_def sbuf_extend_def malloc_k_def free_k_def Let_def split: option.split)

lemma owned_loop:
  assumes "sbuf_vprintf_loop k pg t s st = Some r"
  shows "sbuf_owned st0 s st \<longrightarrow> sbuf_owned st0 (snd (fst r)) (snd r)"
proof (rule sbuf_vprintf_loop.raw_induct [of "\<lambda>k pg t s st r. sbuf_owned st0 s st \<longrightarrow> sbuf_owned st0 (snd (fst r)) (snd r)", OF _ assms])
  fix f :: "kenv \<Rightarrow> int \<Rightarrow> string \<Rightarrow> sbuf \<Rightarrow> kst \<Rightarrow> ((bool \<times> sbuf) \<times> kst) option" and k pg t s st r
  assume ih: "\<And>k pg t s st r. f k pg t s st = Some r \<Longrightarrow> sbuf_owned st0 s st \<longrightarrow> sbuf_owned st0 (snd (fst r)) (snd r)"
  let ?e = "sbuf_ensure_capacity k pg (int (length t)) (vsnprintf_at t s) st"
  assume "(let s1 = vsnprintf_at t s
           in if int (length t) > INT_MAX then Some ((False, s1), st)
              else if int (length t) \<le> sbuf_capacity s then Some ((True, s1\<lparr> s_len := s_len s1 + int (length t) \<rparr>), st)
              else let r = sbuf_ensure_capacity k pg (int (length t)) s1 st
                   in if fst (fst r) then f k pg t (snd (fst r)) (snd r)
                      else Some ((False, (snd (fst r))\<lparr> s_overflowed := True \<rparr>), snd r)) = Some r"
  moreover have "sbuf_owned st0 s st \<Longrightarrow> sbuf_owned st0 (snd (fst ?e)) (snd ?e)"
    using owned_ensure [of st0 "vsnprintf_at t s" st] by simp
  ultimately show "sbuf_owned st0 s st \<longrightarrow> sbuf_owned st0 (snd (fst r)) (snd r)"
    using ih [of k pg t "snd (fst ?e)" "snd ?e" r] by (auto simp: Let_def split: if_splits)
qed

lemma owned_put: "sbuf_owned st0 (fst x) (snd x) \<Longrightarrow> sbuf_owned st0 (fst (sbuf_put k pg t x)) (snd (sbuf_put k pg t x))"
  using owned_loop [of k pg t "fst x" "snd x" _ st0]
  by (auto simp: sbuf_put_def sbuf_printf_def sbuf_vprintf_def split: option.split)

lemma owned_put_all: "sbuf_owned st0 (fst x) (snd x) \<Longrightarrow>
    sbuf_owned st0 (fst (fold (sbuf_put k pg) ts x)) (snd (fold (sbuf_put k pg) ts x))"
  by (induction ts arbitrary: x) (auto simp: owned_put)

lemma owned_new: "sbuf_new k pg True buf n flags st = (Some s, st') \<Longrightarrow> sbuf_owned st s st'"
  by (auto simp: sbuf_new_def sbuf_owned_def sbuf_init_def malloc_k_def Let_def split: if_splits option.splits)

lemma new_None: "sbuf_new k pg True buf n flags st = (None, st') \<Longrightarrow> st' = st"
  by (auto simp: sbuf_new_def sbuf_init_def sbuf_delete_def malloc_k_def Let_def split: if_splits option.splits)

lemma text_node_balanced [simp, bal_simps]: "snd (text_node k pg um buf n flags ts u st) = st"
proof (cases "sbuf_new k pg True buf n flags st")
  case (Pair r st')
  show ?thesis
  proof (cases r)
    case None
    then show ?thesis using Pair new_None [of k pg buf n flags st st'] by (simp add: text_node_def)
  next
    case (Some s)
    have "sbuf_owned st s st'" using owned_new Pair Some by blast
    then have "sbuf_owned st (fst (fold (sbuf_put k pg) ts (s, st'))) (snd (fold (sbuf_put k pg) ts (s, st')))"
      using owned_put_all [of st "(s, st')"] by simp
    then have "sbuf_delete (sbuf_finish (fst (fold (sbuf_put k pg) ts (s, st')))) (snd (fold (sbuf_put k pg) ts (s, st'))) = st"
      by (intro owned_delete) simp
    then show ?thesis using Pair Some by (simp add: text_node_def Let_def case_prod_beta)
  qed
qed

text \<open>A buffer that extends takes every piece while memory lasts.\<close>

lemma extending_put:
  assumes "sbuf_wf (fst x)" "page_ok pg" "s_autoextend (fst x)" "\<not> s_overflowed (fst x)" "\<And>n. malloc_ok k n"
    and "int (length (sbuf_content (fst x)) + length t) + 1 + pg \<le> INT_MAX"
  shows "\<not> s_overflowed (fst (sbuf_put k pg t x))"
proof -
  define s where "s = vsnprintf_at t (fst x)"
  have v: "sbuf_wf s" "s_autoextend s" "\<not> s_overflowed s" "s_len s = s_len (fst x)"
    "sbuf_capacity s = sbuf_capacity (fst x)"
    using vsnprintf_wf [OF assms(1), of t] assms(3,4) by (auto simp: s_def)
  have l: "int (length (sbuf_content (fst x))) = s_len (fst x)" using assms(1) by (auto simp: sbuf_content_def sbuf_wf_def)
  have p: "16 \<le> pg" by (rule round_page(3) [OF assms(2)])
  obtain s' st' where e: "sbuf_ensure_capacity k pg (int (length t)) s (snd x) = ((True, s'), st')"
    using ensure_autoextend [OF v(1) assms(2) v(2) assms(5), of "int (length t)"] v(4) l assms(6) by fastforce
  have s': "sbuf_wf s'" "int (length t) \<le> sbuf_capacity s'" "\<not> s_overflowed s'"
    using ensure_capacity_ok [OF v(1) assms(2) _ e] v(3) by auto
  have i: "int (length t) \<le> INT_MAX" using assms(6) p by simp
  have "\<exists>s2 st2. sbuf_vprintf_loop k pg t (fst x) (snd x) = Some ((True, s2), st2)"
  proof (cases "int (length t) \<le> sbuf_capacity (fst x)")
    case True
    then show ?thesis using vprintf_loop_fit [OF assms(1) True i] by simp
  next
    case False
    then have "sbuf_vprintf_loop k pg t (fst x) (snd x) = sbuf_vprintf_loop k pg t s' st'"
      using e i by (subst sbuf_vprintf_loop.simps) (simp add: s_def Let_def)
    then show ?thesis using vprintf_loop_fit [OF s'(1,2) i] by simp
  qed
  then obtain s2 st2 where q: "sbuf_vprintf_loop k pg t (fst x) (snd x) = Some ((True, s2), st2)" by blast
  obtain ok s3 st3 where r: "sbuf_vprintf k pg t (fst x) (snd x) = Some ((ok, s3), st3)"
      "if ok then \<not> s_overflowed s3 else s_overflowed s3"
    using vprintf_ok [OF assms(1,2) i, of k "snd x"] by (auto split: if_splits)
  then show ?thesis using q assms(4) by (simp add: sbuf_put_def sbuf_printf_def sbuf_vprintf_def)
qed

lemma extending_put_all:
  assumes "page_ok pg" "\<And>n. malloc_ok k n"
    and "sbuf_wf (fst x)" "s_autoextend (fst x)" "\<not> s_overflowed (fst x)"
      "int (length (sbuf_content (fst x)) + length (concat ts)) + 1 + pg \<le> INT_MAX"
  shows "sbuf_wf (fst (fold (sbuf_put k pg) ts x)) \<and>
    sbuf_content (fst (fold (sbuf_put k pg) ts x)) = sbuf_content (fst x) @ concat ts"
  using assms(3-6)
proof (induction ts arbitrary: x)
  case (Cons t ts)
  let ?y = "sbuf_put k pg t x"
  have y: "\<not> s_overflowed (fst ?y)"
    using extending_put [OF Cons.prems(1) assms(1) Cons.prems(2,3) assms(2), of t] Cons.prems(4) by simp
  have "text_fits t" using Cons.prems(4) round_page(3) [OF assms(1)] by (simp add: text_fits_def)
  then have z: "sbuf_wf (fst ?y)" "s_autoextend (fst ?y)" "sbuf_content (fst ?y) = sbuf_content (fst x) @ t"
    using sbuf_put_ok [OF Cons.prems(1) assms(1), of t k] y Cons.prems(2) by auto
  show ?case using Cons.IH [OF z(1,2) y] z Cons.prems(4) by simp
qed simp

lemma finish_copy:
  assumes "uiomove_ok um" "sbuf_wf s" "sbuf_content s = c"
    and "0 \<le> uio_offset u" "uio_offset u \<le> int (length c)" "0 \<le> uio_resid u"
  shows "procfs_copy_data um (Some (sbuf_data (sbuf_finish s))) (sbuf_len (sbuf_finish s)) u =
    (None, uio_put (take (nat (uio_resid u)) (drop (nat (uio_offset u)) c)) u)"
proof -
  have fi: "sbuf_wf (sbuf_finish s)" "sbuf_content (sbuf_finish s) = c" "sbuf_len (sbuf_finish s) = s_len s"
      "s_len (sbuf_finish s) = s_len s"
    using finish_ok [OF assms(2)] assms(3) by (auto simp: sbuf_finish_def)
  have w: "0 \<le> s_len s" "s_len s < int (length (s_buf (sbuf_finish s)))" "length (s_buf (sbuf_finish s)) \<le> nat INT_MAX"
      "take (nat (s_len s)) (s_buf (sbuf_finish s)) = c"
    using fi by (auto simp: sbuf_wf_def sbuf_content_def)
  have e: "nat (s_len s) = length c"
    using w(1,2) arg_cong [OF w(4), of length] by (simp only: length_take)
  have l: "s_len s = int (length c)" "length c \<le> length (s_buf (sbuf_finish s))"
      "take (length c) (s_buf (sbuf_finish s)) = c" "length c < 2 ^ 31"
    using w e by (simp_all add: INT_MAX_def)
  show ?thesis
    using fi l copy_data_delivers [OF assms(1) l(2,4) assms(4-6)] by (simp add: sbuf_data_def)
qed

lemma text_node_fixed:
  assumes "uiomove_ok um" "page_ok pg" "length b = nat sz" "0 < sz" "sz \<le> INT_MAX" "int (length (concat ts)) < sz"
    and "0 \<le> uio_offset u" "uio_offset u \<le> int (length (concat ts))" "0 \<le> uio_resid u"
  shows "text_node k pg um (Some b) sz SBUF_FIXEDLEN ts u st =
    ((None, uio_put (take (nat (uio_resid u)) (drop (nat (uio_offset u)) (concat ts))) u), st)"
proof -
  define s0 where "s0 = (sbuf_init SBUF_FIXEDLEN False)\<lparr> s_size := sz, s_buf := b \<rparr>"
  have n: "sbuf_new k pg True (Some b) sz SBUF_FIXEDLEN st = (Some s0, st)"
    using assms(4,5) by (simp add: sbuf_new_def s0_def SBUF_FIXEDLEN_def INT_MAX_def)
  have wf: "sbuf_wf s0" "\<not> s_autoextend s0" "\<not> s_overflowed s0" "sbuf_content s0 = []" "s_size s0 = sz"
    using assms(3-5) by (simp_all add: s0_def sbuf_init_def sbuf_wf_def sbuf_content_def SBUF_FIXEDLEN_def)
  let ?f = "fold (sbuf_put k pg) ts (s0, st)"
  have c: "sbuf_wf (fst ?f)" "sbuf_content (fst ?f) = concat ts"
    using fixed_put_all [OF assms(2), of "(s0, st)" ts k] wf assms(6) by auto
  have "fst (text_node k pg um (Some b) sz SBUF_FIXEDLEN ts u st) =
      (None, uio_put (take (nat (uio_resid u)) (drop (nat (uio_offset u)) (concat ts))) u)"
    using n finish_copy [OF assms(1) c assms(7-9)] by (simp add: text_node_def Let_def case_prod_beta)
  then show ?thesis by (simp add: prod_eq_iff)
qed

lemma text_node_extending:
  assumes "uiomove_ok um" "page_ok pg" "\<And>n. malloc_ok k n" "0 < sz"
    and "sz + int (length (concat ts)) + 1 + pg \<le> INT_MAX"
    and "0 \<le> uio_offset u" "uio_offset u \<le> int (length (concat ts))" "0 \<le> uio_resid u"
  shows "text_node k pg um None sz SBUF_AUTOEXTEND ts u st =
    ((None, uio_put (take (nat (uio_resid u)) (drop (nat (uio_offset u)) (concat ts))) u), st)"
proof -
  have p: "16 \<le> pg" by (rule round_page(3) [OF assms(2)])
  have i: "0 \<le> sz" "sz \<le> INT_MAX" using assms(4,5) p by linarith+
  obtain m where m: "sbuf_extendsize pg sz = Some m"
    using extendsize_Some [OF assms(2), of sz] assms(4,5) by auto
  have "0 < m" using extendsize_ge [OF assms(2) i(1) m] by simp
  have "\<exists>s0 st0. sbuf_new k pg True None sz SBUF_AUTOEXTEND st = (Some s0, st0)"
    using i m \<open>0 < m\<close> assms(3)
    by (auto simp: sbuf_new_def sbuf_init_def malloc_k_def SBUF_AUTOEXTEND_def SBUF_USRFLAGMSK_def INT_MAX_def Let_def)
  then obtain s0 st0 where n: "sbuf_new k pg True None sz SBUF_AUTOEXTEND st = (Some s0, st0)" by blast
  have wf: "sbuf_wf s0" "s_autoextend s0" "\<not> s_overflowed s0" "sbuf_content s0 = []"
    using new_ok [OF assms(2) n i] by (auto simp: SBUF_AUTOEXTEND_def)
  let ?f = "fold (sbuf_put k pg) ts (s0, st0)"
  have c: "sbuf_wf (fst ?f)" "sbuf_content (fst ?f) = concat ts"
    using extending_put_all [OF assms(2,3), of "(s0, st0)" ts] wf assms(4,5) by auto
  have "fst (text_node k pg um None sz SBUF_AUTOEXTEND ts u st) =
      (None, uio_put (take (nat (uio_resid u)) (drop (nat (uio_offset u)) (concat ts))) u)"
    using n finish_copy [OF assms(1) c assms(6-8)] by (simp add: text_node_def Let_def case_prod_beta)
  then show ?thesis by (simp add: prod_eq_iff)
qed


section \<open>Resource limits\<close>

definition RLIM_NLIMITS :: nat where "RLIM_NLIMITS = 9"
definition RLIM_INFINITY :: int where "RLIM_INFINITY = 2 ^ 63 - 1"

definition rlimit_ident :: "string list" where
  "rlimit_ident = [''cpu'', ''fsize'', ''data'', ''stack'', ''core'', ''rss'', ''memlock'', ''nproc'', ''nofile'']"

record rlimit =
  rlim_cur :: int
  rlim_max :: int

definition fmt_rlimit :: "int \<Rightarrow> string" where
  "fmt_rlimit x = (if x = RLIM_INFINITY then ''-1'' else fmt_u x)"

text \<open>The three prints of one limit.\<close>

definition limit_pieces :: "string \<Rightarrow> rlimit \<Rightarrow> string list" where
  "limit_pieces name rl =
     [name @ '' '', fmt_rlimit (rlim_cur rl) @ '' '', fmt_rlimit (rlim_max rl) @ [CHR 0x0A]]"

definition limit_text :: "rlimit list \<Rightarrow> string list" where
  "limit_text rl = concat (map2 limit_pieces rlimit_ident rl)"

text \<open>\<open>plimit\<close> is the limit array in kernel memory at an address.\<close>

definition procfs_dolimit ::
  "kenv \<Rightarrow> int \<Rightarrow> uiomove_fn \<Rightarrow> (int \<Rightarrow> rlimit list) \<Rightarrow> pfsnode \<Rightarrow> uio \<Rightarrow> kst \<Rightarrow> (err \<times> uio) \<times> kst" where
  "procfs_dolimit k pg um plimit pnp uio st =
     (case proc_find k (nodeid_pid (node_id pnp)) st of
        (None, st) \<Rightarrow> ((Some ESRCH, uio), st)
      | (Some p, st) \<Rightarrow>
          (let limp = p_limit p; st' = proc_rele (nodeid_pid (node_id pnp)) st
           in if limp < PROCFS_KPTR_MIN \<or> phys_of k limp = 0 then ((Some EIO, uio), st')
              else text_node k pg um (Some (replicate 1024 (CHR 0x00))) 1024 SBUF_FIXEDLEN
                     (limit_text (take RLIM_NLIMITS (plimit limp))) uio st'))"

lemma limit_balanced: "snd (procfs_dolimit k pg um plimit pnp uio st) = st"
  by (simp add: procfs_dolimit_def Let_def proc_find_def split: option.split)

lemma length_nat_to_base: "n < 10 ^ m \<Longrightarrow> 0 < m \<Longrightarrow> length (nat_to_base 10 n) \<le> m"
proof (induction m arbitrary: n)
  case (Suc m)
  show ?case
  proof (cases "n < 10")
    case True
    then show ?thesis by (subst nat_to_base.simps) simp
  next
    case False
    then have "n div 10 < 10 ^ m" "0 < m" using Suc.prems by (auto intro: ccontr)
    then show ?thesis using Suc.IH [of "n div 10"] False by (subst nat_to_base.simps) simp
  qed
qed simp

lemma length_fmt_u64: "x < 2 ^ 64 \<Longrightarrow> length (fmt_u x) \<le> 20"
proof -
  assume "x < 2 ^ 64"
  then have "nat x < 10 ^ 20" by simp
  then show ?thesis unfolding fmt_u_def by (intro length_nat_to_base) simp_all
qed

lemma length_limit_pieces:
  "rlim_cur rl < 2 ^ 64 \<Longrightarrow> rlim_max rl < 2 ^ 64 \<Longrightarrow> length (concat (limit_pieces name rl)) \<le> length name + 43"
  using length_fmt_u64 [of "rlim_cur rl"] length_fmt_u64 [of "rlim_max rl"]
  by (auto simp: limit_pieces_def fmt_rlimit_def)

definition rlimits_ok :: "rlimit list \<Rightarrow> bool" where
  "rlimits_ok rl \<longleftrightarrow> length rl = RLIM_NLIMITS \<and> (\<forall>r \<in> set rl. rlim_cur r < 2 ^ 64 \<and> rlim_max r < 2 ^ 64)"

lemma length_limit_lines:
  "\<forall>r \<in> set rl. rlim_cur r < 2 ^ 64 \<and> rlim_max r < 2 ^ 64 \<Longrightarrow>
    length (concat (concat (map2 limit_pieces ns rl))) \<le> length (concat ns) + 43 * length rl"
proof (induction ns arbitrary: rl)
  case (Cons n ns)
  show ?case
  proof (cases rl)
    case (Cons r rs)
    then show ?thesis using Cons.IH [of rs] Cons.prems length_limit_pieces [of r n] by simp
  qed simp
qed simp

lemma length_limit_text: "rlimits_ok rl \<Longrightarrow> length (concat (limit_text rl)) \<le> 432"
  using length_limit_lines [of rl rlimit_ident]
  by (simp add: rlimits_ok_def limit_text_def RLIM_NLIMITS_def rlimit_ident_def)

text \<open>
  The limit node has a line for every limit whatever their values: the text always
  fits its buffer.
\<close>

lemma limit_complete:
  assumes "uiomove_ok um" "page_ok pg" "proc_find_k k (nodeid_pid (node_id pnp)) = Some p"
    and "PROCFS_KPTR_MIN \<le> p_limit p" "phys_of k (p_limit p) \<noteq> 0" "rlimits_ok (plimit (p_limit p))"
    and "0 \<le> uio_offset u" "uio_offset u \<le> int (length (concat (limit_text (plimit (p_limit p)))))" "0 \<le> uio_resid u"
  shows "procfs_dolimit k pg um plimit pnp u st =
    ((None, uio_put (take (nat (uio_resid u)) (drop (nat (uio_offset u)) (concat (limit_text (plimit (p_limit p)))))) u), st)"
  using assms length_limit_text [OF assms(6)]
    text_node_fixed [OF assms(1,2), of "replicate 1024 (CHR 0x00)" 1024 "limit_text (plimit (p_limit p))" u k st]
  by (simp add: procfs_dolimit_def rlimits_ok_def INT_MAX_def Let_def)

section \<open>Notes\<close>

text \<open>
  \<open>umin\<close> copies from the caller: the error, the bytes moved, and the request
  afterwards. The buffer of \<open>procfs_getuserstr\<close> has room for \<open>buflen\<close> bytes and a NUL.
\<close>

definition PROCFS_NOTELEN :: int where "PROCFS_NOTELEN = 64"

fun strip_newlines :: "bytes \<Rightarrow> nat \<Rightarrow> bytes \<times> nat" where
  "strip_newlines buf 0 = (buf, 0)"
| "strip_newlines buf (Suc n) =
     (if buf ! n = CHR 0x0A then strip_newlines (buf[n := CHR 0x00]) n else (buf, Suc n))"

definition procfs_getuserstr ::
  "(int \<Rightarrow> uio \<Rightarrow> (err \<times> bytes) \<times> uio) \<Rightarrow> bytes \<Rightarrow> int \<Rightarrow> uio \<Rightarrow> (errno + bytes \<times> nat) \<times> uio" where
  "procfs_getuserstr umin buf buflen uio =
     (let xlen = to_uint64 (uio_resid uio)
      in if xlen > buflen then (Inl EMSGSIZE, uio)
         else case umin xlen uio of
                ((Some e, _), uio) \<Rightarrow> (Inl e, uio)
              | ((None, b), uio) \<Rightarrow>
                  (Inr (strip_newlines ((b @ drop (length b) buf)[nat xlen := CHR 0x00]) (nat xlen)), uio))"

definition procfs_donote ::
  "(int \<Rightarrow> uio \<Rightarrow> (err \<times> bytes) \<times> uio) \<Rightarrow> uio_rw \<Rightarrow> uio \<Rightarrow> err \<times> uio" where
  "procfs_donote umin rw uio =
     (if rw \<noteq> UIO_WRITE then (Some EINVAL, uio)
      else case procfs_getuserstr umin (replicate (nat PROCFS_NOTELEN + 1) (CHR 0x00)) PROCFS_NOTELEN uio of
             (Inl e, uio) \<Rightarrow> (Some e, uio)
           | (Inr _, uio) \<Rightarrow> (Some EOPNOTSUPP, uio))"

lemma strip_newlines_length: "length (fst (strip_newlines b n)) = length b \<and> snd (strip_newlines b n) \<le> n"
proof (induction b n rule: strip_newlines.induct)
  case (2 b n)
  then show ?case by auto
qed simp

lemma strip_newlines_prefix:
  "n \<le> length b \<Longrightarrow> take (snd (strip_newlines b n)) (fst (strip_newlines b n)) =
     rev (dropWhile (\<lambda>c. c = CHR 0x0A) (rev (take n b)))"
proof (induction b n rule: strip_newlines.induct)
  case (2 b n)
  have t: "take (Suc n) b = take n b @ [b ! n]" using 2(2) by (intro take_Suc_conv_app_nth) simp
  show ?case using 2 t by simp
qed simp

text \<open>
  The note read from the caller stays inside its buffer and is the written text
  without its trailing newlines.
\<close>

lemma getuserstr_note:
  assumes "umin (uio_resid uio) uio = ((None, b), uio')" "int (length b) = uio_resid uio" "uio_resid uio \<le> buflen"
    and "buflen < 2 ^ 63" "int (length buf) = buflen + 1"
  shows "\<exists>note n. procfs_getuserstr umin buf buflen uio = (Inr (note, n), uio') \<and> length note = length buf \<and>
    n \<le> length b \<and> take n note = rev (dropWhile (\<lambda>c. c = CHR 0x0A) (rev b))"
proof -
  let ?b = "(b @ drop (length b) buf)[length b := CHR 0x00]"
  have x: "to_uint64 (uio_resid uio) = int (length b)" using assms by simp
  have l: "length ?b = length buf" "take (length b) ?b = b" using assms by auto
  have "procfs_getuserstr umin buf buflen uio = (Inr (strip_newlines ?b (length b)), uio')"
    using assms(1,3) x by (simp add: procfs_getuserstr_def assms(2) [symmetric])
  moreover have "take (snd (strip_newlines ?b (length b))) (fst (strip_newlines ?b (length b))) =
      rev (dropWhile (\<lambda>c. c = CHR 0x0A) (rev b))"
    using strip_newlines_prefix [of "length b" ?b] l by simp
  ultimately show ?thesis using strip_newlines_length [of ?b "length b"] l by (metis prod.collapse)
qed

end
