(* ===== verification/Vm.thy ===== *)
theory Vm
imports Text
begin

text \<open>
  The VM region walk of \<^verbatim>\<open>kext/procfs_map.c\<close> behind the map and maps nodes and the
  task sizes, with the two line formats (\<^verbatim>\<open>procfs_map_fmt_netbsd\<close> there and
  \<^verbatim>\<open>procfs_maps_fmt_linux\<close> in \<^verbatim>\<open>kext/procfs_linux.c\<close>). Proved: on an address space
  of disjoint regions in order, the walk visits every region once, the nodes show
  one line for each, and the sizes are their sums.
\<close>

section \<open>The region walk\<close>

text \<open>
  \<^verbatim>\<open>get_task_map\<close> and \<^verbatim>\<open>mach_vm_region\<close> are kernel symbols found at load time, \<open>None\<close> when
  they were not. The call takes a map and an address and returns the start and
  size of the region it found with the information of either flavour, or \<open>None\<close>
  for a result other than \<^verbatim>\<open>KERN_SUCCESS\<close>.
\<close>

record region_info =
  ri_offset :: int
  ri_protection :: int
  ri_max_protection :: int
  ri_shared :: bool
  ri_user_wired_count :: int
  ri_share_mode :: int
  ri_pages_resident :: int

type_synonym region_fn = "int \<Rightarrow> (int \<times> int \<times> region_info) option"

record vm_syms =
  kl_get_task_map :: "(int \<Rightarrow> int option) option"
  kl_mach_vm_region :: "(int \<Rightarrow> region_fn) option"

definition PROCFS_MAP_MAX_REGIONS :: nat where "PROCFS_MAP_MAX_REGIONS = 1000000"

record procfs_region =
  r_start :: int
  r_end :: int
  r_offset :: int
  r_prot :: int
  r_max_prot :: int
  r_shared :: bool
  r_wired :: int

definition region_of :: "int \<times> int \<times> region_info \<Rightarrow> procfs_region" where
  "region_of x =
     (case x of (addr, sz, info) \<Rightarrow>
        \<lparr> r_start = addr, r_end = to_uint64 (addr + sz), r_offset = ri_offset info, r_prot = ri_protection info,
          r_max_prot = ri_max_protection info, r_shared = ri_shared info, r_wired = ri_user_wired_count info \<rparr>)"

text \<open>The loop that both users of the walk run, with \<open>n\<close> rounds left.\<close>

fun region_walk :: "region_fn \<Rightarrow> nat \<Rightarrow> int \<Rightarrow> (int \<times> int \<times> region_info) list" where
  "region_walk f 0 addr = []"
| "region_walk f (Suc n) addr =
     (case f addr of
        None \<Rightarrow> []
      | Some (a, sz, info) \<Rightarrow>
          (a, sz, info) #
            (let nxt = to_uint64 (a + sz) in if nxt \<le> a then [] else region_walk f n nxt))"

definition TASK_NULL :: int where "TASK_NULL = 0"

definition procfs_map_render ::
  "kenv \<Rightarrow> vm_syms \<Rightarrow> int \<Rightarrow> uiomove_fn \<Rightarrow> cred \<Rightarrow> (procfs_region \<Rightarrow> string) \<Rightarrow> pfsnode \<Rightarrow> uio \<Rightarrow> kst \<Rightarrow> (err \<times> uio) \<times> kst" where
  "procfs_map_render k vs pg um creds fmt pnp uio st =
     (let pid = nodeid_pid (node_id pnp) in
      case proc_find k pid st of
        (None, st) \<Rightarrow> ((Some ESRCH, uio), st)
      | (Some p, st) \<Rightarrow>
          (case procfs_check_can_access_process creds p st of
             (Some e, st) \<Rightarrow> ((Some e, uio), proc_rele pid st)
           | (None, st) \<Rightarrow>
               (case (kl_get_task_map vs, kl_mach_vm_region vs) of
                  (Some get_task_map, Some mach_vm_region) \<Rightarrow>
                    (let task = proc_task p
                     in case (if task \<noteq> TASK_NULL then get_task_map task else None) of
                          None \<Rightarrow> ((Some EIO, uio), proc_rele pid st)
                        | Some vmap \<Rightarrow>
                            text_node k pg um None 4096 SBUF_AUTOEXTEND
                              (map (\<lambda>r. fmt (region_of r)) (region_walk (mach_vm_region vmap) PROCFS_MAP_MAX_REGIONS 0))
                              uio (proc_rele pid st))
                | _ \<Rightarrow> ((Some ENOTSUP, uio), proc_rele pid st))))"

definition SM_SHARED :: int where "SM_SHARED = 4"
definition SM_TRUESHARED :: int where "SM_TRUESHARED = 5"
definition SM_SHARED_ALIASED :: int where "SM_SHARED_ALIASED = 7"

definition add_sizes :: "int \<Rightarrow> int \<times> int \<Rightarrow> int \<times> int \<times> region_info \<Rightarrow> int \<times> int" where
  "add_sizes pg vr x =
     (case (vr, x) of ((vsize, rsize), (_, sz, info)) \<Rightarrow>
        (to_uint64 (vsize + sz),
         if ri_share_mode info \<in> {SM_SHARED, SM_TRUESHARED, SM_SHARED_ALIASED} then rsize
         else to_uint64 (rsize + to_uint64 (ri_pages_resident info * pg))))"

definition procfs_task_vm_sizes :: "vm_syms \<Rightarrow> int \<Rightarrow> proc \<Rightarrow> err \<times> int \<times> int" where
  "procfs_task_vm_sizes vs pg p =
     (case (kl_get_task_map vs, kl_mach_vm_region vs) of
        (Some get_task_map, Some mach_vm_region) \<Rightarrow>
          (let task = proc_task p
           in if task = TASK_NULL then (Some ESRCH, 0, 0)
              else case get_task_map task of
                     None \<Rightarrow> (Some EIO, 0, 0)
                   | Some vmap \<Rightarrow>
                       (None, foldl (add_sizes pg) (0, 0) (region_walk (mach_vm_region vmap) PROCFS_MAP_MAX_REGIONS 0)))
      | _ \<Rightarrow> (Some ENOTSUP, 0, 0))"

definition VM_PROT_READ :: int where "VM_PROT_READ = 1"
definition VM_PROT_WRITE :: int where "VM_PROT_WRITE = 2"
definition VM_PROT_EXECUTE :: int where "VM_PROT_EXECUTE = 4"

definition prot_chars :: "int \<Rightarrow> string" where
  "prot_chars prot =
     [if prot AND VM_PROT_READ \<noteq> 0 then CHR ''r'' else CHR ''-'',
      if prot AND VM_PROT_WRITE \<noteq> 0 then CHR ''w'' else CHR ''-'',
      if prot AND VM_PROT_EXECUTE \<noteq> 0 then CHR ''x'' else CHR ''-'']"

text \<open>\<^verbatim>\<open>%#018llx\<close>: the prefix counts to the width, and zero has none.\<close>

definition fmt_hex018 :: "int \<Rightarrow> string" where
  "fmt_hex018 x =
     (if x = 0 then pad_left (CHR ''0'') 18 ''0'' else ''0x'' @ pad_left (CHR ''0'') 16 (fmt_x x))"

definition procfs_map_fmt_netbsd :: "procfs_region \<Rightarrow> string" where
  "procfs_map_fmt_netbsd r =
     fmt_hex018 (r_start r) @ '' '' @ fmt_hex018 (r_end r) @ '' '' @ prot_chars (r_prot r) @ '' '' @
     prot_chars (r_max_prot r) @ '' '' @ (if r_shared r then ''share'' else ''priv'') @ '' '' @
     fmt_u (r_wired r) @ [CHR 0x0A]"

definition procfs_domap ::
  "kenv \<Rightarrow> vm_syms \<Rightarrow> int \<Rightarrow> uiomove_fn \<Rightarrow> cred \<Rightarrow> pfsnode \<Rightarrow> uio \<Rightarrow> kst \<Rightarrow> (err \<times> uio) \<times> kst" where
  "procfs_domap k vs pg um creds = procfs_map_render k vs pg um creds procfs_map_fmt_netbsd"

definition procfs_maps_fmt_linux :: "procfs_region \<Rightarrow> string" where
  "procfs_maps_fmt_linux r =
     pad_left (CHR ''0'') 16 (fmt_x (r_start r)) @ ''-'' @ pad_left (CHR ''0'') 16 (fmt_x (r_end r)) @ '' '' @
     prot_chars (r_prot r) @ (if r_shared r then ''s'' else ''p'') @ '' '' @
     pad_left (CHR ''0'') 16 (fmt_x (r_offset r)) @ '' 00:00 0 '' @ [CHR 0x0A]"

definition procfs_domaps ::
  "kenv \<Rightarrow> vm_syms \<Rightarrow> int \<Rightarrow> uiomove_fn \<Rightarrow> cred \<Rightarrow> pfsnode \<Rightarrow> uio \<Rightarrow> kst \<Rightarrow> (err \<times> uio) \<times> kst" where
  "procfs_domaps k vs pg um creds = procfs_map_render k vs pg um creds procfs_maps_fmt_linux"

lemma map_render_balanced: "snd (procfs_map_render k vs pg um creds fmt pnp uio st) = st"
  by (cases "proc_find_k k (nodeid_pid (node_id pnp))")
     (simp_all add: procfs_map_render_def Let_def split: option.split)

section \<open>Results\<close>

text \<open>
  The documented result of \<^verbatim>\<open>mach_vm_region\<close> on an address space: the first region
  that ends above the address.
\<close>

definition first_above :: "(int \<times> int \<times> region_info) list \<Rightarrow> region_fn" where
  "first_above rs addr = find (\<lambda>(a, sz, _). addr < a + sz) rs"

fun regions_from :: "int \<Rightarrow> (int \<times> int \<times> region_info) list \<Rightarrow> bool" where
  "regions_from lo [] = True"
| "regions_from lo ((a, sz, _) # rs) = (lo \<le> a \<and> 0 < sz \<and> a + sz \<le> 2 ^ 64 \<and> regions_from (a + sz) rs)"

lemma regions_from_top: "regions_from (2 ^ 64) rs \<Longrightarrow> rs = []"
  by (cases rs) auto

lemma walk_all:
  assumes "\<And>addr. lo \<le> addr \<Longrightarrow> f addr = first_above rs addr" "regions_from lo rs" "0 \<le> lo" "length rs \<le> n"
  shows "region_walk f n lo = rs"
  using assms
proof (induction rs arbitrary: lo n f)
  case Nil
  then show ?case by (cases n) (simp_all add: first_above_def)
next
  case (Cons r rs)
  obtain a sz info where r: "r = (a, sz, info)" by (cases r)
  obtain m where m: "n = Suc m" using Cons.prems(4) by (cases n) auto
  have p: "lo \<le> a" "0 < sz" "a + sz \<le> 2 ^ 64" "regions_from (a + sz) rs" using Cons.prems(2) r by auto
  have f: "f lo = Some r" using Cons.prems(1) [of lo] p r by (simp add: first_above_def)
  show ?case
  proof (cases "a + sz = 2 ^ 64")
    case True
    then have "rs = []" "to_uint64 (a + sz) = 0" using p(4) regions_from_top by (simp_all add: to_uint64_def)
    then show ?thesis using f r m p Cons.prems(3) by simp
  next
    case False
    then have u: "to_uint64 (a + sz) = a + sz" using p Cons.prems(3) by simp
    have "f addr = first_above rs addr" if "a + sz \<le> addr" for addr
      using Cons.prems(1) [of addr] that p r by (simp add: first_above_def)
    then have "region_walk f m (a + sz) = rs"
      using Cons.IH [of "a + sz" f m] p Cons.prems(3,4) m by simp
    then show ?thesis using f r m p u by (simp add: Let_def)
  qed
qed

definition private_bytes :: "int \<Rightarrow> int \<times> int \<times> region_info \<Rightarrow> int" where
  "private_bytes pg x =
     (if ri_share_mode (snd (snd x)) \<in> {SM_SHARED, SM_TRUESHARED, SM_SHARED_ALIASED} then 0
      else ri_pages_resident (snd (snd x)) * pg)"

lemma sizes_sum:
  "0 \<le> v \<Longrightarrow> v < 2 ^ 64 \<Longrightarrow> 0 \<le> w \<Longrightarrow> w < 2 ^ 64 \<Longrightarrow>
    foldl (add_sizes pg) (v, w) rs =
    (to_uint64 (v + (\<Sum>r \<leftarrow> rs. fst (snd r))), to_uint64 (w + (\<Sum>r \<leftarrow> rs. private_bytes pg r)))"
proof (induction rs arbitrary: v w)
  case (Cons r rs)
  obtain v' w' where a: "add_sizes pg (v, w) r = (v', w')" by force
  have b: "v' = to_uint64 (v + fst (snd r))" "w' = to_uint64 (w + private_bytes pg r)"
    using a Cons.prems by (auto simp: add_sizes_def private_bytes_def to_uint64_def mod_simps split: prod.splits if_splits)
  have "0 \<le> v'" "v' < 2 ^ 64" "0 \<le> w'" "w' < 2 ^ 64" using b by (simp_all add: to_uint64_def)
  then show ?case using Cons.IH [of v' w'] a b by (simp add: to_uint64_def mod_simps add.assoc)
qed simp

definition address_space :: "vm_syms \<Rightarrow> proc \<Rightarrow> (int \<times> int \<times> region_info) list \<Rightarrow> bool" where
  "address_space vs p rs \<longleftrightarrow> proc_task p \<noteq> TASK_NULL \<and> regions_from 0 rs \<and> length rs \<le> PROCFS_MAP_MAX_REGIONS \<and>
     (\<exists>g r m. kl_get_task_map vs = Some g \<and> kl_mach_vm_region vs = Some r \<and> g (proc_task p) = Some m \<and>
        (\<forall>addr. r m addr = first_above rs addr))"

lemma address_space_walk:
  assumes "address_space vs p rs"
  obtains g r m where "kl_get_task_map vs = Some g" "kl_mach_vm_region vs = Some r" "g (proc_task p) = Some m"
    "region_walk (r m) PROCFS_MAP_MAX_REGIONS 0 = rs"
  using assms walk_all [of 0 _ rs PROCFS_MAP_MAX_REGIONS] by (auto simp: address_space_def)

text \<open>
  C18: the map and maps nodes of a process show its address space: a reader who may
  access the process gets one line for every VM region, in address order and none
  left out, from whatever offset the read starts, and the task sizes are the sums
  over the same regions.
\<close>

theorem map_shows_every_region:
  assumes "uiomove_ok um" "page_ok pg" "\<forall>n. malloc_ok k n"
    and "proc_find_k k (nodeid_pid (node_id pnp)) = Some p" "may_access creds p" "address_space vs p rs"
    and "txt = concat (map (\<lambda>r. fmt (region_of r)) rs)" "int (length txt) + 4097 + pg \<le> INT_MAX"
    and "0 \<le> uio_offset u" "uio_offset u \<le> int (length txt)" "0 \<le> uio_resid u"
  shows "procfs_map_render k vs pg um creds fmt pnp u st =
      ((None, uio_put (take (nat (uio_resid u)) (drop (nat (uio_offset u)) txt)) u), st) \<and>
    procfs_task_vm_sizes vs pg p =
      (None, to_uint64 (\<Sum>r \<leftarrow> rs. fst (snd r)), to_uint64 (\<Sum>r \<leftarrow> rs. private_bytes pg r))"
proof -
  obtain g r m where w: "kl_get_task_map vs = Some g" "kl_mach_vm_region vs = Some r" "g (proc_task p) = Some m"
      "region_walk (r m) PROCFS_MAP_MAX_REGIONS 0 = rs"
    using address_space_walk [OF assms(6)] .
  have t: "proc_task p \<noteq> TASK_NULL" using assms(6) by (simp add: address_space_def)
  have "text_node k pg um None 4096 SBUF_AUTOEXTEND (map (\<lambda>r. fmt (region_of r)) rs) u st =
      ((None, uio_put (take (nat (uio_resid u)) (drop (nat (uio_offset u)) txt)) u), st)"
    using text_node_extending [OF assms(1,2), of k 4096 "map (\<lambda>r. fmt (region_of r)) rs" u st] assms by simp
  then show ?thesis using assms(4,5) w t sizes_sum [of 0 0 pg rs]
    by (simp add: procfs_map_render_def procfs_task_vm_sizes_def Let_def)
qed

definition demo_regions :: "(int \<times> int \<times> region_info) list" where
  "demo_regions =
     [(0x1000, 0x2000, \<lparr> ri_offset = 0, ri_protection = 5, ri_max_protection = 7, ri_shared = False,
        ri_user_wired_count = 0, ri_share_mode = 1, ri_pages_resident = 2 \<rparr>),
      (0x8000, 0x1000, \<lparr> ri_offset = 16, ri_protection = 3, ri_max_protection = 3, ri_shared = True,
        ri_user_wired_count = 1, ri_share_mode = 4, ri_pages_resident = 1 \<rparr>)]"

definition demo_vm :: vm_syms where
  "demo_vm = \<lparr> kl_get_task_map = Some (\<lambda>t. Some t), kl_mach_vm_region = Some (\<lambda>_. first_above demo_regions) \<rparr>"

definition demo_vm_proc :: proc where
  "demo_vm_proc = proc0\<lparr> p_pid := 7, p_task := 99, p_lflag := P_LHASTASK \<rparr>"

definition demo_vm_env :: kenv where
  "demo_vm_env = kenv0\<lparr> proc_find_k := (\<lambda>pid. if pid = 7 then Some demo_vm_proc else None) \<rparr>"

definition demo_vm_node :: pfsnode where
  "demo_vm_node = \<lparr> node_vnode = None, node_attaching_vnode = False, node_thread_waiting_attach = False, node_mnt_id = 1,
     node_id = \<lparr> nodeid_pid = 7, nodeid_objectid = 0, nodeid_base_id = 45 \<rparr>, node_structure_node = 45 \<rparr>"

lemma demo_address_space: "address_space demo_vm demo_vm_proc demo_regions"
  by (auto simp: address_space_def demo_vm_def demo_vm_proc_def demo_regions_def proc_task_def P_LHASTASK_def TASK_NULL_def
      PROCFS_MAP_MAX_REGIONS_def proc0_def)

theorem map_shows_every_region_witness:
  "procfs_map_render demo_vm_env demo_vm 4096 uiomove_ref cred0 (\<lambda>r. if r_shared r then ''s'' else ''p'') demo_vm_node
      \<lparr> uio_offset = 0, uio_resid = 100, uio_out = [] \<rparr> kst0 =
    ((None, \<lparr> uio_offset = 2, uio_resid = 98, uio_out = ''ps'' \<rparr>), kst0) \<and>
   procfs_task_vm_sizes demo_vm 4096 demo_vm_proc = (None, 0x3000, 0x2000)"
  using map_shows_every_region [OF _ page_ok_4096 _ _ _ demo_address_space, of uiomove_ref demo_vm_env demo_vm_node cred0
      "''ps''" "\<lambda>r. if r_shared r then ''s'' else ''p''" "\<lparr> uio_offset = 0, uio_resid = 100, uio_out = [] \<rparr>" kst0]
  by (simp add: demo_vm_env_def demo_vm_node_def kenv0_def may_access_def demo_vm_proc_def proc0_def cred0_def
      demo_regions_def region_of_def private_bytes_def INT_MAX_def uio_put_def SM_SHARED_def SM_TRUESHARED_def
      SM_SHARED_ALIASED_def)

end
