(* ===== verification/Memory.thy ===== *)
theory Memory
imports Text
begin

text \<open>
  Reading the memory of a process: the copy through the physical aperture that
  \<^verbatim>\<open>kext/procfs_mem.c\<close> and \<^verbatim>\<open>kext/procfs_cmdline.c\<close> each have, the mem node, the argument
  region with the cmdline and environ nodes, and \<^verbatim>\<open>kext/procfs_auxv.c\<close>. Proved: the
  word-wise copy equals reading byte by byte up to the first page that is not
  resident; the mem node ends and delivers exactly these bytes; and the argument
  region is split where its sections meet, so that cmdline and environ show the
  arguments and the environment the process was started with.
\<close>

section \<open>The physical aperture\<close>

text \<open>
  The kernel's page tables and physical memory: the pmap of a task, the frame of
  a virtual address (0 for none) and the 32-bit word at a physical address. The
  page size is \<open>2 ^ ps\<close>.
\<close>

record phys_env =
  get_task_pmap :: "int \<Rightarrow> int option"
  pmap_find_phys :: "int \<Rightarrow> int \<Rightarrow> int"
  ml_phys_read :: "int \<Rightarrow> int"

definition page_off :: "nat \<Rightarrow> int \<Rightarrow> int" where
  "page_off ps va = va AND (2 ^ ps - 1)"

lemma page_off_mod: "page_off ps va = va mod 2 ^ ps"
  by (simp add: page_off_def flip: take_bit_eq_mod mask_eq_exp_minus_1 take_bit_eq_mask)

text \<open>The bytes of one word, from bit \<open>shift\<close> on: the inner loop, run at least once.\<close>

function word_bytes :: "int \<Rightarrow> nat \<Rightarrow> int \<Rightarrow> int \<Rightarrow> bytes" where
  "word_bytes word shift i chunk =
     char_of (nat (word div 2 ^ shift mod 256)) #
       (if shift + 8 < 32 \<and> i + 1 < chunk then word_bytes word (shift + 8) (i + 1) chunk else [])"
  by pat_completeness auto
termination by (relation "measure (\<lambda>(w, s, i, c). 32 - s)") auto

declare word_bytes.simps [simp del]

lemma word_bytes_nonempty: "word_bytes w s i c \<noteq> []"
  by (subst word_bytes.simps) simp

function chunk_bytes :: "(int \<Rightarrow> int) \<Rightarrow> int \<Rightarrow> int \<Rightarrow> int \<Rightarrow> bytes" where
  "chunk_bytes rd pa i chunk =
     (if i < chunk
      then let cur = to_uint64 (pa + i);
               word = rd (cur AND NOT 3);
               shift = nat ((cur AND 3) * 8);
               bs = word_bytes word shift i chunk
           in bs @ chunk_bytes rd pa (i + int (length bs)) chunk
      else [])"
  by pat_completeness auto
termination
proof (relation "measure (\<lambda>(rd, pa, i, c). nat (c - i))", goal_cases)
  case (2 rd pa i chunk cur word shift bs)
  then have "0 < length bs" using word_bytes_nonempty by simp
  then show ?case using 2(1) by (simp add: nat_mono_iff)
qed simp

declare chunk_bytes.simps [simp del]

function user_phys_loop :: "phys_env \<Rightarrow> nat \<Rightarrow> int \<Rightarrow> int \<Rightarrow> int \<Rightarrow> int \<Rightarrow> bytes" where
  "user_phys_loop pe ps pmap uva don len =
     (if don < len
      then let va = to_uint64 (uva + don);
               ppn = pmap_find_phys pe pmap va
           in if ppn = 0 then []
              else let pa = to_uint64 (ppn * 2 ^ ps + page_off ps va);
                       chunk0 = 2 ^ ps - page_off ps va;
                       chunk = (if chunk0 > len - don then len - don else chunk0)
                   in chunk_bytes (ml_phys_read pe) pa 0 chunk @ user_phys_loop pe ps pmap uva (don + chunk) len
      else [])"
  by pat_completeness auto
termination
proof (relation "measure (\<lambda>(pe, ps, pm, u, d, l). nat (l - d))", goal_cases)
  case (2 pe ps pmap uva don len va ppn pa chunk0 chunk)
  have "0 < chunk0" using 2 by (simp add: page_off_mod)
  then show ?case using 2(1,6,7) by (auto simp: nat_mono_iff)
qed simp

declare user_phys_loop.simps [simp del]

text \<open>The bytes copied; their number is the functions' result.\<close>

definition procfs_copy_user_phys :: "phys_env \<Rightarrow> nat \<Rightarrow> int \<Rightarrow> int \<Rightarrow> int \<Rightarrow> bytes" where
  "procfs_copy_user_phys pe ps pmap uva len = user_phys_loop pe ps pmap uva 0 len"

definition procfs_read_user_phys :: "phys_env \<Rightarrow> nat \<Rightarrow> int \<Rightarrow> int \<Rightarrow> int \<Rightarrow> bytes" where
  "procfs_read_user_phys pe ps pmap uva len = user_phys_loop pe ps pmap uva 0 len"

section \<open>The mem node\<close>

partial_function (option) mem_loop ::
  "phys_env \<Rightarrow> nat \<Rightarrow> uiomove_fn \<Rightarrow> int \<Rightarrow> bool \<Rightarrow> uio \<Rightarrow> (err \<times> uio) option" where
  "mem_loop pe ps um pmap any uio =
     (if uio_resid uio > 0
      then let va = to_uint64 (uio_offset uio);
               chunk0 = 2 ^ ps - page_off ps va;
               chunk = (if chunk0 > uio_resid uio then uio_resid uio else chunk0);
               got = procfs_read_user_phys pe ps pmap va chunk
           in if got = [] then Some (if any then None else Some EIO, uio)
              else let r = um (got, 0) (int (length got)) uio
                   in if fst r \<noteq> None then Some r
                      else if int (length got) < chunk then Some (None, snd r)
                      else mem_loop pe ps um pmap True (snd r)
      else Some (None, uio))"

declare mem_loop.simps [code]

definition procfs_domem ::
  "kenv \<Rightarrow> phys_env \<Rightarrow> nat \<Rightarrow> uiomove_fn \<Rightarrow> cred \<Rightarrow> pfsnode \<Rightarrow> uio_rw \<Rightarrow> uio \<Rightarrow> kst \<Rightarrow> ((err \<times> uio) option) \<times> kst" where
  "procfs_domem k pe ps um creds pnp rw uio st =
     (let pid = nodeid_pid (node_id pnp) in
      if rw \<noteq> UIO_READ then (Some (Some EOPNOTSUPP, uio), st)
      else case proc_find k pid st of
        (None, st) \<Rightarrow> (Some (Some ESRCH, uio), st)
      | (Some p, st) \<Rightarrow>
          (case procfs_check_can_access_process creds p st of
             (Some e, st) \<Rightarrow> (Some (Some e, uio), proc_rele pid st)
           | (None, st) \<Rightarrow>
               (case (if proc_task p \<noteq> 0 then get_task_pmap pe (proc_task p) else None) of
                  None \<Rightarrow> (Some (Some EIO, uio), proc_rele pid st)
                | Some pmap \<Rightarrow>
                    (case malloc_k k (2 ^ ps) st of
                       (False, st) \<Rightarrow> (Some (Some ENOMEM, uio), proc_rele pid st)
                     | (True, st) \<Rightarrow> (mem_loop pe ps um pmap False uio, proc_rele pid (free_k st))))))"

section \<open>The argument region\<close>

definition PROCFS_EXEC_KEY :: string where "PROCFS_EXEC_KEY = ''executable_path=''"
definition PROCFS_CMDLINE_MAX :: int where "PROCFS_CMDLINE_MAX = 256 * 1024"

definition procfs_cmdline_comm :: "kenv \<Rightarrow> uiomove_fn \<Rightarrow> proc \<Rightarrow> uio \<Rightarrow> err \<times> uio" where
  "procfs_cmdline_comm k um p uio =
     (let comm = strlcpy (MAXCOMLEN + 1) (proc_name_k k (p_pid p));
          txt = ''('' @ (if comm \<noteq> [] then comm else ''unknown'') @ '')''
      in procfs_copy_data um (Some (strlcpy (MAXCOMLEN + 4) txt @ [CHR 0x00])) (int (length txt)) uio)"

function skip_nuls :: "bytes \<Rightarrow> nat \<Rightarrow> nat" where
  "skip_nuls buf pos = (if pos < length buf \<and> buf ! pos = CHR 0x00 then skip_nuls buf (pos + 1) else pos)"
  by pat_completeness auto
termination by (relation "measure (\<lambda>(b, p). length b - p)") auto

declare skip_nuls.simps [simp del]

definition argv_start :: "bytes \<Rightarrow> nat" where
  "argv_start buf =
     (let pos = strnlen buf (length buf)
      in if pos < length buf then skip_nuls buf (pos + 1) else pos)"

fun skip_args :: "bytes \<Rightarrow> nat \<Rightarrow> nat \<Rightarrow> nat" where
  "skip_args buf 0 pos = pos"
| "skip_args buf (Suc argc) pos =
     (if pos < length buf
      then let remaining = length buf - pos;
               arglen = strnlen (drop pos buf) remaining;
               arglen = (if arglen < remaining then arglen + 1 else arglen)
           in skip_args buf argc (pos + arglen)
      else pos)"

function find_apple :: "bytes \<Rightarrow> nat \<Rightarrow> nat" where
  "find_apple buf scan =
     (if scan < length buf
      then let remaining = length buf - scan
           in if remaining \<ge> length PROCFS_EXEC_KEY \<and> take (length PROCFS_EXEC_KEY) (drop scan buf) = PROCFS_EXEC_KEY
              then scan
              else let slen = strnlen (drop scan buf) remaining
                   in if slen = remaining then length buf else find_apple buf (scan + slen + 1)
      else length buf)"
  by pat_completeness auto
termination by (relation "measure (\<lambda>(b, s). length b - s)") auto

declare find_apple.simps [simp del]

text \<open>The buffer of the bytes read and the offsets of its sections.\<close>

record procargs =
  pa_buf :: bytes
  pa_argv :: nat
  pa_env :: nat
  pa_apple :: nat

definition split_procargs :: "int \<Rightarrow> bytes \<Rightarrow> procargs" where
  "split_procargs argc buf =
     (let argv = argv_start buf;
          env = skip_args buf (nat argc) argv
      in \<lparr> pa_buf = buf, pa_argv = argv, pa_env = env, pa_apple = find_apple buf env \<rparr>)"

definition procfs_read_procargs :: "kenv \<Rightarrow> phys_env \<Rightarrow> nat \<Rightarrow> proc \<Rightarrow> kst \<Rightarrow> procargs result \<times> kst" where
  "procfs_read_procargs k pe ps p st =
     (case (if proc_task p \<noteq> 0 then get_task_pmap pe (proc_task p) else None) of
        None \<Rightarrow> (Inl EINVAL, st)
      | Some pmap \<Rightarrow>
          if p_argc p \<le> 0 \<or> p_user_stack p = 0 \<or> p_argslen p \<le> int (length PROCFS_EXEC_KEY) then (Inl EINVAL, st)
          else let adj = p_argslen p - int (length PROCFS_EXEC_KEY);
                   data_va = to_uint64 (p_user_stack p - adj);
                   readlen = (if adj > PROCFS_CMDLINE_MAX then PROCFS_CMDLINE_MAX else adj)
               in case malloc_k k readlen st of
                    (False, st) \<Rightarrow> (Inl ENOMEM, st)
                  | (True, st) \<Rightarrow>
                      (let buf = procfs_copy_user_phys pe ps pmap data_va readlen
                       in if buf = [] then (Inl EIO, free_k st)
                          else (Inr (split_procargs (p_argc p) buf), st)))"

text \<open>The section of the buffer between two offsets, copied to the caller.\<close>

definition copy_section :: "uiomove_fn \<Rightarrow> bytes \<Rightarrow> nat \<Rightarrow> nat \<Rightarrow> uio \<Rightarrow> err \<times> uio" where
  "copy_section um buf from till uio =
     procfs_copy_data um (Some (drop from buf)) (to_int32 (int till - int from)) uio"

definition procfs_doprocargs_helper ::
  "kenv \<Rightarrow> phys_env \<Rightarrow> nat \<Rightarrow> uiomove_fn \<Rightarrow> proc \<Rightarrow> uio \<Rightarrow> kst \<Rightarrow> (err \<times> uio) \<times> kst" where
  "procfs_doprocargs_helper k pe ps um p uio st =
     (case procfs_read_procargs k pe ps p st of
        (Inl _, st) \<Rightarrow> (procfs_cmdline_comm k um p uio, st)
      | (Inr pa, st) \<Rightarrow> (copy_section um (pa_buf pa) (pa_argv pa) (pa_env pa) uio, free_k st))"

definition no_user_stack :: "proc \<Rightarrow> bool" where
  "no_user_stack p \<longleftrightarrow> p_stat p = SZOMB \<or> p_flag p AND P_SYSTEM \<noteq> 0"

definition procfs_doprocargs ::
  "kenv \<Rightarrow> phys_env \<Rightarrow> nat \<Rightarrow> uiomove_fn \<Rightarrow> pfsnode \<Rightarrow> uio_rw \<Rightarrow> uio \<Rightarrow> kst \<Rightarrow> (err \<times> uio) \<times> kst" where
  "procfs_doprocargs k pe ps um pnp rw uio st =
     (let pid = nodeid_pid (node_id pnp) in
      case proc_find k pid st of
        (None, st) \<Rightarrow> ((Some ESRCH, uio), st)
      | (Some p, st) \<Rightarrow>
          if rw \<noteq> UIO_READ then ((Some EOPNOTSUPP, uio), proc_rele pid st)
          else if no_user_stack p then (procfs_cmdline_comm k um p uio, proc_rele pid st)
          else (case procfs_doprocargs_helper k pe ps um p uio st of (r, st) \<Rightarrow> (r, proc_rele pid st)))"

definition empty_copy :: "uiomove_fn \<Rightarrow> uio \<Rightarrow> err \<times> uio" where
  "empty_copy um uio = procfs_copy_data um (Some [CHR 0x00]) 0 uio"

definition procfs_doenviron ::
  "kenv \<Rightarrow> phys_env \<Rightarrow> nat \<Rightarrow> uiomove_fn \<Rightarrow> pfsnode \<Rightarrow> uio_rw \<Rightarrow> uio \<Rightarrow> kst \<Rightarrow> (err \<times> uio) \<times> kst" where
  "procfs_doenviron k pe ps um pnp rw uio st =
     (let pid = nodeid_pid (node_id pnp) in
      if rw \<noteq> UIO_READ then ((Some EOPNOTSUPP, uio), st)
      else case proc_find k pid st of
        (None, st) \<Rightarrow> ((Some ESRCH, uio), st)
      | (Some p, st) \<Rightarrow>
          if no_user_stack p then (empty_copy um uio, proc_rele pid st)
          else (case procfs_read_procargs k pe ps p st of
                  (Inr pa, st) \<Rightarrow>
                    (copy_section um (pa_buf pa) (pa_env pa) (pa_apple pa) uio, proc_rele pid (free_k st))
                | (Inl _, st) \<Rightarrow> (empty_copy um uio, proc_rele pid st)))"

section \<open>The auxv node\<close>

text \<open>The Linux presentation, and the native one; \<open>linux\<close> is \<^verbatim>\<open>procfs_linux_mode\<close>.\<close>

definition auxv_linux_text :: "nat \<Rightarrow> cred \<Rightarrow> string list" where
  "auxv_linux_text ps cr =
     (let tab = [CHR 0x09]; nl = [CHR 0x0A]
      in [''AT_PAGESZ'' @ tab @ fmt_u (2 ^ ps) @ nl, ''AT_CLKTCK'' @ tab @ fmt_d 100 @ nl,
          ''AT_UID'' @ tab @ fmt_u (cr_ruid cr) @ nl, ''AT_EUID'' @ tab @ fmt_u (cr_uid cr) @ nl,
          ''AT_GID'' @ tab @ fmt_u (cr_rgid cr) @ nl, ''AT_EGID'' @ tab @ fmt_u (cr_gid cr) @ nl,
          ''AT_SECURE'' @ tab @ fmt_d 0 @ nl])"

text \<open>
  Between \<open>sbuf_new\<close> and \<open>sbuf_delete\<close> the credential is taken and dropped; here both
  happen before the rendering, which they do not touch.
\<close>

definition procfs_doauxv_linux ::
  "kenv \<Rightarrow> nat \<Rightarrow> uiomove_fn \<Rightarrow> pfsnode \<Rightarrow> uio_rw \<Rightarrow> uio \<Rightarrow> kst \<Rightarrow> (err \<times> uio) \<times> kst" where
  "procfs_doauxv_linux k ps um pnp rw uio st =
     (let pid = nodeid_pid (node_id pnp) in
      if rw \<noteq> UIO_READ then ((Some EOPNOTSUPP, uio), st)
      else case proc_find k pid st of
        (None, st) \<Rightarrow> ((Some ESRCH, uio), st)
      | (Some p, st) \<Rightarrow>
          (case text_node k (2 ^ ps) um None 512 SBUF_AUTOEXTEND (auxv_linux_text ps (p_cred p)) uio
                  (cred_unref (cred_ref st)) of
             (r, st) \<Rightarrow> (r, proc_rele pid st)))"

definition procfs_doauxv ::
  "kenv \<Rightarrow> phys_env \<Rightarrow> nat \<Rightarrow> bool \<Rightarrow> uiomove_fn \<Rightarrow> pfsnode \<Rightarrow> uio_rw \<Rightarrow> uio \<Rightarrow> kst \<Rightarrow> (err \<times> uio) \<times> kst" where
  "procfs_doauxv k pe ps linux um pnp rw uio st =
     (let pid = nodeid_pid (node_id pnp) in
      if rw \<noteq> UIO_READ then ((Some EOPNOTSUPP, uio), st)
      else if linux then procfs_doauxv_linux k ps um pnp rw uio st
      else case proc_find k pid st of
        (None, st) \<Rightarrow> ((Some ESRCH, uio), st)
      | (Some p, st) \<Rightarrow>
          if no_user_stack p then (empty_copy um uio, proc_rele pid st)
          else (case procfs_read_procargs k pe ps p st of
                  (Inr pa, st) \<Rightarrow>
                    (copy_section um (pa_buf pa) (pa_apple pa) (length (pa_buf pa)) uio, proc_rele pid (free_k st))
                | (Inl _, st) \<Rightarrow> (empty_copy um uio, proc_rele pid st)))"

section \<open>Balance\<close>

lemma malloc_k_True [simp]: "malloc_ok k n \<Longrightarrow> malloc_k k n st = (True, st\<lparr> mallocs := mallocs st + 1 \<rparr>)"
  by (simp add: malloc_k_def)

lemma malloc_k_False [simp]: "\<not> malloc_ok k n \<Longrightarrow> malloc_k k n st = (False, st)"
  by (simp add: malloc_k_def)

lemma free_malloc [simp, bal_simps]: "free_k (st\<lparr> mallocs := mallocs st + 1 \<rparr>) = st"
  by (simp add: free_k_def)

lemma domem_balanced: "snd (procfs_domem k pe ps um creds pnp rw uio st) = st"
  by (cases "malloc_ok k (2 ^ ps)") (simp_all add: procfs_domem_def Let_def proc_find_def split: option.split)

lemma read_procargs_state:
  "snd (procfs_read_procargs k pe ps p st) =
     (if isl (fst (procfs_read_procargs k pe ps p st)) then st else st\<lparr> mallocs := mallocs st + 1 \<rparr>)"
  by (simp add: procfs_read_procargs_def malloc_k_def Let_def split: option.split)

lemma read_procargs_cases:
  obtains e where "procfs_read_procargs k pe ps p st = (Inl e, st)"
  | pa where "procfs_read_procargs k pe ps p st = (Inr pa, st\<lparr> mallocs := mallocs st + 1 \<rparr>)"
  using read_procargs_state [of k pe ps p st] by (cases "procfs_read_procargs k pe ps p st"; cases "fst (procfs_read_procargs k pe ps p st)") auto

lemma procargs_helper_balanced: "snd (procfs_doprocargs_helper k pe ps um p uio st) = st"
  by (rule read_procargs_cases [of k pe ps p st]) (simp_all add: procfs_doprocargs_helper_def)

lemma doprocargs_balanced: "snd (procfs_doprocargs k pe ps um pnp rw uio st) = st"
proof (cases "proc_find_k k (nodeid_pid (node_id pnp))")
  case (Some p)
  then show ?thesis using procargs_helper_balanced [of k pe ps um p uio]
    by (simp add: procfs_doprocargs_def Let_def case_prod_beta)
qed (simp add: procfs_doprocargs_def)

lemma doenviron_balanced: "snd (procfs_doenviron k pe ps um pnp rw uio st) = st"
proof (cases "proc_find_k k (nodeid_pid (node_id pnp))")
  case (Some p)
  show ?thesis
    by (rule read_procargs_cases [of k pe ps p "proc_hold (nodeid_pid (node_id pnp)) st"])
       (use Some in \<open>simp_all add: procfs_doenviron_def Let_def\<close>)
qed (simp add: procfs_doenviron_def Let_def)

lemma doauxv_balanced: "snd (procfs_doauxv k pe ps linux um pnp rw uio st) = st"
proof (cases "proc_find_k k (nodeid_pid (node_id pnp))")
  case (Some p)
  show ?thesis
    by (rule read_procargs_cases [of k pe ps p "proc_hold (nodeid_pid (node_id pnp)) st"])
       (use Some in \<open>simp_all add: procfs_doauxv_def procfs_doauxv_linux_def Let_def case_prod_beta\<close>)
qed (simp add: procfs_doauxv_def procfs_doauxv_linux_def Let_def)

section \<open>The copy equals a bytewise read\<close>

lemma le_value_byte: "s < length b \<Longrightarrow> char_of (nat (le_value b div 256 ^ s mod 256)) = b ! s"
proof (induction b arbitrary: s)
  case (Cons c b)
  have c: "(of_char c :: nat) < 256" by (rule nat_of_char_less_256)
  show ?case
  proof (cases s)
    case 0
    have "(int (of_char c) + 256 * le_value b) mod 256 = int (of_char c)" using c by auto
    then show ?thesis using 0 by simp
  next
    case (Suc t)
    have "(int (of_char c) + 256 * le_value b) div 256 = le_value b" using c by auto
    then have "(int (of_char c) + 256 * le_value b) div 256 ^ Suc t = le_value b div 256 ^ t"
      by (simp add: zdiv_zmult2_eq)
    then show ?thesis using Suc Cons by simp
  qed
qed simp

text \<open>\<open>mem\<close> is the physical memory, a byte at every address.\<close>

definition mem_word :: "(int \<Rightarrow> char) \<Rightarrow> int \<Rightarrow> bytes" where
  "mem_word mem a = map (\<lambda>j. mem (a + int j)) [0..<4]"

lemma word_bytes_mem:
  assumes "s < 4" "i < chunk"
  shows "word_bytes (le_value (mem_word mem a)) (8 * s) i chunk =
    map (\<lambda>j. mem (a + int j)) [s..<min 4 (s + nat (chunk - i))]"
  using assms
proof (induction "4 - s" arbitrary: s i)
  case 0
  then show ?case by simp
next
  case (Suc d)
  have b: "char_of (nat (le_value (mem_word mem a) div 2 ^ (8 * s) mod 256)) = mem (a + int s)"
    using le_value_byte [of s "mem_word mem a"] Suc.prems by (simp add: mem_word_def power_mult)
  have m: "min 4 (s + nat (chunk - i)) = (if s + 1 < 4 \<and> i + 1 < chunk then min 4 (Suc s + nat (chunk - (i + 1))) else Suc s)"
    using Suc.prems by auto
  have u: "[s..<min 4 (s + nat (chunk - i))] = s # [Suc s..<min 4 (s + nat (chunk - i))]"
    using Suc.prems by (intro upt_conv_Cons) auto
  show ?case
  proof (cases "s + 1 < 4 \<and> i + 1 < chunk")
    case True
    then have "word_bytes (le_value (mem_word mem a)) (8 * Suc s) (i + 1) chunk =
        map (\<lambda>j. mem (a + int j)) [Suc s..<min 4 (Suc s + nat (chunk - (i + 1)))]"
      using Suc.hyps(2) Suc.prems by (intro Suc.hyps(1)) auto
    then show ?thesis using True b m u by (subst word_bytes.simps) (simp add: algebra_simps)
  next
    case False
    then show ?thesis using b m u by (subst word_bytes.simps) auto
  qed
qed

text \<open>The documented behaviour of \<^verbatim>\<open>ml_phys_read\<close>: the little-endian word at an aligned address.\<close>

definition phys_reads :: "phys_env \<Rightarrow> (int \<Rightarrow> char) \<Rightarrow> bool" where
  "phys_reads pe mem \<longleftrightarrow> (\<forall>a. a mod 4 = 0 \<longrightarrow> ml_phys_read pe a = le_value (mem_word mem a))"

lemma and_3: "(x :: int) AND 3 = x mod 4"
  using take_bit_eq_mask [of 2 x] by (simp add: take_bit_eq_mod mask_eq_exp_minus_1)

lemma and_not_3: "(x :: int) AND - 4 = x - x mod 4"
  using and_not_mask [of x 2] by (simp add: minus_mod_eq_div_mult)

lemma map_upt_shift: "map f [b..<b + c] = map (\<lambda>j. f (b + j)) [0..<c]"
  by (induction c) auto

lemma map_upt_split: "map f [0..<m + n] = map f [0..<m] @ map (\<lambda>j. f (m + j)) [0..<n]"
  using map_upt_shift [of f m n] upt_add_eq_append [of 0 m n] by simp

lemma chunk_bytes_mem:
  assumes "phys_reads pe mem" "0 \<le> pa" "pa + chunk \<le> 2 ^ 64"
  shows "0 \<le> i \<Longrightarrow> chunk_bytes (ml_phys_read pe) pa i chunk = map (\<lambda>j. mem (pa + i + int j)) [0..<nat (chunk - i)]"
  using assms(2,3)
proof (induction "ml_phys_read pe" pa i chunk rule: chunk_bytes.induct)
  case (1 pa i chunk)
  show ?case
  proof (cases "i < chunk")
    case False
    then show ?thesis by (subst chunk_bytes.simps) simp
  next
    case True
    define s where "s = nat ((pa + i) mod 4)"
    define n where "n = min (4 - s) (nat (chunk - i))"
    define bs where "bs = word_bytes (ml_phys_read pe (pa + i - int s)) (8 * s) i chunk"
    have cur: "to_uint64 (pa + i) = pa + i" using True 1(2-4) by simp
    have s: "s < 4" "int s = (pa + i) mod 4" by (simp_all add: s_def)
    have al: "(pa + i - int s) mod 4 = 0" by (simp add: s(2) mod_diff_right_eq)
    have "bs = map (\<lambda>j. mem (pa + i - int s + int j)) [s..<s + n]"
      using word_bytes_mem [OF s(1) True, of mem "pa + i - int s"] assms(1) al s(1)
      by (simp add: bs_def phys_reads_def n_def min_add_distrib_right)
    then have bs: "bs = map (\<lambda>j. mem (pa + i + int j)) [0..<n]"
      by (simp add: map_upt_shift add.assoc)
    have w: "nat (int s * 8) = 8 * s" by simp
    have u: "chunk_bytes (ml_phys_read pe) pa i chunk = bs @ chunk_bytes (ml_phys_read pe) pa (i + int n) chunk"
      using True bs by (subst chunk_bytes.simps) (simp add: cur and_3 and_not_3 Let_def w bs_def [symmetric] s(2) [symmetric])
    have "chunk_bytes (ml_phys_read pe) pa (i + int (length bs)) chunk =
        map (\<lambda>j. mem (pa + (i + int (length bs)) + int j)) [0..<nat (chunk - (i + int (length bs)))]"
      by (rule 1(1) [OF True refl refl refl])
         (use 1(2-4) in \<open>simp_all add: cur and_3 and_not_3 w bs_def s(2) [symmetric]\<close>)
    moreover have "nat (chunk - i) = n + nat (chunk - (i + int n))" using True by (auto simp: n_def)
    ultimately show ?thesis using u bs by (simp add: map_upt_split algebra_simps)
  qed
qed

section \<open>Reference\<close>

text \<open>
  The byte of the process at a virtual address, if its page is resident, and the
  bytes from an address on up to the first that is not.
\<close>

definition user_byte :: "phys_env \<Rightarrow> (int \<Rightarrow> char) \<Rightarrow> nat \<Rightarrow> int \<Rightarrow> int \<Rightarrow> char option" where
  "user_byte pe mem ps pmap va =
     (let ppn = pmap_find_phys pe pmap va
      in if ppn = 0 then None else Some (mem (ppn * 2 ^ ps + va mod 2 ^ ps)))"

fun user_bytes :: "(int \<Rightarrow> char option) \<Rightarrow> int \<Rightarrow> nat \<Rightarrow> bytes" where
  "user_bytes ub va 0 = []"
| "user_bytes ub va (Suc n) = (case ub va of None \<Rightarrow> [] | Some c \<Rightarrow> c # user_bytes ub (va + 1) n)"

text \<open>Frames are inside the 64-bit physical space and a mapping covers whole pages.\<close>

definition pages_ok :: "phys_env \<Rightarrow> nat \<Rightarrow> bool" where
  "pages_ok pe ps \<longleftrightarrow>
     (\<forall>pmap va. 0 \<le> pmap_find_phys pe pmap va \<and> (pmap_find_phys pe pmap va + 1) * 2 ^ ps \<le> 2 ^ 64 \<and>
        pmap_find_phys pe pmap va = pmap_find_phys pe pmap (va - va mod 2 ^ ps))"

lemma user_bytes_length: "length (user_bytes ub va n) \<le> n"
  by (induction ub va n rule: user_bytes.induct) (auto split: option.split)

lemma user_bytes_split:
  "user_bytes ub va (m + n) =
    (if length (user_bytes ub va m) = m then user_bytes ub va m @ user_bytes ub (va + int m) n else user_bytes ub va m)"
proof (induction m arbitrary: va)
  case (Suc m)
  have e: "va + 1 + int m = va + int (Suc m)" by simp
  show ?case using Suc.IH [of "va + 1", unfolded e] by (auto split: option.split)
qed simp

lemma user_bytes_present:
  "(\<And>j. j < n \<Longrightarrow> ub (va + int j) = Some (g j)) \<Longrightarrow> user_bytes ub va n = map g [0..<n]"
proof (induction n arbitrary: va g)
  case (Suc n)
  have "user_bytes ub (va + 1) n = map (\<lambda>j. g (Suc j)) [0..<n]"
    using Suc.prems [of "Suc _"] by (intro Suc.IH) (simp add: add.assoc)
  then show ?case using Suc.prems [of 0] map_upt_split [of g 1 n] by simp
qed simp

lemma user_phys_mem:
  shows "phys_reads pe mem \<Longrightarrow> pages_ok pe ps \<Longrightarrow> 0 \<le> uva \<Longrightarrow> 0 \<le> don \<Longrightarrow> uva + len \<le> 2 ^ 64 \<Longrightarrow>
    user_phys_loop pe ps pmap uva don len = user_bytes (user_byte pe mem ps pmap) (uva + don) (nat (len - don))"
proof (induction pe ps pmap uva don len rule: user_phys_loop.induct)
  case (1 pe ps pmap uva don len)
  define va where "va = uva + don"
  define ppn where "ppn = pmap_find_phys pe pmap va"
  define chunk where "chunk = min (2 ^ ps - va mod 2 ^ ps) (len - don)"
  show ?case
  proof (cases "don < len")
    case False
    then show ?thesis by (subst user_phys_loop.simps) simp
  next
    case True
    have va: "to_uint64 (uva + don) = va" "0 \<le> va" using True 1(4-6) by (simp_all add: va_def)
    show ?thesis
    proof (cases "ppn = 0")
      case True
      then have "user_byte pe mem ps pmap va = None" by (simp add: user_byte_def ppn_def)
      moreover obtain m where "nat (len - don) = Suc m" using \<open>don < len\<close> by (cases "nat (len - don)") auto
      ultimately show ?thesis using True va \<open>don < len\<close>
        by (subst user_phys_loop.simps) (simp add: ppn_def va_def)
    next
      case False
      define pa where "pa = ppn * 2 ^ ps + va mod 2 ^ ps"
      have m: "0 \<le> va mod 2 ^ ps" "va mod 2 ^ ps < 2 ^ ps" by simp_all
      have c: "0 < chunk" "va mod 2 ^ ps + chunk \<le> 2 ^ ps" "chunk \<le> len - don"
        using m \<open>don < len\<close> by (auto simp: chunk_def)
      have "0 \<le> ppn" "(ppn + 1) * 2 ^ ps \<le> 2 ^ 64" using 1(3) by (simp_all add: pages_ok_def ppn_def)
      then have pa: "0 \<le> pa" "pa + chunk \<le> 2 ^ 64" using m c(2) by (simp_all add: pa_def algebra_simps)
      have page: "(va + int j) mod 2 ^ ps = va mod 2 ^ ps + int j" if "j < nat chunk" for j
      proof -
        have "(va + int j) mod 2 ^ ps = (va mod 2 ^ ps + int j) mod 2 ^ ps" by (simp add: mod_add_left_eq)
        also have "\<dots> = va mod 2 ^ ps + int j" using that m c by (intro mod_pos_pos_trivial) auto
        finally show ?thesis .
      qed
      have ub: "user_byte pe mem ps pmap (va + int j) = Some (mem (pa + int j))" if "j < nat chunk" for j
      proof -
        have "va + int j - (va + int j) mod 2 ^ ps = va - va mod 2 ^ ps" using page [OF that] by simp
        then have "pmap_find_phys pe pmap (va + int j) = ppn"
          using 1(3) unfolding pages_ok_def ppn_def by metis
        then show ?thesis using False page [OF that] by (simp add: user_byte_def pa_def add.assoc)
      qed
      have k: "to_uint64 pa = pa" using pa c(1) by simp
      have ch: "(if 2 ^ ps - va mod 2 ^ ps > len - don then len - don else 2 ^ ps - va mod 2 ^ ps) = chunk"
        by (simp add: chunk_def min_def)
      have b: "chunk_bytes (ml_phys_read pe) pa 0 chunk = map (\<lambda>j. mem (pa + int j)) [0..<nat chunk]"
        using chunk_bytes_mem [OF 1(2) pa, of 0] by simp
      have ih: "user_phys_loop pe ps pmap uva (don + chunk) len =
          user_bytes (user_byte pe mem ps pmap) (uva + (don + chunk)) (nat (len - (don + chunk)))"
        by (rule 1(1) [OF \<open>don < len\<close> va(1) [symmetric] ppn_def False refl refl, unfolded page_off_mod, OF ch [symmetric]])
           (use 1(2-6) c in auto)
      have "nat (len - don) = nat chunk + nat (len - (don + chunk))" using c by simp
      then have "user_bytes (user_byte pe mem ps pmap) va (nat (len - don)) =
          map (\<lambda>j. mem (pa + int j)) [0..<nat chunk] @
          user_bytes (user_byte pe mem ps pmap) (va + chunk) (nat (len - (don + chunk)))"
        using user_bytes_present [of "nat chunk" "user_byte pe mem ps pmap" va "\<lambda>j. mem (pa + int j)", OF ub] c
        by (simp add: user_bytes_split)
      moreover have "user_phys_loop pe ps pmap uva don len =
          chunk_bytes (ml_phys_read pe) pa 0 chunk @ user_phys_loop pe ps pmap uva (don + chunk) len"
        using \<open>don < len\<close> False
        by (subst user_phys_loop.simps) (simp add: va ppn_def [symmetric] page_off_mod pa_def [symmetric] k ch Let_def del: power_add)
      ultimately show ?thesis using b ih by (simp add: va_def add.assoc)
    qed
  qed
qed

section \<open>Results on memory\<close>

text \<open>
  C9: the copy of user memory through the physical aperture, which reads whole words and
  goes page by page, equals reading the process byte by byte up to the first page
  that is not resident, in both places that have it.
\<close>

theorem user_phys_bytewise:
  assumes "phys_reads pe mem" "pages_ok pe ps" "0 \<le> uva" "uva + len \<le> 2 ^ 64"
  shows "procfs_copy_user_phys pe ps pmap uva len = user_bytes (user_byte pe mem ps pmap) uva (nat len) \<and>
    procfs_read_user_phys pe ps pmap uva len = user_bytes (user_byte pe mem ps pmap) uva (nat len)"
  using user_phys_mem [OF assms(1-3), of 0 len pmap] assms(4)
  by (simp add: procfs_copy_user_phys_def procfs_read_user_phys_def)

text \<open>A machine with 16-byte pages: page 1 of the process is in frame 5, nothing else is.\<close>

definition demo_mem :: "int \<Rightarrow> char" where
  "demo_mem a = (if a mod 2 = 0 then CHR ''a'' else CHR ''b'')"

definition demo_phys :: phys_env where
  "demo_phys = \<lparr> get_task_pmap = Some, pmap_find_phys = (\<lambda>_ va. if va div 16 = 1 then 5 else 0),
     ml_phys_read = (\<lambda>a. le_value (mem_word demo_mem a)) \<rparr>"

lemma demo_phys_ok: "phys_reads demo_phys demo_mem" "pages_ok demo_phys 4"
proof -
  have "(va - va mod 16) div 16 = va div 16" for va :: int by (simp add: minus_mod_eq_mult_div)
  then show "pages_ok demo_phys 4" by (auto simp: pages_ok_def demo_phys_def)
qed (simp add: phys_reads_def demo_phys_def)

lemma demo_user_bytes: "user_bytes (user_byte demo_phys demo_mem 4 pmap) 29 10 = ''bab''"
proof -
  have n: "10 = Suc (Suc (Suc (Suc 6)))" by simp
  show ?thesis by (simp only: n user_bytes.simps) (simp add: user_byte_def demo_phys_def demo_mem_def)
qed

theorem user_phys_bytewise_witness:
  "procfs_copy_user_phys demo_phys 4 0 29 10 = ''bab'' \<and> procfs_read_user_phys demo_phys 4 0 29 10 = ''bab''"
  using user_phys_bytewise [OF demo_phys_ok, of 29 10 0] by (simp add: demo_user_bytes)

lemma page_reads:
  assumes "phys_reads pe mem" "pages_ok pe ps" "0 \<le> uva" "uva + len \<le> 2 ^ 64"
  shows "procfs_read_user_phys pe ps pmap uva len = user_bytes (user_byte pe mem ps pmap) uva (nat len)"
    "procfs_copy_user_phys pe ps pmap uva len = user_bytes (user_byte pe mem ps pmap) uva (nat len)"
  using user_phys_mem [OF assms(1-3), of 0 len pmap] assms(4)
  by (simp_all add: procfs_copy_user_phys_def procfs_read_user_phys_def)

lemma mem_loop_result:
  assumes "phys_reads pe mem" "pages_ok pe ps" "uiomove_ok um"
  shows "0 \<le> uio_offset u \<Longrightarrow> 0 \<le> uio_resid u \<Longrightarrow> uio_offset u + uio_resid u \<le> 2 ^ 64 \<Longrightarrow>
    b = user_bytes (user_byte pe mem ps pmap) (uio_offset u) (nat (uio_resid u)) \<Longrightarrow>
    mem_loop pe ps um pmap any u = Some (if b = [] \<and> \<not> any \<and> 0 < uio_resid u then Some EIO else None, uio_put b u)"
proof (induction "nat (uio_resid u)" arbitrary: u b any rule: less_induct)
  case less
  let ?ub = "user_byte pe mem ps pmap"
  show ?case
  proof (cases "0 < uio_resid u")
    case False
    then show ?thesis using less.prems by (subst mem_loop.simps) simp
  next
    case True
    define va where "va = uio_offset u"
    define chunk where "chunk = min (2 ^ ps - va mod 2 ^ ps) (uio_resid u)"
    define got where "got = user_bytes ?ub va (nat chunk)"
    have v: "to_uint64 (uio_offset u) = va" using less.prems True by (simp add: va_def)
    have c: "0 < chunk" "chunk \<le> uio_resid u" using True by (auto simp: chunk_def)
    have g: "procfs_read_user_phys pe ps pmap va chunk = got"
      using page_reads(1) [OF assms(1,2), of va chunk] less.prems c by (simp add: got_def va_def)
    have ch: "(if 2 ^ ps - va mod 2 ^ ps > uio_resid u then uio_resid u else 2 ^ ps - va mod 2 ^ ps) = chunk"
      by (simp add: chunk_def min_def)
    have l: "length got \<le> nat chunk" using user_bytes_length by (simp add: got_def)
    have um: "um (got, 0) (int (length got)) u = (None, uio_put got u)"
      using uiomove_okD [OF assms(3), of "(got, 0)" "int (length got)" u] l c True
      by (simp add: in_buffer_def uiomove_ref_def min_absorb1)
    have n: "nat (uio_resid u) = nat chunk + nat (uio_resid u - chunk)" using c by simp
    have b: "b = (if length got = nat chunk then got @ user_bytes ?ub (va + chunk) (nat (uio_resid u - chunk)) else got)"
      using less.prems(4) user_bytes_split [of ?ub va "nat chunk" "nat (uio_resid u - chunk)"] c
      by (simp add: n [symmetric] got_def va_def)
    have s: "mem_loop pe ps um pmap any u =
        (if got = [] then Some (if any then None else Some EIO, u)
         else if int (length got) < chunk then Some (None, uio_put got u)
         else mem_loop pe ps um pmap True (uio_put got u))"
      using True by (subst mem_loop.simps) (simp add: v page_off_mod ch g um Let_def)
    show ?thesis
    proof (cases "length got = nat chunk")
      case False
      then show ?thesis using s b l c True by auto
    next
      case full: True
      have "mem_loop pe ps um pmap True (uio_put got u) =
          Some (None, uio_put (user_bytes ?ub (va + chunk) (nat (uio_resid u - chunk))) (uio_put got u))"
        using less.hyps [of "uio_put got u" _ True] less.prems full c by (simp add: va_def)
      then show ?thesis using s b full c True by auto
    qed
  qed
qed

text \<open>
  C20: a read of the mem node always returns, and gives a caller who may access the process
  its memory from the offset on: as many of the wanted bytes as are resident before
  the first hole, and EIO when not even the first is.
\<close>

theorem mem_node_reads:
  assumes "phys_reads pe mem" "pages_ok pe ps" "uiomove_ok um"
    and "proc_find_k k (nodeid_pid (node_id pnp)) = Some p" "proc_task p \<noteq> 0"
      "get_task_pmap pe (proc_task p) = Some pmap" "malloc_ok k (2 ^ ps)"
    and "0 \<le> uio_offset u" "0 \<le> uio_resid u" "uio_offset u + uio_resid u \<le> 2 ^ 64"
    and "b = user_bytes (user_byte pe mem ps pmap) (uio_offset u) (nat (uio_resid u))"
  shows "procfs_domem k pe ps um creds pnp UIO_READ u st =
    (Some (if \<not> may_access creds p then (Some EACCES, u)
           else (if b = [] \<and> 0 < uio_resid u then Some EIO else None, uio_put b u)), st)"
  using assms(4-7) mem_loop_result [OF assms(1-3,8-11), of False]
  by (simp add: procfs_domem_def Let_def)

definition demo_mem_proc :: proc where
  "demo_mem_proc = proc0\<lparr> p_pid := 7, p_task := 99, p_lflag := P_LHASTASK \<rparr>"

definition demo_mem_env :: kenv where
  "demo_mem_env = kenv0\<lparr> proc_find_k := (\<lambda>pid. if pid = 7 then Some demo_mem_proc else None) \<rparr>"

definition demo_mem_node :: pfsnode where
  "demo_mem_node = \<lparr> node_vnode = None, node_attaching_vnode = False, node_thread_waiting_attach = False, node_mnt_id = 1,
     node_id = \<lparr> nodeid_pid = 7, nodeid_objectid = 0, nodeid_base_id = 60 \<rparr>, node_structure_node = 60 \<rparr>"

theorem mem_node_reads_witness:
  "procfs_domem demo_mem_env demo_phys 4 uiomove_ref cred0 demo_mem_node UIO_READ
     \<lparr> uio_offset = 29, uio_resid = 10, uio_out = [] \<rparr> kst0 =
   (Some (None, \<lparr> uio_offset = 32, uio_resid = 7, uio_out = ''bab'' \<rparr>), kst0)"
  using mem_node_reads [OF demo_phys_ok, of uiomove_ref demo_mem_env demo_mem_node demo_mem_proc 99
      "\<lparr> uio_offset = 29, uio_resid = 10, uio_out = [] \<rparr>" "''bab''" cred0 kst0]
  by (simp add: demo_user_bytes demo_mem_env_def demo_mem_node_def kenv0_def may_access_def demo_mem_proc_def proc0_def
      cred0_def proc_task_def P_LHASTASK_def uio_put_def) (simp add: demo_phys_def)

section \<open>Results on arguments\<close>

text \<open>
  The argument region as the kernel lays it out: the executable path, NUL padding,
  the arguments, the environment, and the apple strings, the first of which has
  the key.
\<close>

abbreviation nul :: char where "nul \<equiv> CHR 0x00"

definition cstrings :: "string list \<Rightarrow> bytes" where
  "cstrings ss = concat (map (\<lambda>s. s @ [nul]) ss)"

definition args_region :: "string \<Rightarrow> nat \<Rightarrow> string list \<Rightarrow> string list \<Rightarrow> bytes \<Rightarrow> bytes" where
  "args_region path pad argv env apple =
     path @ nul # replicate pad nul @ cstrings argv @ cstrings env @ apple"

definition is_exec_key :: "bytes \<Rightarrow> bool" where
  "is_exec_key s \<longleftrightarrow> take (length PROCFS_EXEC_KEY) s = PROCFS_EXEC_KEY"

definition args_ok :: "string \<Rightarrow> string list \<Rightarrow> string list \<Rightarrow> bytes \<Rightarrow> bool" where
  "args_ok path argv env apple \<longleftrightarrow>
     nul \<notin> set path \<and> argv \<noteq> [] \<and> hd argv \<noteq> [] \<and> (\<forall>s \<in> set (argv @ env). nul \<notin> set s) \<and>
     (\<forall>s \<in> set env. \<not> is_exec_key s) \<and> is_exec_key apple"

lemma cstrings_simps [simp]: "cstrings [] = []" "cstrings (s # ss) = s @ nul # cstrings ss"
  by (simp_all add: cstrings_def)

lemma strnlen_cstr: "nul \<notin> set s \<Longrightarrow> length s < n \<Longrightarrow> strnlen (s @ nul # r) n = length s"
  by (simp add: strnlen_def take_Cons')

lemma exec_key_nul: "nul \<notin> set s \<Longrightarrow> is_exec_key (s @ nul # r) \<longleftrightarrow> is_exec_key s"
proof (cases "length PROCFS_EXEC_KEY \<le> length s")
  case False
  assume "nul \<notin> set s"
  have k: "nul \<notin> set PROCFS_EXEC_KEY" by (simp add: PROCFS_EXEC_KEY_def)
  have "nul \<in> set (take (length PROCFS_EXEC_KEY) (s @ nul # r))" using False by (simp add: take_Cons')
  then have "\<not> is_exec_key (s @ nul # r)" using k unfolding is_exec_key_def by metis
  moreover have "\<not> is_exec_key s"
    using False by (auto simp: is_exec_key_def dest: arg_cong [where f = length])
  ultimately show ?thesis by simp
qed (simp add: is_exec_key_def)

lemma skip_nuls_pad:
  "(r = [] \<or> hd r \<noteq> nul) \<Longrightarrow> skip_nuls (pre @ replicate k nul @ r) (length pre) = length pre + k"
proof (induction k arbitrary: pre)
  case 0
  then show ?case by (subst skip_nuls.simps) (cases r, auto simp: nth_append)
next
  case (Suc k)
  have "skip_nuls ((pre @ [nul]) @ replicate k nul @ r) (length (pre @ [nul])) = length (pre @ [nul]) + k"
    by (rule Suc.IH [OF Suc.prems])
  then show ?case by (subst skip_nuls.simps) (simp add: nth_append)
qed

lemma skip_args_strings:
  "\<forall>s \<in> set ss. nul \<notin> set s \<Longrightarrow>
    skip_args (pre @ cstrings ss @ r) (length ss) (length pre) = length pre + length (cstrings ss)"
proof (induction ss arbitrary: pre)
  case (Cons s ss)
  have "skip_args ((pre @ s @ [nul]) @ cstrings ss @ r) (length ss) (length (pre @ s @ [nul])) =
      length (pre @ s @ [nul]) + length (cstrings ss)"
    using Cons.prems by (intro Cons.IH) simp
  moreover have "strnlen (s @ nul # cstrings ss @ r) (Suc (length s + (length (cstrings ss) + length r))) = length s"
    using Cons.prems by (intro strnlen_cstr) auto
  ultimately show ?case by (simp add: Let_def add.commute add.left_commute)
qed simp

lemma find_apple_strings:
  "\<forall>s \<in> set ss. nul \<notin> set s \<and> \<not> is_exec_key s \<Longrightarrow> is_exec_key apple \<Longrightarrow>
    find_apple (pre @ cstrings ss @ apple) (length pre) = length pre + length (cstrings ss)"
proof (induction ss arbitrary: pre)
  case Nil
  have "length PROCFS_EXEC_KEY \<le> length apple" "apple \<noteq> []"
    using Nil.prems(2) by (auto simp: is_exec_key_def PROCFS_EXEC_KEY_def dest: arg_cong [where f = length])
  then show ?case using Nil.prems(2) by (subst find_apple.simps) (simp add: is_exec_key_def)
next
  case (Cons s ss)
  have "find_apple ((pre @ s @ [nul]) @ cstrings ss @ apple) (length (pre @ s @ [nul])) =
      length (pre @ s @ [nul]) + length (cstrings ss)"
    using Cons.prems by (intro Cons.IH) simp_all
  moreover have "strnlen (s @ nul # cstrings ss @ apple) (Suc (length s + (length (cstrings ss) + length apple))) = length s"
    using Cons.prems by (intro strnlen_cstr) auto
  moreover have "\<not> is_exec_key (s @ nul # cstrings ss @ apple)" using Cons.prems exec_key_nul by simp
  ultimately show ?case
    by (subst find_apple.simps) (simp add: Let_def is_exec_key_def add.commute add.left_commute)
qed

lemma split_region:
  assumes "args_ok path argv env apple" "r = split_procargs (int (length argv)) (args_region path pad argv env apple)"
  shows "pa_argv r = length path + 1 + pad \<and> pa_env r = pa_argv r + length (cstrings argv) \<and>
    pa_apple r = pa_env r + length (cstrings env)"
proof -
  let ?b = "args_region path pad argv env apple"
  have "strnlen ?b (length ?b) = length path"
    using assms(1) strnlen_cstr [of path "length ?b"] by (simp add: args_region_def args_ok_def)
  moreover have "skip_nuls ((path @ [nul]) @ replicate pad nul @ (cstrings argv @ cstrings env @ apple)) (length (path @ [nul])) =
      length (path @ [nul]) + pad"
    using assms(1) by (intro skip_nuls_pad) (cases argv, auto simp: args_ok_def hd_append, metis hd_in_set)
  ultimately have a: "argv_start ?b = length path + 1 + pad" by (simp add: argv_start_def args_region_def Let_def)
  have "skip_args ((path @ nul # replicate pad nul) @ cstrings argv @ (cstrings env @ apple)) (length argv)
      (length (path @ nul # replicate pad nul)) = length (path @ nul # replicate pad nul) + length (cstrings argv)"
    using assms(1) by (intro skip_args_strings) (simp add: args_ok_def)
  then have e: "skip_args ?b (length argv) (length path + 1 + pad) = length path + 1 + pad + length (cstrings argv)"
    by (simp add: args_region_def)
  have "find_apple ((path @ nul # replicate pad nul @ cstrings argv) @ cstrings env @ apple)
      (length (path @ nul # replicate pad nul @ cstrings argv)) =
      length (path @ nul # replicate pad nul @ cstrings argv) + length (cstrings env)"
    using assms(1) by (intro find_apple_strings) (auto simp: args_ok_def)
  then have "find_apple ?b (length path + 1 + pad + length (cstrings argv)) =
      length path + 1 + pad + length (cstrings argv) + length (cstrings env)"
    by (simp add: args_region_def add.assoc)
  then show ?thesis using a e assms(2) by (simp add: split_procargs_def Let_def)
qed

lemma copy_section_delivers:
  assumes "uiomove_ok um" "buf = pre @ mid @ post" "from = length pre" "till = from + length mid" "length mid < 2 ^ 31"
    and "0 \<le> uio_offset u" "uio_offset u \<le> int (length mid)" "0 \<le> uio_resid u"
  shows "copy_section um buf from till u =
    (None, uio_put (take (nat (uio_resid u)) (drop (nat (uio_offset u)) mid)) u)"
  using copy_data_delivers [OF assms(1), of "length mid" "mid @ post" u] assms by (simp add: copy_section_def)

text \<open>The process has this region at the top of its stack, resident, and it is read whole.\<close>

definition holds_args :: "phys_env \<Rightarrow> (int \<Rightarrow> char) \<Rightarrow> nat \<Rightarrow> proc \<Rightarrow> bytes \<Rightarrow> bool" where
  "holds_args pe mem ps p region \<longleftrightarrow>
     (\<exists>pmap. proc_task p \<noteq> 0 \<and> get_task_pmap pe (proc_task p) = Some pmap \<and> 0 < p_argc p \<and>
        p_argslen p = int (length region + length PROCFS_EXEC_KEY) \<and>
        0 < length region \<and> int (length region) \<le> PROCFS_CMDLINE_MAX \<and>
        int (length region) < p_user_stack p \<and> p_user_stack p < 2 ^ 64 \<and>
        user_bytes (user_byte pe mem ps pmap) (p_user_stack p - int (length region)) (length region) = region)"

lemma read_procargs_region:
  assumes "phys_reads pe mem" "pages_ok pe ps" "\<And>n. malloc_ok k n" "holds_args pe mem ps p region"
  shows "procfs_read_procargs k pe ps p st =
    (Inr (split_procargs (p_argc p) region), st\<lparr> mallocs := mallocs st + 1 \<rparr>)"
proof -
  obtain pmap where h: "proc_task p \<noteq> 0" "get_task_pmap pe (proc_task p) = Some pmap" "0 < p_argc p"
      "p_argslen p = int (length region + length PROCFS_EXEC_KEY)" "region \<noteq> []" "int (length region) \<le> PROCFS_CMDLINE_MAX"
      "int (length region) < p_user_stack p" "p_user_stack p < 2 ^ 64"
      "user_bytes (user_byte pe mem ps pmap) (p_user_stack p - int (length region)) (length region) = region"
    using assms(4) by (auto simp: holds_args_def)
  have "procfs_copy_user_phys pe ps pmap (p_user_stack p - int (length region)) (int (length region)) = region"
    using page_reads(2) [OF assms(1,2), of "p_user_stack p - int (length region)" "int (length region)" pmap] h(7-9) by simp
  then show ?thesis using h assms(3) by (simp add: procfs_read_procargs_def Let_def)
qed

text \<open>
  C12: the cmdline, environ and auxv nodes of a process whose argument region was laid
  out from its arguments, environment and apple strings show exactly these, each
  string with its NUL: splitting the region undoes laying it out.
\<close>

theorem procargs_round_trip:
  assumes "phys_reads pe mem" "pages_ok pe ps" "uiomove_ok um" "\<forall>n. malloc_ok k n"
    and "proc_find_k k (nodeid_pid (node_id pnp)) = Some p" "\<not> no_user_stack p"
    and "args_ok path argv env apple" "holds_args pe mem ps p (args_region path pad argv env apple)"
      "p_argc p = int (length argv)"
    and "uio_offset u = 0" "0 \<le> uio_resid u"
  shows "procfs_doprocargs k pe ps um pnp UIO_READ u st = ((None, uio_put (take (nat (uio_resid u)) (cstrings argv)) u), st) \<and>
    procfs_doenviron k pe ps um pnp UIO_READ u st = ((None, uio_put (take (nat (uio_resid u)) (cstrings env)) u), st) \<and>
    procfs_doauxv k pe ps False um pnp UIO_READ u st = ((None, uio_put (take (nat (uio_resid u)) apple) u), st)"
proof -
  define b where "b = args_region path pad argv env apple"
  define r where "r = split_procargs (int (length argv)) b"
  have s: "pa_argv r = length path + 1 + pad" "pa_env r = pa_argv r + length (cstrings argv)"
      "pa_apple r = pa_env r + length (cstrings env)" and b: "pa_buf r = b"
    using split_region [OF assms(7) r_def [unfolded b_def]] by (auto, simp add: r_def split_procargs_def Let_def)
  have rd: "procfs_read_procargs k pe ps p st1 = (Inr r, st1\<lparr> mallocs := mallocs st1 + 1 \<rparr>)" for st1
    using read_procargs_region [OF assms(1,2) _ assms(8)] assms(4,9) by (simp add: r_def b_def)
  have l: "length b < 2 ^ 31" using assms(8) by (auto simp: holds_args_def b_def PROCFS_CMDLINE_MAX_def)
  have u: "0 \<le> uio_offset u" "uio_offset u \<le> int n" for n using assms(10) by simp_all
  note sec = copy_section_delivers [OF assms(3) _ _ _ _ u assms(11)]
  have x: "copy_section um b (pa_argv r) (pa_env r) u = (None, uio_put (take (nat (uio_resid u)) (cstrings argv)) u)"
    "copy_section um b (pa_env r) (pa_apple r) u = (None, uio_put (take (nat (uio_resid u)) (cstrings env)) u)"
    "copy_section um b (pa_apple r) (length b) u = (None, uio_put (take (nat (uio_resid u)) apple) u)"
    using sec [of b "path @ nul # replicate pad nul" "cstrings argv" "cstrings env @ apple" "pa_argv r" "pa_env r"]
      sec [of b "path @ nul # replicate pad nul @ cstrings argv" "cstrings env" apple "pa_env r" "pa_apple r"]
      sec [of b "path @ nul # replicate pad nul @ cstrings argv @ cstrings env" apple "[]" "pa_apple r" "length b"] s l assms(10)
    by (simp_all add: b_def args_region_def)
  show ?thesis
    using assms(5,6) rd b x
    by (simp add: procfs_doprocargs_def procfs_doprocargs_helper_def procfs_doenviron_def procfs_doauxv_def Let_def)
qed

definition demo_region :: bytes where
  "demo_region = args_region ''/p'' 1 [''ls'', ''-l''] [''A=1''] ''executable_path=/p''"

definition demo_args_mem :: "int \<Rightarrow> char" where
  "demo_args_mem a = (if 0 \<le> a - 8160 \<and> a - 8160 < 32 then demo_region ! nat (a - 8160) else CHR ''x'')"

definition demo_args_phys :: phys_env where
  "demo_args_phys = \<lparr> get_task_pmap = Some, pmap_find_phys = (\<lambda>_ va. if va div 4096 = 1 then 1 else 0),
     ml_phys_read = (\<lambda>a. le_value (mem_word demo_args_mem a)) \<rparr>"

lemma demo_args_phys_ok: "phys_reads demo_args_phys demo_args_mem" "pages_ok demo_args_phys 12"
proof -
  have "(va - va mod 4096) div 4096 = va div 4096" for va :: int by (simp add: minus_mod_eq_mult_div)
  then show "pages_ok demo_args_phys 12" by (auto simp: pages_ok_def demo_args_phys_def)
qed (simp add: phys_reads_def demo_args_phys_def)

definition demo_args_proc :: proc where
  "demo_args_proc = demo_mem_proc\<lparr> p_argc := 2, p_argslen := 48, p_user_stack := 8192 \<rparr>"

lemma demo_holds_args: "holds_args demo_args_phys demo_args_mem 12 demo_args_proc demo_region"
proof -
  have l: "length demo_region = 32" by (simp add: demo_region_def args_region_def)
  have "user_byte demo_args_phys demo_args_mem 12 99 (8160 + int j) = Some (demo_region ! j)" if "j < 32" for j
  proof -
    have e: "8160 + int j = 4064 + int j + 1 * 4096" by simp
    have "(8160 + int j) div 4096 = 1" "(8160 + int j) mod 4096 = 4064 + int j"
      unfolding e using that by (simp_all only: div_mult_self1 mod_mult_self1) simp_all
    then show ?thesis using that by (simp add: user_byte_def demo_args_phys_def demo_args_mem_def)
  qed
  then have "user_bytes (user_byte demo_args_phys demo_args_mem 12 99) 8160 32 = map (\<lambda>j. demo_region ! j) [0..<32]"
    by (intro user_bytes_present) blast
  moreover have "map (\<lambda>j. demo_region ! j) [0..<32] = demo_region" using map_nth [of demo_region] l by simp
  ultimately show ?thesis
    unfolding holds_args_def
    by (intro exI [of _ 99])
       (simp add: l demo_args_proc_def demo_mem_proc_def proc0_def proc_task_def P_LHASTASK_def PROCFS_EXEC_KEY_def
         PROCFS_CMDLINE_MAX_def, simp add: demo_args_phys_def)
qed

definition demo_args_env :: kenv where
  "demo_args_env = kenv0\<lparr> proc_find_k := (\<lambda>_. Some demo_args_proc) \<rparr>"

lemma demo_args_ok:
  "args_ok ''/p'' [''ls'', ''-l''] [''A=1''] ''executable_path=/p''" "\<forall>n. malloc_ok demo_args_env n"
  "proc_find_k demo_args_env pid = Some demo_args_proc" "\<not> no_user_stack demo_args_proc"
  "p_argc demo_args_proc = int (length [''ls'', ''-l''])"
  by (simp_all add: args_ok_def is_exec_key_def PROCFS_EXEC_KEY_def demo_args_env_def kenv0_def no_user_stack_def
      demo_args_proc_def demo_mem_proc_def proc0_def SZOMB_def)

theorem procargs_round_trip_witness:
  "procfs_doprocargs demo_args_env demo_args_phys 12 uiomove_ref demo_mem_node UIO_READ
     \<lparr> uio_offset = 0, uio_resid = 100, uio_out = [] \<rparr> kst0 =
   ((None, \<lparr> uio_offset = 6, uio_resid = 94, uio_out = ''ls'' @ nul # ''-l'' @ [nul] \<rparr>), kst0)"
  using procargs_round_trip [OF demo_args_phys_ok uiomove_ok_ref demo_args_ok(2-4,1) demo_holds_args [unfolded demo_region_def]
      demo_args_ok(5), of "\<lparr> uio_offset = 0, uio_resid = 100, uio_out = [] \<rparr>" demo_mem_node kst0]
  by (simp add: uio_put_def)

text \<open>
  A process whose first argument is the empty string is split wrongly: its NUL is
  taken for padding, so the arguments end one string too late and the first
  variable of the environment is shown as an argument.
\<close>

lemma procargs_empty_argv0:
  "pa_env (split_procargs 2 (args_region ''/p'' 0 [[], ''x''] [''A=1''] ''executable_path=/p'')) =
     length (''/p'' @ nul # cstrings [[], ''x''] @ cstrings [''A=1''])"
  by (simp add: split_procargs_def args_region_def argv_start_def strnlen_def cstr_def skip_nuls.simps numeral_2_eq_2 Let_def)

end
