(* ===== verification/Ctl.thy ===== *)
theory Ctl
imports Kernel
begin

text \<open>
  The kernel control bridge: \<^verbatim>\<open>kext/procfs_ctl.c\<close>, its wire protocol
  \<^verbatim>\<open>include/fs/procfs/procfs_ctl.h\<close> and the server loop of \<^verbatim>\<open>tools/procfsd.c\<close>. A
  request takes one of 16 slots, sends a packet to the daemon, sleeps until a
  response with its sequence number fills the slot or two seconds pass, and
  frees the slot. Requests of any number of threads, the daemon, lost packets,
  connects and disconnects interleave; the sections under the mutex are atomic.
  Proved over all interleavings: slots are owned by one request and none is
  lost, and a successful request returns what the daemon answered to it.
\<close>

section \<open>Wire protocol\<close>

definition PROCFS_CTL_MAGIC :: int where "PROCFS_CTL_MAGIC = 0x50524F43"
definition PROCFS_CTL_MAXPAYLOAD :: nat where "PROCFS_CTL_MAXPAYLOAD = 2048"
definition PROCFS_CTL_SLOTS :: nat where "PROCFS_CTL_SLOTS = 16"

definition PROCFS_REQ_TASKINFO :: int where "PROCFS_REQ_TASKINFO = 1"
definition PROCFS_REQ_THREADINFO :: int where "PROCFS_REQ_THREADINFO = 2"
definition PROCFS_REQ_VMSTAT :: int where "PROCFS_REQ_VMSTAT = 3"
definition PROCFS_REQ_LOADAVG :: int where "PROCFS_REQ_LOADAVG = 4"
definition PROCFS_REQ_REGS :: int where "PROCFS_REQ_REGS = 5"
definition PROCFS_REQ_FPREGS :: int where "PROCFS_REQ_FPREGS = 6"

record procfs_ctl_req =
  req_magic :: int
  req_seq :: int
  req_type :: int
  req_pid :: int
  req_arg :: int

record procfs_ctl_resp =
  resp_magic :: int
  resp_seq :: int
  resp_error :: int
  resp_len :: int

text \<open>The structures in memory: little-endian fields without padding.\<close>

definition put_req :: "procfs_ctl_req \<Rightarrow> bytes" where
  "put_req r = le_bytes 4 (req_magic r) @ le_bytes 4 (req_seq r) @ le_bytes 4 (req_type r) @
     le_bytes 4 (req_pid r) @ le_bytes 8 (req_arg r)"

definition get_field :: "nat \<Rightarrow> nat \<Rightarrow> bytes \<Rightarrow> int" where
  "get_field off n b = le_value (take n (drop off b))"

definition get_req :: "bytes \<Rightarrow> procfs_ctl_req" where
  "get_req b = \<lparr> req_magic = get_field 0 4 b, req_seq = get_field 4 4 b, req_type = get_field 8 4 b,
     req_pid = to_int32 (get_field 12 4 b), req_arg = get_field 16 8 b \<rparr>"

definition put_resp :: "procfs_ctl_resp \<Rightarrow> bytes" where
  "put_resp r = le_bytes 4 (resp_magic r) @ le_bytes 4 (resp_seq r) @ le_bytes 4 (resp_error r) @
     le_bytes 4 (resp_len r)"

definition get_resp :: "bytes \<Rightarrow> procfs_ctl_resp" where
  "get_resp b = \<lparr> resp_magic = get_field 0 4 b, resp_seq = get_field 4 4 b,
     resp_error = to_int32 (get_field 8 4 b), resp_len = get_field 12 4 b \<rparr>"

definition sizeof_req :: nat where "sizeof_req = 24"
definition sizeof_resp :: nat where "sizeof_resp = 16"

section \<open>The kernel side\<close>

record procfs_ctl_slot =
  sl_in_use :: bool
  sl_done :: bool
  sl_seq :: int
  sl_error :: int
  sl_len :: nat
  sl_buf :: bytes

record ctl =
  g_ctl_ref :: bool
  g_ctl_unit :: int
  g_ctl_connected :: bool
  g_ctl_grp :: bool
  g_ctl_lock :: bool
  g_ctl_seq :: int
  g_ctl_slots :: "procfs_ctl_slot list"

definition slot0 :: procfs_ctl_slot where
  "slot0 = \<lparr> sl_in_use = False, sl_done = False, sl_seq = 0, sl_error = 0, sl_len = 0,
     sl_buf = replicate PROCFS_CTL_MAXPAYLOAD (CHR 0x00) \<rparr>"

definition ctl0 :: ctl where
  "ctl0 = \<lparr> g_ctl_ref = False, g_ctl_unit = 0, g_ctl_connected = False, g_ctl_grp = False,
     g_ctl_lock = False, g_ctl_seq = 0, g_ctl_slots = replicate PROCFS_CTL_SLOTS slot0 \<rparr>"

definition procfs_ctl_connect :: "int \<Rightarrow> ctl \<Rightarrow> ctl" where
  "procfs_ctl_connect sc_unit c = c\<lparr> g_ctl_unit := sc_unit, g_ctl_connected := True \<rparr>"

definition disconnect_slot :: "procfs_ctl_slot \<Rightarrow> procfs_ctl_slot" where
  "disconnect_slot s =
     (if sl_in_use s \<and> \<not> sl_done s then s\<lparr> sl_error := errno_code ENOTCONN, sl_done := True \<rparr> else s)"

definition procfs_ctl_disconnect :: "ctl \<Rightarrow> ctl" where
  "procfs_ctl_disconnect c =
     c\<lparr> g_ctl_connected := False, g_ctl_slots := map disconnect_slot (g_ctl_slots c) \<rparr>"

text \<open>The index of the first slot with a property.\<close>

fun first_slot :: "(procfs_ctl_slot \<Rightarrow> bool) \<Rightarrow> nat \<Rightarrow> procfs_ctl_slot list \<Rightarrow> nat option" where
  "first_slot P i [] = None"
| "first_slot P i (s # ss) = (if P s then Some i else first_slot P (i + 1) ss)"

text \<open>
  A response packet \<open>m\<close>: the payload is copied only if the packet contains all of
  it, the length is recorded in any case.
\<close>

definition fill_slot :: "bytes \<Rightarrow> procfs_ctl_resp \<Rightarrow> nat \<Rightarrow> procfs_ctl_slot \<Rightarrow> procfs_ctl_slot" where
  "fill_slot m resp plen s =
     (let s = (if plen > 0 \<and> length m \<ge> sizeof_resp + plen
               then s\<lparr> sl_buf := take plen (drop sizeof_resp m) @ drop plen (sl_buf s) \<rparr> else s)
      in s\<lparr> sl_len := plen, sl_error := resp_error resp, sl_done := True \<rparr>)"

definition procfs_ctl_send :: "bytes \<Rightarrow> ctl \<Rightarrow> ctl" where
  "procfs_ctl_send m c =
     (if length m \<ge> sizeof_resp \<and> resp_magic (get_resp m) = PROCFS_CTL_MAGIC then
        (let resp = get_resp m; plen = min (nat (resp_len resp)) PROCFS_CTL_MAXPAYLOAD
         in case first_slot (\<lambda>s. sl_in_use s \<and> \<not> sl_done s \<and> sl_seq s = resp_seq resp) 0 (g_ctl_slots c) of
              None \<Rightarrow> c
            | Some i \<Rightarrow> c\<lparr> g_ctl_slots := (g_ctl_slots c)[i := fill_slot m resp plen (g_ctl_slots c ! i)] \<rparr>)
      else c)"

text \<open>
  The sections of \<open>procfs_ctl_request\<close>: the test without the mutex, the claim of a
  slot, the look at the slot after the wait, the release.
\<close>

definition ctl_available :: "ctl \<Rightarrow> bool" where
  "ctl_available c \<longleftrightarrow> g_ctl_connected c \<and> g_ctl_ref c"

definition next_seq :: "int \<Rightarrow> int" where
  "next_seq s = (let s' = to_uint32 (s + 1) in if s' = 0 then to_uint32 (s' + 1) else s')"

definition claim_slot :: "ctl \<Rightarrow> (nat \<times> ctl) option" where
  "claim_slot c =
     (case first_slot (\<lambda>s. \<not> sl_in_use s) 0 (g_ctl_slots c) of
        None \<Rightarrow> None
      | Some i \<Rightarrow>
          (let sq = next_seq (g_ctl_seq c)
           in Some (i, c\<lparr> g_ctl_seq := sq,
                 g_ctl_slots := (g_ctl_slots c)[i := (g_ctl_slots c ! i)
                   \<lparr> sl_in_use := True, sl_done := False, sl_seq := sq, sl_error := 0, sl_len := 0 \<rparr>] \<rparr>)))"

text \<open>The arguments are converted to the types of the fields.\<close>

definition make_req :: "int \<Rightarrow> int \<Rightarrow> int \<Rightarrow> int \<Rightarrow> procfs_ctl_req" where
  "make_req sq type pid arg = \<lparr> req_magic = PROCFS_CTL_MAGIC, req_seq = sq, req_type = to_uint32 type,
     req_pid = to_int32 pid, req_arg = to_uint64 arg \<rparr>"

definition slot_result :: "procfs_ctl_slot \<Rightarrow> nat \<Rightarrow> errno + bytes" where
  "slot_result s outcap =
     (if sl_done s then
        (case err_of (sl_error s) of
           Some e \<Rightarrow> Inl e
         | None \<Rightarrow> Inr (take (min (sl_len s) outcap) (sl_buf s)))
      else Inl ETIMEDOUT)"

definition release_slot :: "nat \<Rightarrow> ctl \<Rightarrow> ctl" where
  "release_slot i c = c\<lparr> g_ctl_slots := (g_ctl_slots c)[i := (g_ctl_slots c ! i)\<lparr> sl_in_use := False \<rparr>] \<rparr>"

text \<open>
  Registration: whether the lock group, the lock and the control are obtained is
  up to the kernel. \<open>True\<close> is \<^verbatim>\<open>KERN_SUCCESS\<close>.
\<close>

definition procfs_ctl_register :: "bool \<Rightarrow> bool \<Rightarrow> bool \<Rightarrow> ctl \<Rightarrow> bool \<times> ctl" where
  "procfs_ctl_register grp_ok lock_ok reg_ok c =
     (let c = c\<lparr> g_ctl_grp := grp_ok \<rparr>
      in if \<not> grp_ok then (False, c)
         else let c = c\<lparr> g_ctl_lock := lock_ok \<rparr>
              in if \<not> lock_ok then (False, c\<lparr> g_ctl_grp := False \<rparr>)
                 else if \<not> reg_ok then (False, c\<lparr> g_ctl_lock := False, g_ctl_grp := False \<rparr>)
                 else (True, c\<lparr> g_ctl_ref := True \<rparr>))"

definition procfs_ctl_deregister :: "ctl \<Rightarrow> ctl" where
  "procfs_ctl_deregister c =
     (let c = (if g_ctl_ref c then c\<lparr> g_ctl_ref := False \<rparr> else c);
          c = c\<lparr> g_ctl_connected := False \<rparr>;
          c = (if g_ctl_lock c then c\<lparr> g_ctl_lock := False \<rparr> else c)
      in if g_ctl_grp c then c\<lparr> g_ctl_grp := False \<rparr> else c)"

section \<open>The daemon side\<close>

text \<open>
  What the daemon's system calls report: \<^verbatim>\<open>proc_pidinfo\<close> by pid, flavor and argument
  (\<open>Inl\<close> of \<^verbatim>\<open>errno\<close> for a negative result, otherwise the bytes filled in), the
  virtual memory statistics, the three load averages as the scaled integers,
  the task port of a pid with its threads, the thread state, and the number of
  32-bit words the two register flavors have on the machine.
\<close>

record daemon_env =
  de_pidinfo :: "int \<Rightarrow> int \<Rightarrow> int \<Rightarrow> int + bytes"
  de_vmstat :: "bytes option"
  de_loadavg :: "int list"
  de_task :: "int \<Rightarrow> nat list option option"
  de_state :: "nat \<Rightarrow> int \<Rightarrow> bytes option"
  de_state_count :: "int \<Rightarrow> nat"
  de_sizeof_taskinfo :: nat
  de_sizeof_threadinfo :: nat

definition PROC_PIDTASKINFO :: int where "PROC_PIDTASKINFO = 4"
definition PROC_PIDTHREADID64INFO :: int where "PROC_PIDTHREADID64INFO = 15"

text \<open>A reply: the error and the payload, whose length is \<^verbatim>\<open>resp->len\<close>.\<close>

type_synonym reply = "int \<times> bytes"

definition procfsd_handle_regs :: "daemon_env \<Rightarrow> procfs_ctl_req \<Rightarrow> reply" where
  "procfsd_handle_regs de req =
     (case de_task de (req_pid req) of
        None \<Rightarrow> (errno_code EPERM, [])
      | Some ths \<Rightarrow>
          (case ths of
             None \<Rightarrow> (errno_code ESRCH, [])
           | Some [] \<Rightarrow> (errno_code ESRCH, [])
           | Some (th # _) \<Rightarrow>
               if de_state_count de (req_type req) * 4 \<le> PROCFS_CTL_MAXPAYLOAD then
                 (case de_state de th (req_type req) of
                    Some b \<Rightarrow> (0, take (de_state_count de (req_type req) * 4) b)
                  | None \<Rightarrow> (errno_code EIO, []))
               else (errno_code (EOther 40), [])))"

definition serve_pidinfo :: "daemon_env \<Rightarrow> int \<Rightarrow> int \<Rightarrow> int \<Rightarrow> nat \<Rightarrow> reply" where
  "serve_pidinfo de pid flavor arg sz =
     (case de_pidinfo de pid flavor arg of
        Inl e \<Rightarrow> (to_int32 e, [])
      | Inr b \<Rightarrow> if length b = sz then (0, b) else (errno_code ESRCH, []))"

definition procfsd_serve :: "daemon_env \<Rightarrow> procfs_ctl_req \<Rightarrow> reply" where
  "procfsd_serve de req =
     (if req_type req = PROCFS_REQ_TASKINFO then
        serve_pidinfo de (req_pid req) PROC_PIDTASKINFO 0 (de_sizeof_taskinfo de)
      else if req_type req = PROCFS_REQ_THREADINFO then
        serve_pidinfo de (req_pid req) PROC_PIDTHREADID64INFO (req_arg req) (de_sizeof_threadinfo de)
      else if req_type req = PROCFS_REQ_VMSTAT then
        (case de_vmstat de of
           Some b \<Rightarrow> (0, take PROCFS_CTL_MAXPAYLOAD b)
         | None \<Rightarrow> (errno_code EIO, []))
      else if req_type req = PROCFS_REQ_LOADAVG then
        (0, concat (map (le_bytes 4) (take 3 (de_loadavg de @ [0, 0, 0]))))
      else if req_type req = PROCFS_REQ_REGS \<or> req_type req = PROCFS_REQ_FPREGS then
        procfsd_handle_regs de req
      else (errno_code EINVAL, []))"

text \<open>One round of the server loop: the packet to send for a packet received.\<close>

definition procfsd_round :: "daemon_env \<Rightarrow> bytes \<Rightarrow> bytes option" where
  "procfsd_round de rbuf =
     (if length rbuf < sizeof_req then None
      else let req = get_req rbuf
           in if req_magic req \<noteq> PROCFS_CTL_MAGIC then None
              else case procfsd_serve de req of
                     (e, payload) \<Rightarrow>
                       Some (put_resp \<lparr> resp_magic = PROCFS_CTL_MAGIC, resp_seq = req_seq req,
                               resp_error = e, resp_len = int (length payload) \<rparr> @ payload))"

text \<open>The structures the daemon copies out fit the payload.\<close>

definition daemon_ok :: "daemon_env \<Rightarrow> bool" where
  "daemon_ok de \<longleftrightarrow> de_sizeof_taskinfo de \<le> PROCFS_CTL_MAXPAYLOAD \<and> de_sizeof_threadinfo de \<le> PROCFS_CTL_MAXPAYLOAD"

section \<open>Interleavings\<close>

datatype rpc =
    R_idle | R_checked | R_enqueue nat | R_wait nat | R_release nat "errno + bytes" | R_done "errno + bytes"

record rthread =
  r_pc :: rpc
  r_req :: procfs_ctl_req
  r_cap :: nat

text \<open>
  The statics, the threads, the packets on their way to the daemon, its answers
  with the packet answered on their way back, and two histories: the requests
  sent and the answers delivered.
\<close>

record csys =
  s_ctl :: ctl
  s_thr :: "nat \<Rightarrow> rthread"
  s_queue :: "bytes list"
  s_replies :: "(bytes \<times> bytes) list"
  s_hist :: "procfs_ctl_req list"
  s_log :: "(bytes \<times> bytes) list"

definition csys0 :: csys where
  "csys0 = \<lparr> s_ctl = snd (procfs_ctl_register True True True ctl0),
     s_thr = (\<lambda>_. \<lparr> r_pc = R_idle, r_req = make_req 0 0 0 0, r_cap = 0 \<rparr>),
     s_queue = [], s_replies = [], s_hist = [], s_log = [] \<rparr>"

datatype cevent =
    Ev_request nat int int int nat
  | Ev_begin nat
  | Ev_enqueue nat err
  | Ev_wake nat bool
  | Ev_release nat
  | Ev_return nat
  | Ev_connect int
  | Ev_disconnect
  | Ev_serve daemon_env
  | Ev_deliver
  | Ev_lose_request
  | Ev_lose_reply

definition set_rpc :: "nat \<Rightarrow> rpc \<Rightarrow> csys \<Rightarrow> csys" where
  "set_rpc t pc s = s\<lparr> s_thr := (s_thr s)(t := (s_thr s t)\<lparr> r_pc := pc \<rparr>) \<rparr>"

fun ctl_event :: "cevent \<Rightarrow> csys \<Rightarrow> csys option" where
  "ctl_event (Ev_request t type pid arg cap) s =
     (if r_pc (s_thr s t) = R_idle then
        Some (s\<lparr> s_thr := (s_thr s)(t :=
          \<lparr> r_pc = (if ctl_available (s_ctl s) then R_checked else R_done (Inl ENOTCONN)),
            r_req = make_req 0 type pid arg, r_cap = cap \<rparr>) \<rparr>)
      else None)"
| "ctl_event (Ev_begin t) s =
     (if r_pc (s_thr s t) = R_checked then
        (case claim_slot (s_ctl s) of
           None \<Rightarrow> Some (set_rpc t (R_done (Inl EBUSY)) s)
         | Some (i, c) \<Rightarrow>
             (let r = (r_req (s_thr s t))\<lparr> req_seq := g_ctl_seq c \<rparr>
              in Some (s\<lparr> s_ctl := c, s_hist := s_hist s @ [r],
                   s_thr := (s_thr s)(t := (s_thr s t)\<lparr> r_pc := R_enqueue i, r_req := r \<rparr>) \<rparr>)))
      else None)"
| "ctl_event (Ev_enqueue t e) s =
     (case r_pc (s_thr s t) of
        R_enqueue i \<Rightarrow>
          (case e of
             Some er \<Rightarrow> Some (set_rpc t (R_release i (Inl er)) s)
           | None \<Rightarrow> Some (set_rpc t (R_wait i) (s\<lparr> s_queue := s_queue s @ [put_req (r_req (s_thr s t))] \<rparr>)))
      | _ \<Rightarrow> None)"
| "ctl_event (Ev_wake t r) s =
     (case r_pc (s_thr s t) of
        R_wait i \<Rightarrow>
          (let sl = g_ctl_slots (s_ctl s) ! i
           in if sl_done sl \<or> r then Some (set_rpc t (R_release i (slot_result sl (r_cap (s_thr s t)))) s) else Some s)
      | _ \<Rightarrow> None)"
| "ctl_event (Ev_release t) s =
     (case r_pc (s_thr s t) of
        R_release i res \<Rightarrow> Some (set_rpc t (R_done res) (s\<lparr> s_ctl := release_slot i (s_ctl s) \<rparr>))
      | _ \<Rightarrow> None)"
| "ctl_event (Ev_return t) s =
     (case r_pc (s_thr s t) of R_done res \<Rightarrow> Some (set_rpc t R_idle s) | _ \<Rightarrow> None)"
| "ctl_event (Ev_connect u) s = Some (s\<lparr> s_ctl := procfs_ctl_connect u (s_ctl s) \<rparr>)"
| "ctl_event Ev_disconnect s = Some (s\<lparr> s_ctl := procfs_ctl_disconnect (s_ctl s) \<rparr>)"
| "ctl_event (Ev_serve de) s =
     (case s_queue s of
        [] \<Rightarrow> None
      | p # ps \<Rightarrow>
          if daemon_ok de then
            Some (s\<lparr> s_queue := ps,
               s_replies := (case procfsd_round de p of None \<Rightarrow> s_replies s | Some m \<Rightarrow> s_replies s @ [(p, m)]) \<rparr>)
          else None)"
| "ctl_event Ev_deliver s =
     (case s_replies s of
        [] \<Rightarrow> None
      | (p, m) # rs \<Rightarrow> Some (s\<lparr> s_replies := rs, s_ctl := procfs_ctl_send m (s_ctl s), s_log := (p, m) # s_log s \<rparr>))"
| "ctl_event Ev_lose_request s =
     (case s_queue s of [] \<Rightarrow> None | p # ps \<Rightarrow> Some (s\<lparr> s_queue := ps \<rparr>))"
| "ctl_event Ev_lose_reply s =
     (case s_replies s of [] \<Rightarrow> None | p # ps \<Rightarrow> Some (s\<lparr> s_replies := ps \<rparr>))"

inductive ctl_reach :: "csys \<Rightarrow> bool" where
  ctl_init: "ctl_reach csys0"
| ctl_step: "ctl_reach s \<Longrightarrow> ctl_event e s = Some s' \<Longrightarrow> ctl_reach s'"

section \<open>Round trip of the structures\<close>

definition req_valid :: "procfs_ctl_req \<Rightarrow> bool" where
  "req_valid r \<longleftrightarrow> req_magic r = PROCFS_CTL_MAGIC \<and> 0 \<le> req_seq r \<and> req_seq r < 2 ^ 32 \<and>
     0 \<le> req_type r \<and> req_type r < 2 ^ 32 \<and> - (2 ^ 31) \<le> req_pid r \<and> req_pid r < 2 ^ 31 \<and>
     0 \<le> req_arg r \<and> req_arg r < 2 ^ 64"

lemma get_field_head: "n = length a \<Longrightarrow> get_field 0 n (a @ b) = le_value a"
  by (simp add: get_field_def)

lemma get_field_skip: "length a \<le> off \<Longrightarrow> get_field off n (a @ b) = get_field (off - length a) n b"
  by (simp add: get_field_def)

lemma get_field_all: "n = length a \<Longrightarrow> get_field 0 n a = le_value a"
  by (simp add: get_field_def)

lemmas field_simps' = get_field_head get_field_skip get_field_all le_value_bytes

lemma to_int32_mod_id: "- (2 ^ 31) \<le> x \<Longrightarrow> x < 2 ^ 31 \<Longrightarrow> to_int32 (x mod 4294967296) = x"
  by (simp add: to_int32_def mod_add_left_eq)

lemma get_put_req: "req_valid r \<Longrightarrow> get_req (put_req r) = r"
  by (cases r) (simp add: get_req_def put_req_def field_simps' req_valid_def PROCFS_CTL_MAGIC_def to_int32_mod_id)

lemma length_put_req [simp]: "length (put_req r) = sizeof_req"
  by (simp add: put_req_def sizeof_req_def)

lemma length_put_resp [simp]: "length (put_resp r) = sizeof_resp"
  by (simp add: put_resp_def sizeof_resp_def)

lemma get_put_resp:
  assumes "0 \<le> resp_magic r" "resp_magic r < 2 ^ 32" "0 \<le> resp_seq r" "resp_seq r < 2 ^ 32"
    "- (2 ^ 31) \<le> resp_error r" "resp_error r < 2 ^ 31" "0 \<le> resp_len r" "resp_len r < 2 ^ 32"
  shows "get_resp (put_resp r @ b) = r"
  using assms
  by (cases r) (simp add: get_resp_def put_resp_def field_simps' to_int32_mod_id)

lemma to_uint32_bounds: "0 \<le> to_uint32 x \<and> to_uint32 x < 2 ^ 32"
  by (simp add: to_uint32_def)

lemma to_uint64_bounds: "0 \<le> to_uint64 x \<and> to_uint64 x < 2 ^ 64"
  by (simp add: to_uint64_def)

lemma make_req_valid: "0 \<le> sq \<Longrightarrow> sq < 2 ^ 32 \<Longrightarrow> req_valid (make_req sq type pid arg)"
  using to_int32_bounds [of pid] to_uint32_bounds [of type] to_uint64_bounds [of arg]
  by (simp add: req_valid_def make_req_def)

section \<open>The daemon's answers\<close>

lemma serve_bounds:
  assumes "daemon_ok de" "procfsd_serve de r = (e, payload)"
  shows "- (2 ^ 31) \<le> e \<and> e < 2 ^ 31 \<and> length payload \<le> PROCFS_CTL_MAXPAYLOAD"
proof -
  have p: "serve_pidinfo de pid fl arg sz = (e, payload) \<Longrightarrow> sz \<le> PROCFS_CTL_MAXPAYLOAD \<Longrightarrow> ?thesis" for pid fl arg sz
    using to_int32_bounds by (fastforce simp: serve_pidinfo_def split: sum.splits if_splits)
  have h: "procfsd_handle_regs de r = (e, payload) \<Longrightarrow> ?thesis"
    by (auto simp: procfsd_handle_regs_def split: option.splits list.splits if_splits)
  have l: "length (concat (map (le_bytes 4) (take 3 xs))) \<le> PROCFS_CTL_MAXPAYLOAD" for xs
  proof -
    have "length (concat (map (le_bytes 4) (ys :: int list))) = 4 * length ys" for ys by (induction ys) auto
    then show ?thesis by (simp add: PROCFS_CTL_MAXPAYLOAD_def)
  qed
  show ?thesis
    using assms p h l [of "de_loadavg de @ [0, 0, 0]"] unfolding procfsd_serve_def daemon_ok_def
    by (auto split: if_splits option.splits)
qed

lemma round_reply:
  assumes "req_valid r" "daemon_ok de" "procfsd_round de (put_req r) = Some m"
  shows "\<exists>e payload. procfsd_serve de r = (e, payload) \<and> drop sizeof_resp m = payload \<and> length m = sizeof_resp + length payload \<and>
    length payload \<le> PROCFS_CTL_MAXPAYLOAD \<and>
    get_resp m = \<lparr> resp_magic = PROCFS_CTL_MAGIC, resp_seq = req_seq r, resp_error = e, resp_len = int (length payload) \<rparr>"
proof -
  obtain e payload where s: "procfsd_serve de r = (e, payload)" by force
  define h where "h = \<lparr> resp_magic = PROCFS_CTL_MAGIC, resp_seq = req_seq r, resp_error = e, resp_len = int (length payload) \<rparr>"
  have m: "m = put_resp h @ payload"
    using assms s by (simp add: procfsd_round_def get_put_req Let_def h_def req_valid_def split: if_splits)
  have "get_resp (put_resp h @ payload) = h"
    using assms(1) serve_bounds [OF assms(2) s]
    by (intro get_put_resp) (auto simp: h_def req_valid_def PROCFS_CTL_MAGIC_def PROCFS_CTL_MAXPAYLOAD_def)
  then show ?thesis using s m serve_bounds [OF assms(2) s] by (auto simp: h_def)
qed

section \<open>The invariant\<close>

fun held :: "rpc \<Rightarrow> nat option" where
  "held (R_enqueue i) = Some i"
| "held (R_wait i) = Some i"
| "held (R_release i r) = Some i"
| "held _ = None"

fun rpc_result :: "rpc \<Rightarrow> bytes option" where
  "rpc_result (R_release i (Inr d)) = Some d"
| "rpc_result (R_done (Inr d)) = Some d"
| "rpc_result _ = None"

abbreviation slot_at :: "csys \<Rightarrow> nat \<Rightarrow> procfs_ctl_slot" where
  "slot_at s i \<equiv> g_ctl_slots (s_ctl s) ! i"

definition hist_ok :: "csys \<Rightarrow> bool" where
  "hist_ok s \<longleftrightarrow> g_ctl_seq (s_ctl s) = int (length (s_hist s)) \<and>
     (\<forall>i < length (s_hist s). req_seq (s_hist s ! i) = int i + 1) \<and> (\<forall>r \<in> set (s_hist s). req_valid r)"

definition answer :: "csys \<Rightarrow> bytes \<Rightarrow> bytes \<Rightarrow> bool" where
  "answer s p m \<longleftrightarrow> (\<exists>r \<in> set (s_hist s). p = put_req r) \<and> (\<exists>de. daemon_ok de \<and> procfsd_round de p = Some m)"

definition pkts_ok :: "csys \<Rightarrow> bool" where
  "pkts_ok s \<longleftrightarrow> (\<forall>p \<in> set (s_queue s). \<exists>r \<in> set (s_hist s). p = put_req r) \<and>
     (\<forall>p m. (p, m) \<in> set (s_replies s) \<or> (p, m) \<in> set (s_log s) \<longrightarrow> answer s p m)"

definition slots_ok :: "csys \<Rightarrow> bool" where
  "slots_ok s \<longleftrightarrow> length (g_ctl_slots (s_ctl s)) = PROCFS_CTL_SLOTS \<and>
     (\<forall>sl \<in> set (g_ctl_slots (s_ctl s)). length (sl_buf sl) = PROCFS_CTL_MAXPAYLOAD)"

text \<open>A slot in use for a request, and a result handed to it.\<close>

definition slot_for :: "procfs_ctl_req list \<Rightarrow> (bytes \<times> bytes) list \<Rightarrow> procfs_ctl_req \<Rightarrow> procfs_ctl_slot \<Rightarrow> bool" where
  "slot_for hist log r sl \<longleftrightarrow>
     sl_in_use sl \<and> sl_seq sl = req_seq r \<and> r \<in> set hist \<and>
     (sl_done sl \<and> sl_error sl = 0 \<longrightarrow>
        (\<exists>m. (put_req r, m) \<in> set log \<and> resp_error (get_resp m) = 0 \<and>
           take (sl_len sl) (sl_buf sl) = drop sizeof_resp m))"

definition result_for :: "(bytes \<times> bytes) list \<Rightarrow> procfs_ctl_req \<Rightarrow> nat \<Rightarrow> bytes \<Rightarrow> bool" where
  "result_for log r cap d \<longleftrightarrow> req_valid r \<and>
     (\<exists>m. (put_req r, m) \<in> set log \<and> resp_error (get_resp m) = 0 \<and> d = take cap (drop sizeof_resp m))"

definition thr_ok :: "csys \<Rightarrow> nat \<Rightarrow> bool" where
  "thr_ok s t \<longleftrightarrow>
     (\<forall>i. held (r_pc (s_thr s t)) = Some i \<longrightarrow>
        i < PROCFS_CTL_SLOTS \<and> slot_for (s_hist s) (s_log s) (r_req (s_thr s t)) (slot_at s i)) \<and>
     (\<forall>d. rpc_result (r_pc (s_thr s t)) = Some d \<longrightarrow>
        result_for (s_log s) (r_req (s_thr s t)) (r_cap (s_thr s t)) d)"

definition excl_ok :: "csys \<Rightarrow> bool" where
  "excl_ok s \<longleftrightarrow> (\<forall>t t' i. held (r_pc (s_thr s t)) = Some i \<longrightarrow> held (r_pc (s_thr s t')) = Some i \<longrightarrow> t = t')"

definition owned_ok :: "csys \<Rightarrow> bool" where
  "owned_ok s \<longleftrightarrow> (\<forall>i < PROCFS_CTL_SLOTS. sl_in_use (slot_at s i) \<longrightarrow> (\<exists>t. held (r_pc (s_thr s t)) = Some i))"

definition req_ok :: "csys \<Rightarrow> bool" where
  "req_ok s \<longleftrightarrow> (\<forall>t. r_pc (s_thr s t) = R_checked \<longrightarrow> (\<exists>type pid arg. r_req (s_thr s t) = make_req 0 type pid arg))"

definition ctl_inv :: "csys \<Rightarrow> bool" where
  "ctl_inv s \<longleftrightarrow> hist_ok s \<and> pkts_ok s \<and> slots_ok s \<and> (\<forall>t. thr_ok s t) \<and> excl_ok s \<and> owned_ok s \<and> req_ok s"
lemma first_slot_Some:
  "first_slot P k ss = Some i \<Longrightarrow> k \<le> i \<and> i < k + length ss \<and> P (ss ! (i - k))"
proof (induction ss arbitrary: k)
  case (Cons s ss)
  show ?case
  proof (cases "P s")
    case False
    then have "Suc k \<le> i \<and> i < Suc k + length ss \<and> P (ss ! (i - Suc k))"
      using Cons.IH [of "Suc k"] Cons.prems by simp
    then show ?thesis by (auto simp: nth_Cons')
  qed (use Cons.prems in auto)
qed simp

lemma first_slot_None: "first_slot P k ss = None \<Longrightarrow> s \<in> set ss \<Longrightarrow> \<not> P s"
  by (induction ss arbitrary: k) (auto split: if_splits)

lemma first_slot0: "first_slot P 0 ss = Some i \<Longrightarrow> i < length ss \<and> P (ss ! i)"
  using first_slot_Some [of P 0 ss i] by simp

lemma hist_seq_inj:
  assumes "hist_ok s" "r \<in> set (s_hist s)" "r' \<in> set (s_hist s)" "req_seq r = req_seq r'"
  shows "r = r'"
proof -
  obtain i j where "i < length (s_hist s)" "r = s_hist s ! i" "j < length (s_hist s)" "r' = s_hist s ! j"
    using assms(2,3) by (auto simp: in_set_conv_nth)
  then show ?thesis using assms(1,4) by (auto simp: hist_ok_def)
qed

lemma inv_set_rthread:
  assumes "ctl_inv s" "held (r_pc x) = held (r_pc (s_thr s t))"
    and "held (r_pc x) \<noteq> None \<Longrightarrow> r_req x = r_req (s_thr s t)"
    and "\<And>d. rpc_result (r_pc x) = Some d \<Longrightarrow> result_for (s_log s) (r_req x) (r_cap x) d"
    and "r_pc x = R_checked \<Longrightarrow> \<exists>type pid arg. r_req x = make_req 0 type pid arg"
  shows "ctl_inv (s\<lparr> s_thr := (s_thr s)(t := x) \<rparr>)"
proof -
  have h: "held (r_pc (((s_thr s)(t := x)) t')) = held (r_pc (s_thr s t'))" for t' using assms(2) by simp
  have o: "thr_ok s t'" for t' using assms(1) by (simp add: ctl_inv_def)
  have "thr_ok (s\<lparr> s_thr := (s_thr s)(t := x) \<rparr>) t'" for t'
    using o [of t'] assms(2-4) by (cases "t' = t") (auto simp: thr_ok_def)
  moreover have "hist_ok (s\<lparr> s_thr := (s_thr s)(t := x) \<rparr>)" "pkts_ok (s\<lparr> s_thr := (s_thr s)(t := x) \<rparr>)"
    "slots_ok (s\<lparr> s_thr := (s_thr s)(t := x) \<rparr>)" "owned_ok (s\<lparr> s_thr := (s_thr s)(t := x) \<rparr>)"
    using assms(1) h by (simp_all add: ctl_inv_def hist_ok_def pkts_ok_def slots_ok_def answer_def owned_ok_def)
  moreover have "excl_ok (s\<lparr> s_thr := (s_thr s)(t := x) \<rparr>)"
    unfolding excl_ok_def
  proof (intro allI impI)
    fix a b i
    assume "held (r_pc (s_thr (s\<lparr> s_thr := (s_thr s)(t := x) \<rparr>) a)) = Some i"
      "held (r_pc (s_thr (s\<lparr> s_thr := (s_thr s)(t := x) \<rparr>) b)) = Some i"
    then have "held (r_pc (s_thr s a)) = Some i" "held (r_pc (s_thr s b)) = Some i" using h [of a] h [of b] by simp_all
    then show "a = b" using assms(1) by (auto simp: ctl_inv_def excl_ok_def)
  qed
  moreover have "req_ok (s\<lparr> s_thr := (s_thr s)(t := x) \<rparr>)"
    using assms(1,5) by (simp add: ctl_inv_def req_ok_def)
  ultimately show ?thesis by (simp add: ctl_inv_def)
qed

lemma inv_set_rpc:
  assumes "ctl_inv s" "held pc = held (r_pc (s_thr s t))" "pc \<noteq> R_checked"
    and "\<And>d. rpc_result pc = Some d \<Longrightarrow> result_for (s_log s) (r_req (s_thr s t)) (r_cap (s_thr s t)) d"
  shows "ctl_inv (set_rpc t pc s)"
  unfolding set_rpc_def using assms by (intro inv_set_rthread) auto

lemma inv_packets:
  assumes "ctl_inv s" "\<forall>p \<in> set q. \<exists>r \<in> set (s_hist s). p = put_req r"
    and "\<And>p m. (p, m) \<in> set rs \<Longrightarrow> answer s p m"
  shows "ctl_inv (s\<lparr> s_queue := q, s_replies := rs \<rparr>)"
proof -
  have "thr_ok (s\<lparr> s_queue := q, s_replies := rs \<rparr>) t = thr_ok s t" for t by (simp add: thr_ok_def)
  moreover have "answer (s\<lparr> s_queue := q, s_replies := rs \<rparr>) p m = answer s p m" for p m by (simp add: answer_def)
  ultimately show ?thesis
    using assms by (auto simp: ctl_inv_def hist_ok_def pkts_ok_def slots_ok_def owned_ok_def req_ok_def excl_ok_def)
qed

text \<open>
  Changes of the statics that keep who uses which slot, with which sequence number,
  and that complete a slot successfully only with an answer in the log.
\<close>

lemma slot_for_mono:
  "slot_for h l r sl \<Longrightarrow> set h \<subseteq> set h' \<Longrightarrow> set l \<subseteq> set l' \<Longrightarrow> slot_for h' l' r sl"
  unfolding slot_for_def by blast

lemma result_for_mono: "result_for l r c d \<Longrightarrow> set l \<subseteq> set l' \<Longrightarrow> result_for l' r c d"
  unfolding result_for_def by blast

lemma inv_slots:
  assumes inv: "ctl_inv s" and sq: "g_ctl_seq c = g_ctl_seq (s_ctl s)"
    and len: "length (g_ctl_slots c) = PROCFS_CTL_SLOTS" "\<forall>sl \<in> set (g_ctl_slots c). length (sl_buf sl) = PROCFS_CTL_MAXPAYLOAD"
    and log: "set (s_log s) \<subseteq> set l" "\<And>p m. (p, m) \<in> set l \<Longrightarrow> answer s p m"
    and use: "\<And>i. i < PROCFS_CTL_SLOTS \<Longrightarrow> sl_in_use (g_ctl_slots c ! i) = sl_in_use (slot_at s i)"
    and for': "\<And>i r. i < PROCFS_CTL_SLOTS \<Longrightarrow> slot_for (s_hist s) (s_log s) r (slot_at s i) \<Longrightarrow>
        slot_for (s_hist s) l r (g_ctl_slots c ! i)"
  shows "ctl_inv (s\<lparr> s_ctl := c, s_log := l \<rparr>)"
proof -
  let ?s = "s\<lparr> s_ctl := c, s_log := l \<rparr>"
  have "thr_ok ?s t" for t
  proof -
    have o: "thr_ok s t" using inv by (simp add: ctl_inv_def)
    show ?thesis using o for' result_for_mono [OF _ log(1)] by (simp add: thr_ok_def)
  qed
  moreover have "pkts_ok ?s" using inv log(2) by (auto simp: ctl_inv_def pkts_ok_def answer_def)
  ultimately show ?thesis
    using inv sq len use by (auto simp: ctl_inv_def hist_ok_def slots_ok_def owned_ok_def req_ok_def excl_ok_def)
qed
lemma inv_held:
  "ctl_inv s \<Longrightarrow> held (r_pc (s_thr s t)) = Some i \<Longrightarrow>
    i < PROCFS_CTL_SLOTS \<and> slot_for (s_hist s) (s_log s) (r_req (s_thr s t)) (slot_at s i)"
  by (simp add: ctl_inv_def thr_ok_def)

lemma inv_excl:
  "ctl_inv s \<Longrightarrow> held (r_pc (s_thr s t)) = Some i \<Longrightarrow> held (r_pc (s_thr s t')) = Some i \<Longrightarrow> t = t'"
  unfolding ctl_inv_def excl_ok_def by blast

lemma inv_disconnect:
  assumes "ctl_inv s"
  shows "ctl_inv (s\<lparr> s_ctl := procfs_ctl_disconnect (s_ctl s) \<rparr>)"
proof -
  have len: "length (g_ctl_slots (s_ctl s)) = PROCFS_CTL_SLOTS" using assms by (simp add: ctl_inv_def slots_ok_def)
  have "ctl_inv (s\<lparr> s_ctl := procfs_ctl_disconnect (s_ctl s), s_log := s_log s \<rparr>)"
  proof (rule inv_slots [OF assms])
    fix i r assume i: "i < PROCFS_CTL_SLOTS" and f: "slot_for (s_hist s) (s_log s) r (slot_at s i)"
    show "slot_for (s_hist s) (s_log s) r (g_ctl_slots (procfs_ctl_disconnect (s_ctl s)) ! i)"
      using f len i by (auto simp: procfs_ctl_disconnect_def disconnect_slot_def slot_for_def)
  qed (use assms len in \<open>auto simp: procfs_ctl_disconnect_def disconnect_slot_def ctl_inv_def slots_ok_def pkts_ok_def\<close>)
  then show ?thesis by simp
qed

lemma inv_connect:
  assumes "ctl_inv s"
  shows "ctl_inv (s\<lparr> s_ctl := procfs_ctl_connect u (s_ctl s) \<rparr>)"
proof -
  have "ctl_inv (s\<lparr> s_ctl := procfs_ctl_connect u (s_ctl s), s_log := s_log s \<rparr>)"
    by (rule inv_slots [OF assms]) (use assms in \<open>auto simp: procfs_ctl_connect_def ctl_inv_def slots_ok_def pkts_ok_def\<close>)
  then show ?thesis by simp
qed

lemma inv_deliver:
  assumes inv: "ctl_inv s" and a: "answer s p m"
  shows "ctl_inv (s\<lparr> s_ctl := procfs_ctl_send m (s_ctl s), s_log := (p, m) # s_log s \<rparr>)"
proof -
  obtain r de where r: "r \<in> set (s_hist s)" "p = put_req r" "daemon_ok de" "procfsd_round de p = Some m"
    using a by (auto simp: answer_def)
  have v: "req_valid r" using inv r(1) by (simp add: ctl_inv_def hist_ok_def)
  obtain e payload where m: "drop sizeof_resp m = payload" "length m = sizeof_resp + length payload"
      "length payload \<le> PROCFS_CTL_MAXPAYLOAD"
      "get_resp m = \<lparr> resp_magic = PROCFS_CTL_MAGIC, resp_seq = req_seq r, resp_error = e, resp_len = int (length payload) \<rparr>"
    using round_reply [OF v r(3)] r by blast
  have len: "length (g_ctl_slots (s_ctl s)) = PROCFS_CTL_SLOTS"
      "\<forall>sl \<in> set (g_ctl_slots (s_ctl s)). length (sl_buf sl) = PROCFS_CTL_MAXPAYLOAD"
    using inv by (auto simp: ctl_inv_def slots_ok_def)
  have pl: "answer s q n" if "(q, n) \<in> set ((p, m) # s_log s)" for q n
    using that a inv by (auto simp: ctl_inv_def pkts_ok_def)
  define P :: "procfs_ctl_slot \<Rightarrow> bool" where "P = (\<lambda>sl. sl_in_use sl \<and> \<not> sl_done sl \<and> sl_seq sl = req_seq r)"
  show ?thesis
  proof (cases "first_slot P 0 (g_ctl_slots (s_ctl s))")
    case None
    then have "procfs_ctl_send m (s_ctl s) = s_ctl s"
      using m by (simp add: procfs_ctl_send_def P_def)
    then show ?thesis
      using inv_slots [OF inv, of "s_ctl s" "(p, m) # s_log s"] len pl slot_for_mono [OF _ subset_refl, of "s_hist s" "s_log s" _ _ "(p, m) # s_log s"]
      by auto
  next
    case (Some i)
    define sl where "sl = slot_at s i"
    define sl' where "sl' = fill_slot m (get_resp m) (length payload) sl"
    have i: "i < PROCFS_CTL_SLOTS" "P sl" using first_slot0 [OF Some] len by (auto simp: sl_def)
    have c: "procfs_ctl_send m (s_ctl s) = (s_ctl s)\<lparr> g_ctl_slots := (g_ctl_slots (s_ctl s))[i := sl'] \<rparr>"
      using Some m unfolding procfs_ctl_send_def P_def by (simp add: sl'_def sl_def min_def)
    have lb: "length (sl_buf sl) = PROCFS_CTL_MAXPAYLOAD" using len i by (simp add: sl_def)
    have sl': "sl_in_use sl' = sl_in_use sl" "sl_seq sl' = sl_seq sl" "length (sl_buf sl') = PROCFS_CTL_MAXPAYLOAD"
        "sl_error sl' = e" "take (sl_len sl') (sl_buf sl') = payload"
      using m lb by (auto simp: sl'_def fill_slot_def)
    show ?thesis unfolding c
    proof (rule inv_slots [OF inv])
      fix j q assume j: "j < PROCFS_CTL_SLOTS" and f: "slot_for (s_hist s) (s_log s) q (slot_at s j)"
      have f': "slot_for (s_hist s) ((p, m) # s_log s) q (slot_at s j)" by (rule slot_for_mono [OF f]) auto
      show "slot_for (s_hist s) ((p, m) # s_log s) q
          (g_ctl_slots ((s_ctl s)\<lparr> g_ctl_slots := (g_ctl_slots (s_ctl s))[i := sl'] \<rparr>) ! j)"
      proof (cases "j = i")
        case True
        have q: "q \<in> set (s_hist s)" "sl_seq sl = req_seq q" using f True by (auto simp: slot_for_def sl_def)
        then have "q = r" using hist_seq_inj [of s q r] inv i(2) r(1) by (auto simp: ctl_inv_def P_def)
        then show ?thesis using True j len sl' i(2) q r(2) m by (auto simp: slot_for_def P_def)
      next
        case False
        then show ?thesis using f' by simp
      qed
    next
      fix j assume "j < PROCFS_CTL_SLOTS"
      then show "sl_in_use (g_ctl_slots ((s_ctl s)\<lparr> g_ctl_slots := (g_ctl_slots (s_ctl s))[i := sl'] \<rparr>) ! j) = sl_in_use (slot_at s j)"
        using sl'(1) len by (cases "j = i") (auto simp: sl_def)
    next
      show "\<forall>x \<in> set (g_ctl_slots ((s_ctl s)\<lparr> g_ctl_slots := (g_ctl_slots (s_ctl s))[i := sl'] \<rparr>)).
          length (sl_buf x) = PROCFS_CTL_MAXPAYLOAD"
        using len sl'(3) by (auto dest!: subsetD [OF set_update_subset_insert])
    qed (use pl len in auto)
  qed
qed

lemma next_seq_id: "0 \<le> n \<Longrightarrow> n + 1 < 2 ^ 32 \<Longrightarrow> next_seq n = n + 1"
  by (simp add: next_seq_def Let_def)

lemma inv_claim:
  assumes inv: "ctl_inv s" and pc: "r_pc (s_thr s t) = R_checked" and cl: "claim_slot (s_ctl s) = Some (i, c)"
    and r: "r = (r_req (s_thr s t))\<lparr> req_seq := g_ctl_seq c \<rparr>" and small: "length (s_hist s) + 1 < 2 ^ 32"
  shows "ctl_inv (s\<lparr> s_ctl := c, s_hist := s_hist s @ [r],
    s_thr := (s_thr s)(t := (s_thr s t)\<lparr> r_pc := R_enqueue i, r_req := r \<rparr>) \<rparr>)"
proof -
  let ?s = "s\<lparr> s_ctl := c, s_hist := s_hist s @ [r],
    s_thr := (s_thr s)(t := (s_thr s t)\<lparr> r_pc := R_enqueue i, r_req := r \<rparr>) \<rparr>"
  have len: "length (g_ctl_slots (s_ctl s)) = PROCFS_CTL_SLOTS" using inv by (simp add: ctl_inv_def slots_ok_def)
  have sq: "next_seq (g_ctl_seq (s_ctl s)) = int (length (s_hist s)) + 1"
    using inv small by (subst next_seq_id) (auto simp: ctl_inv_def hist_ok_def)
  define new where "new = (slot_at s i)\<lparr> sl_in_use := True, sl_done := False,
      sl_seq := int (length (s_hist s)) + 1, sl_error := 0, sl_len := 0 \<rparr>"
  have i: "i < PROCFS_CTL_SLOTS" "\<not> sl_in_use (slot_at s i)"
      and c: "c = (s_ctl s)\<lparr> g_ctl_seq := int (length (s_hist s)) + 1, g_ctl_slots := (g_ctl_slots (s_ctl s))[i := new] \<rparr>"
    using cl first_slot0 [of "\<lambda>s. \<not> sl_in_use s" "g_ctl_slots (s_ctl s)" i] len sq
    by (auto simp: claim_slot_def Let_def new_def split: option.splits)
  obtain ty pid arg where q: "r_req (s_thr s t) = make_req 0 ty pid arg"
    using inv pc by (auto simp: ctl_inv_def req_ok_def)
  have rr: "r = make_req (int (length (s_hist s)) + 1) ty pid arg" by (simp add: r q c make_req_def)
  have rv: "req_valid r" unfolding rr by (rule make_req_valid) (use small in auto)
  have old: "held (r_pc (s_thr s t')) \<noteq> Some i" for t'
  proof
    assume "held (r_pc (s_thr s t')) = Some i"
    then show False using inv i(2) by (auto simp: ctl_inv_def thr_ok_def slot_for_def)
  qed
  have th: "thr_ok ?s t'" for t'
  proof (cases "t' = t")
    case True
    then show ?thesis using i len rr by (simp add: thr_ok_def slot_for_def c new_def make_req_def)
  next
    case False
    have "thr_ok s t'" using inv by (simp add: ctl_inv_def)
    moreover have "slot_for (s_hist s) (s_log s) q sl \<Longrightarrow> slot_for (s_hist s @ [r]) (s_log s) q sl" for q sl
      by (erule slot_for_mono) auto
    ultimately show ?thesis using False old [of t'] by (auto simp: thr_ok_def c)
  qed
  have hh: "hist_ok ?s" using inv rv by (auto simp: ctl_inv_def hist_ok_def c rr make_req_def nth_append)
  have pk: "pkts_ok ?s" using inv unfolding ctl_inv_def pkts_ok_def answer_def by simp
  have so: "slots_ok ?s"
    using inv len i by (auto simp: ctl_inv_def slots_ok_def c new_def dest!: subsetD [OF set_update_subset_insert])
  have ex: "excl_ok ?s" using inv old unfolding ctl_inv_def excl_ok_def by (auto simp: eq_commute split: if_splits)
  have ow: "owned_ok ?s"
    unfolding owned_ok_def
  proof (intro allI impI)
    fix j assume j: "j < PROCFS_CTL_SLOTS" and u: "sl_in_use (slot_at ?s j)"
    show "\<exists>t'. held (r_pc (s_thr ?s t')) = Some j"
    proof (cases "j = i")
      case True then show ?thesis by (intro exI [of _ t]) simp
    next
      case False
      then have "sl_in_use (slot_at s j)" using u by (simp add: c)
      then obtain t' where "held (r_pc (s_thr s t')) = Some j" using inv j by (auto simp: ctl_inv_def owned_ok_def)
      moreover have "t' \<noteq> t" using calculation pc by auto
      ultimately show ?thesis by (intro exI [of _ t']) simp
    qed
  qed
  have "req_ok ?s" using inv by (auto simp: ctl_inv_def req_ok_def)
  then show ?thesis using th hh pk so ex ow by (simp add: ctl_inv_def)
qed

lemma inv_release:
  assumes inv: "ctl_inv s" and pc: "r_pc (s_thr s t) = R_release i res"
  shows "ctl_inv (set_rpc t (R_done res) (s\<lparr> s_ctl := release_slot i (s_ctl s) \<rparr>))"
proof -
  let ?s = "set_rpc t (R_done res) (s\<lparr> s_ctl := release_slot i (s_ctl s) \<rparr>)"
  have len: "length (g_ctl_slots (s_ctl s)) = PROCFS_CTL_SLOTS" using inv by (simp add: ctl_inv_def slots_ok_def)
  have i: "i < PROCFS_CTL_SLOTS" using inv_held [OF inv, of t i] pc by simp
  have ex: "held (r_pc (s_thr s t')) = Some i \<Longrightarrow> t' = t" for t'
    using inv_excl [OF inv, of t' i t] pc by simp
  have th: "thr_ok ?s t'" for t'
  proof (cases "t' = t")
    case True
    have "thr_ok s t" using inv by (simp add: ctl_inv_def)
    moreover have "rpc_result (R_done res) = rpc_result (R_release i res)" by (cases res) auto
    ultimately show ?thesis using True pc by (auto simp: thr_ok_def set_rpc_def)
  next
    case False
    have "thr_ok s t'" using inv by (simp add: ctl_inv_def)
    moreover have "held (r_pc (s_thr s t')) = Some j \<Longrightarrow> j \<noteq> i" for j using False ex [of t'] by auto
    ultimately show ?thesis using False by (auto simp: thr_ok_def set_rpc_def release_slot_def)
  qed
  have hk: "hist_ok ?s" "pkts_ok ?s" using inv
    by (auto simp: ctl_inv_def hist_ok_def pkts_ok_def answer_def set_rpc_def release_slot_def)
  have so: "slots_ok ?s" using inv len i
    by (auto simp: ctl_inv_def slots_ok_def set_rpc_def release_slot_def dest!: subsetD [OF set_update_subset_insert])
  have e2: "excl_ok ?s" using inv unfolding ctl_inv_def excl_ok_def by (auto simp: set_rpc_def)
  have ow: "owned_ok ?s"
    unfolding owned_ok_def
  proof (intro allI impI)
    fix j assume j: "j < PROCFS_CTL_SLOTS" and u: "sl_in_use (slot_at ?s j)"
    have "j \<noteq> i" using u len i by (auto simp: set_rpc_def release_slot_def)
    then have "sl_in_use (slot_at s j)" using u by (simp add: set_rpc_def release_slot_def)
    then obtain t' where t': "held (r_pc (s_thr s t')) = Some j" using inv j by (auto simp: ctl_inv_def owned_ok_def)
    then have "t' \<noteq> t" using pc \<open>j \<noteq> i\<close> by auto
    then show "\<exists>t'. held (r_pc (s_thr ?s t')) = Some j" using t' by (intro exI [of _ t']) (simp add: set_rpc_def)
  qed
  have "req_ok ?s" using inv by (auto simp: ctl_inv_def req_ok_def set_rpc_def)
  then show ?thesis using th hk so e2 ow by (simp add: ctl_inv_def)
qed
lemma inv_csys0: "ctl_inv csys0"
proof -
  have "s_hist csys0 = []" "s_queue csys0 = []" "s_replies csys0 = []" "s_log csys0 = []"
    "g_ctl_slots (s_ctl csys0) = replicate PROCFS_CTL_SLOTS slot0" "g_ctl_seq (s_ctl csys0) = 0"
    "r_pc (s_thr csys0 t) = R_idle" for t
    by (simp_all add: csys0_def procfs_ctl_register_def ctl0_def)
  then show ?thesis
    by (simp add: ctl_inv_def hist_ok_def pkts_ok_def slots_ok_def thr_ok_def excl_ok_def owned_ok_def req_ok_def slot0_def)
qed

lemma slot_result_ok:
  assumes "ctl_inv s" "r_pc (s_thr s t) = R_wait i" "slot_result (slot_at s i) cap = Inr d"
  shows "result_for (s_log s) (r_req (s_thr s t)) cap d"
proof -
  have f: "slot_for (s_hist s) (s_log s) (r_req (s_thr s t)) (slot_at s i)" using inv_held [OF assms(1)] assms(2) by simp
  have d: "sl_done (slot_at s i)" "sl_error (slot_at s i) = 0"
      "d = take (min (sl_len (slot_at s i)) cap) (sl_buf (slot_at s i))"
    using assms(3) by (auto simp: slot_result_def err_of_def split: if_splits)
  obtain m where m: "(put_req (r_req (s_thr s t)), m) \<in> set (s_log s)" "resp_error (get_resp m) = 0"
      "take (sl_len (slot_at s i)) (sl_buf (slot_at s i)) = drop sizeof_resp m"
    using f d by (auto simp: slot_for_def)
  have "d = take cap (take (sl_len (slot_at s i)) (sl_buf (slot_at s i)))" using d by (simp add: min.commute)
  moreover have "req_valid (r_req (s_thr s t))"
    using f assms(1) by (auto simp: slot_for_def ctl_inv_def hist_ok_def)
  ultimately show ?thesis using m unfolding result_for_def by metis
qed

lemma inv_wake:
  assumes "ctl_inv s" "r_pc (s_thr s t) = R_wait i"
  shows "ctl_inv (set_rpc t (R_release i (slot_result (slot_at s i) (r_cap (s_thr s t)))) s)"
proof (rule inv_set_rpc [OF assms(1)])
  fix d assume "rpc_result (R_release i (slot_result (slot_at s i) (r_cap (s_thr s t)))) = Some d"
  then have "slot_result (slot_at s i) (r_cap (s_thr s t)) = Inr d"
    by (cases "slot_result (slot_at s i) (r_cap (s_thr s t))") auto
  then show "result_for (s_log s) (r_req (s_thr s t)) (r_cap (s_thr s t)) d" by (rule slot_result_ok [OF assms])
qed (use assms in auto)

lemma inv_request:
  assumes "ctl_inv s" "r_pc (s_thr s t) = R_idle"
  shows "ctl_inv (s\<lparr> s_thr := (s_thr s)(t :=
          \<lparr> r_pc = (if ctl_available (s_ctl s) then R_checked else R_done (Inl ENOTCONN)),
            r_req = make_req 0 type pid arg, r_cap = cap \<rparr>) \<rparr>)"
  using assms by (intro inv_set_rthread) (auto split: if_splits)

lemma inv_enqueue:
  assumes "ctl_inv s" "r_pc (s_thr s t) = R_enqueue i"
  shows "ctl_inv (set_rpc t (R_wait i) (s\<lparr> s_queue := s_queue s @ [put_req (r_req (s_thr s t))] \<rparr>))"
proof -
  have "r_req (s_thr s t) \<in> set (s_hist s)" using inv_held [OF assms(1), of t i] assms(2) by (simp add: slot_for_def)
  then have "ctl_inv (s\<lparr> s_queue := s_queue s @ [put_req (r_req (s_thr s t))], s_replies := s_replies s \<rparr>)"
    using assms(1) by (intro inv_packets) (auto simp: ctl_inv_def pkts_ok_def)
  then show ?thesis using assms(2) by (intro inv_set_rpc) auto
qed

lemma inv_serve:
  assumes "ctl_inv s" "s_queue s = p # ps" "daemon_ok de"
  shows "ctl_inv (s\<lparr> s_queue := ps,
    s_replies := (case procfsd_round de p of None \<Rightarrow> s_replies s | Some m \<Rightarrow> s_replies s @ [(p, m)]) \<rparr>)"
  using assms by (intro inv_packets) (auto simp: ctl_inv_def pkts_ok_def answer_def split: option.splits)

lemma inv_lose:
  assumes "ctl_inv s"
  shows "s_queue s = p # ps \<Longrightarrow> ctl_inv (s\<lparr> s_queue := ps \<rparr>)"
    and "s_replies s = x # xs \<Longrightarrow> ctl_inv (s\<lparr> s_replies := xs \<rparr>)"
    and "s_replies s = (q, m) # xs \<Longrightarrow>
      ctl_inv (s\<lparr> s_replies := xs, s_ctl := procfs_ctl_send m (s_ctl s), s_log := (q, m) # s_log s \<rparr>)"
proof -
  have pk: "pkts_ok s" using assms by (simp add: ctl_inv_def)
  show "ctl_inv (s\<lparr> s_queue := ps \<rparr>)" if "s_queue s = p # ps"
    using inv_packets [OF assms, of ps "s_replies s"] pk that by (simp add: pkts_ok_def)
  have r: "ctl_inv (s\<lparr> s_replies := xs \<rparr>)" if "s_replies s = x # xs" for x xs
    using inv_packets [OF assms, of "s_queue s" xs] pk that by (simp add: pkts_ok_def)
  then show "s_replies s = x # xs \<Longrightarrow> ctl_inv (s\<lparr> s_replies := xs \<rparr>)" .
  show "ctl_inv (s\<lparr> s_replies := xs, s_ctl := procfs_ctl_send m (s_ctl s), s_log := (q, m) # s_log s \<rparr>)"
    if "s_replies s = (q, m) # xs"
    using inv_deliver [OF r [OF that], of q m] pk that by (simp add: pkts_ok_def answer_def)
qed

lemma inv_cevent:
  assumes "ctl_inv s" "ctl_event e s = Some s'" "length (s_hist s') < 2 ^ 32"
  shows "ctl_inv s'"
proof (cases e)
  case (Ev_request t type pid arg cap)
  then have pc: "r_pc (s_thr s t) = R_idle" using assms(2) by (auto split: if_splits)
  show ?thesis using inv_request [OF assms(1) pc, of type pid arg cap] assms(2) Ev_request pc by simp
next
  case (Ev_begin t)
  have pc: "r_pc (s_thr s t) = R_checked" using assms(2) Ev_begin by (auto split: if_splits)
  show ?thesis
  proof (cases "claim_slot (s_ctl s)")
    case None
    then have "s' = set_rpc t (R_done (Inl EBUSY)) s" using assms(2) Ev_begin pc by simp
    then show ?thesis using inv_set_rpc [OF assms(1), of "R_done (Inl EBUSY)" t] pc by simp
  next
    case (Some ic)
    then show ?thesis
      using inv_claim [OF assms(1) pc, of "fst ic" "snd ic"] assms(2,3) Ev_begin pc
      by (cases ic) (auto simp: Let_def)
  qed
next
  case (Ev_enqueue t er)
  then show ?thesis
    using assms(1,2) inv_enqueue [OF assms(1), of t]
    by (auto split: rpc.splits option.splits intro!: inv_set_rpc)
next
  case (Ev_wake t r)
  then show ?thesis using assms(1,2) inv_wake [OF assms(1), of t] by (auto simp: Let_def split: rpc.splits if_splits)
next
  case (Ev_release t)
  then show ?thesis using assms(1,2) inv_release [OF assms(1), of t] by (auto split: rpc.splits)
next
  case (Ev_return t)
  then show ?thesis using assms(1,2) inv_set_rpc [OF assms(1), of R_idle t] by (auto split: rpc.splits)
next
  case (Ev_connect u)
  then show ?thesis using assms(2) inv_connect [OF assms(1)] by auto
next
  case Ev_disconnect
  then show ?thesis using assms(2) inv_disconnect [OF assms(1)] by auto
next
  case (Ev_serve de)
  then show ?thesis using assms(2) inv_serve [OF assms(1), of _ _ de] by (auto split: list.splits if_splits)
next
  case Ev_deliver
  then show ?thesis using assms(2) inv_lose(3) [OF assms(1)] by (auto split: list.splits)
next
  case Ev_lose_request
  then show ?thesis using assms(2) inv_lose(1) [OF assms(1)] by (auto split: list.splits)
next
  case Ev_lose_reply
  then show ?thesis using assms(2) inv_lose(2) [OF assms(1)] by (auto split: list.splits)
qed

lemma hist_mono: "ctl_event e s = Some s' \<Longrightarrow> length (s_hist s) \<le> length (s_hist s')"
  by (cases e) (auto simp: set_rpc_def Let_def split: if_splits option.splits rpc.splits list.splits)

lemma ctl_reach_inv: "ctl_reach s \<Longrightarrow> length (s_hist s) < 2 ^ 32 \<Longrightarrow> ctl_inv s"
proof (induction rule: ctl_reach.induct)
  case (ctl_step s e s')
  then show ?case using inv_cevent hist_mono by fastforce
qed (rule inv_csys0)

fun run_ctl :: "cevent list \<Rightarrow> csys \<Rightarrow> csys option" where
  "run_ctl [] s = Some s"
| "run_ctl (e # es) s = (case ctl_event e s of None \<Rightarrow> None | Some s \<Rightarrow> run_ctl es s)"

lemma run_ctl_reach: "ctl_reach s \<Longrightarrow> run_ctl es s = Some s' \<Longrightarrow> ctl_reach s'"
  by (induction es arbitrary: s) (auto split: option.splits intro: ctl_reach.intros)
section \<open>Requests and answers\<close>


lemma slot0_simps [simp]: "sl_in_use slot0 = False" "sl_done slot0 = False"
  by (simp_all add: slot0_def)

definition demo_env :: daemon_env where
  "demo_env = \<lparr> de_pidinfo = (\<lambda>_ _ _. Inl 3), de_vmstat = Some ''ab'', de_loadavg = [], de_task = (\<lambda>_. None),
     de_state = (\<lambda>_ _. None), de_state_count = (\<lambda>_. 0), de_sizeof_taskinfo = 96, de_sizeof_threadinfo = 112 \<rparr>"

definition demo_wait :: "cevent list" where
  "demo_wait = [Ev_connect 1, Ev_request 0 PROCFS_REQ_VMSTAT 0 0 160, Ev_begin 0, Ev_enqueue 0 None]"

definition demo_run :: "cevent list" where
  "demo_run = demo_wait @ [Ev_serve demo_env, Ev_deliver, Ev_wake 0 False, Ev_release 0]"

lemma run_ctl_append: "run_ctl (a @ b) s = (case run_ctl a s of None \<Rightarrow> None | Some s \<Rightarrow> run_ctl b s)"
  by (induction a arbitrary: s) (auto split: option.split)

abbreviation demo_req :: procfs_ctl_req where "demo_req \<equiv> make_req 1 PROCFS_REQ_VMSTAT 0 0"

definition demo_slot :: procfs_ctl_slot where
  "demo_slot = slot0\<lparr> sl_in_use := True, sl_done := False, sl_seq := 1, sl_error := 0, sl_len := 0 \<rparr>"

lemma csys0_slots: "g_ctl_slots (s_ctl csys0) = slot0 # replicate 15 slot0"
  by (simp add: csys0_def procfs_ctl_register_def ctl0_def PROCFS_CTL_SLOTS_def numeral_eq_Suc)

lemma csys0_simps: "g_ctl_seq (s_ctl csys0) = 0" "g_ctl_ref (s_ctl csys0)" "r_pc (s_thr csys0 t) = R_idle"
    "s_queue csys0 = []" "s_hist csys0 = []" "s_replies csys0 = []" "s_log csys0 = []"
  by (simp_all add: csys0_def procfs_ctl_register_def ctl0_def)

lemma demo_wait_ok:
  "\<exists>s. run_ctl demo_wait csys0 = Some s \<and> r_pc (s_thr s 0) = R_wait 0 \<and> r_req (s_thr s 0) = demo_req \<and>
     r_cap (s_thr s 0) = 160 \<and> s_queue s = [put_req demo_req] \<and> s_hist s = [demo_req] \<and> s_replies s = [] \<and>
     g_ctl_slots (s_ctl s) = demo_slot # replicate 15 slot0"
proof -
  have "next_seq 0 = 1" by (simp add: next_seq_id)
  then show ?thesis
    by (simp add: demo_wait_def procfs_ctl_connect_def ctl_available_def claim_slot_def csys0_slots csys0_simps
        set_rpc_def make_req_def demo_slot_def Let_def)
qed

lemma demo_req_valid: "req_valid demo_req"
  by (rule make_req_valid) simp_all

lemma demo_round:
  "\<exists>m. procfsd_round demo_env (put_req demo_req) = Some m"
proof -
  have "req_magic demo_req = PROCFS_CTL_MAGIC" by (simp add: make_req_def)
  then show ?thesis by (simp add: procfsd_round_def get_put_req [OF demo_req_valid] Let_def split: prod.split)
qed

lemma demo_serve: "procfsd_serve demo_env demo_req = (0, ''ab'')"
  by (simp add: procfsd_serve_def demo_env_def make_req_def PROCFS_REQ_TASKINFO_def PROCFS_REQ_THREADINFO_def
      PROCFS_REQ_VMSTAT_def PROCFS_CTL_MAXPAYLOAD_def)

lemma demo_env_ok: "daemon_ok demo_env"
  by (simp add: daemon_ok_def demo_env_def PROCFS_CTL_MAXPAYLOAD_def)

lemma demo_run_ok:
  "\<exists>s. run_ctl demo_run csys0 = Some s \<and> r_pc (s_thr s 0) = R_done (Inr ''ab'') \<and> length (s_hist s) = 1"
proof -
  obtain m where m: "procfsd_round demo_env (put_req demo_req) = Some m" using demo_round by blast
  obtain e p where r: "procfsd_serve demo_env demo_req = (e, p)" "drop sizeof_resp m = p" "length m = sizeof_resp + length p"
      "get_resp m = \<lparr> resp_magic = PROCFS_CTL_MAGIC, resp_seq = req_seq demo_req, resp_error = e, resp_len = int (length p) \<rparr>"
    using round_reply [OF demo_req_valid demo_env_ok m] by blast
  have ep: "e = 0" "p = ''ab''" using r(1) demo_serve by auto
  have sq: "req_seq demo_req = 1" by (simp add: make_req_def)
  have mp: "min 2 PROCFS_CTL_MAXPAYLOAD = 2" by (simp add: PROCFS_CTL_MAXPAYLOAD_def)
  obtain s where s: "run_ctl demo_wait csys0 = Some s" "r_pc (s_thr s 0) = R_wait 0" "r_cap (s_thr s 0) = 160"
      "s_queue s = [put_req demo_req]" "s_hist s = [demo_req]" "s_replies s = []"
      "g_ctl_slots (s_ctl s) = demo_slot # replicate 15 slot0"
    using demo_wait_ok by blast
  have f: "procfs_ctl_send m (s_ctl s) = (s_ctl s)\<lparr> g_ctl_slots := fill_slot m (get_resp m) 2 demo_slot # replicate 15 slot0 \<rparr>"
    using r ep sq mp s(7) by (simp add: procfs_ctl_send_def demo_slot_def numeral_2_eq_2)
  have g: "slot_result (fill_slot m (get_resp m) 2 demo_slot) 160 = Inr ''ab''"
    using r ep by (simp add: slot_result_def fill_slot_def err_of_def numeral_2_eq_2)
  have d: "sl_done (fill_slot m (get_resp m) 2 demo_slot)" by (simp add: fill_slot_def Let_def)
  show ?thesis
    using s m f g d demo_env_ok by (simp add: demo_run_def run_ctl_append set_rpc_def)
qed


text \<open>
  C17: in every interleaving a slot is in use exactly when one request holds it, so
  slots are never shared and never lost: when no request is in progress all 16
  are free.
\<close>

theorem ctl_slots_owned:
  assumes "ctl_reach s" "length (s_hist s) < 2 ^ 32" "i < PROCFS_CTL_SLOTS"
  shows "sl_in_use (g_ctl_slots (s_ctl s) ! i) \<longleftrightarrow> (\<exists>!t. held (r_pc (s_thr s t)) = Some i)"
proof -
  have inv: "ctl_inv s" using ctl_reach_inv assms by blast
  show ?thesis
  proof
    assume "sl_in_use (g_ctl_slots (s_ctl s) ! i)"
    then obtain t where "held (r_pc (s_thr s t)) = Some i" using inv assms(3) by (auto simp: ctl_inv_def owned_ok_def)
    then show "\<exists>!t. held (r_pc (s_thr s t)) = Some i" using inv_excl [OF inv] by blast
  next
    assume "\<exists>!t. held (r_pc (s_thr s t)) = Some i"
    then show "sl_in_use (g_ctl_slots (s_ctl s) ! i)" using inv_held [OF inv] by (auto simp: slot_for_def)
  qed
qed

theorem ctl_slots_owned_witness:
  "\<exists>s. ctl_reach s \<and> r_pc (s_thr s 0) = R_wait 0 \<and> sl_in_use (g_ctl_slots (s_ctl s) ! 0) \<and>
     (\<exists>!t. held (r_pc (s_thr s t)) = Some 0)"
proof -
  obtain s where s: "run_ctl demo_wait csys0 = Some s" "r_pc (s_thr s 0) = R_wait 0" "s_hist s = [demo_req]"
      "g_ctl_slots (s_ctl s) = demo_slot # replicate 15 slot0"
    using demo_wait_ok by blast
  have r: "ctl_reach s" using run_ctl_reach [OF ctl_init s(1)] .
  have u: "sl_in_use (g_ctl_slots (s_ctl s) ! 0)" using s(4) by (simp add: demo_slot_def)
  have "\<exists>!t. held (r_pc (s_thr s t)) = Some 0"
    using ctl_slots_owned [OF r, of 0] s(3) u by (simp add: PROCFS_CTL_SLOTS_def)
  then show ?thesis using r s u by blast
qed



text \<open>
  A response shorter than the payload length it announces is accepted: the
  request succeeds with that length, and what it returns are the bytes an
  earlier request left in the slot.
\<close>

lemma ctl_short_response_stale:
  assumes "0 < plen" "plen \<le> PROCFS_CTL_MAXPAYLOAD" "length m < sizeof_resp + plen" "resp_error resp = 0"
  shows "slot_result (fill_slot m resp plen sl) outcap = Inr (take (min plen outcap) (sl_buf sl))"
  using assms by (simp add: slot_result_def fill_slot_def err_of_def)

theorem ctl_short_response_stale_witness:
  "slot_result (fill_slot [] \<lparr> resp_magic = 0, resp_seq = 0, resp_error = 0, resp_len = 4 \<rparr> 4
     (slot0\<lparr> sl_buf := ''secret'' \<rparr>)) 100 = Inr ''secr''"
  using ctl_short_response_stale [of 4 "[]" "\<lparr> resp_magic = 0, resp_seq = 0, resp_error = 0, resp_len = 4 \<rparr>" "slot0\<lparr> sl_buf := ''secret'' \<rparr>" 100]
  by (simp add: sizeof_resp_def PROCFS_CTL_MAXPAYLOAD_def)

lemma register_fails_clean:
  "fst (procfs_ctl_register a b c ctl) = False \<Longrightarrow>
    \<not> g_ctl_grp (snd (procfs_ctl_register a b c ctl)) \<and>
    g_ctl_ref (snd (procfs_ctl_register a b c ctl)) = g_ctl_ref ctl"
  by (auto simp: procfs_ctl_register_def Let_def split: if_splits)

lemma register_deregister:
  "ctl = ctl0 \<Longrightarrow> procfs_ctl_deregister (snd (procfs_ctl_register True True True ctl)) = ctl0"
  by (simp add: procfs_ctl_register_def procfs_ctl_deregister_def Let_def ctl0_def)

end
