(* ===== verification/Fd.thy ===== *)
theory Fd
imports Kern
begin

text \<open>
  The descriptor nodes and process links of \<^verbatim>\<open>kext/procfs_fd.c\<close>: the details of an
  open file, the summary of a socket, the number of descriptors and the targets
  of \<^verbatim>\<open>exe\<close>, \<^verbatim>\<open>cwd\<close> and \<^verbatim>\<open>root\<close>. Proved: the file details are a block of the size
  the layout announces, every reference a read takes is given back on every
  path, and what each link resolves to.
\<close>

section \<open>Structures in memory\<close>

definition put_fileinfo :: "proc_fileinfo \<Rightarrow> bytes" where
  "put_fileinfo f = le_bytes 4 (fi_openflags f) @ le_bytes 4 (fi_status f) @ le_bytes 8 (fi_offset f) @
     le_bytes 4 (fi_type f) @ le_bytes 4 (fi_guardflags f)"

definition put_vinfo_stat :: "vinfo_stat \<Rightarrow> bytes" where
  "put_vinfo_stat v =
     le_bytes 4 (vst_dev v) @ le_bytes 2 (vst_mode v) @ le_bytes 2 (vst_nlink v) @ le_bytes 8 (vst_ino v) @
     le_bytes 4 (vst_uid v) @ le_bytes 4 (vst_gid v) @
     le_bytes 8 (vst_atime v) @ le_bytes 8 (vst_atimensec v) @ le_bytes 8 (vst_mtime v) @ le_bytes 8 (vst_mtimensec v) @
     le_bytes 8 (vst_ctime v) @ le_bytes 8 (vst_ctimensec v) @ le_bytes 8 (vst_birthtime v) @ le_bytes 8 (vst_birthtimensec v) @
     le_bytes 8 (vst_size v) @ le_bytes 8 (vst_blocks v) @ le_bytes 4 (vst_blksize v) @ le_bytes 4 (vst_flags v) @
     le_bytes 4 (vst_gen v) @ le_bytes 4 (vst_rdev v) @ le_bytes 8 (vst_qspare0 v) @ le_bytes 8 (vst_qspare1 v)"

definition put_vnode_info :: "vnode_info \<Rightarrow> bytes" where
  "put_vnode_info vi = put_vinfo_stat (vi_stat vi) @ le_bytes 4 (vi_type vi) @ le_bytes 4 0 @
     le_bytes 4 (fst (vi_fsid vi)) @ le_bytes 4 (snd (vi_fsid vi))"

definition MAXPATHLEN :: nat where "MAXPATHLEN = 1024"

text \<open>A string in a buffer of \<open>n\<close> bytes, the rest zero.\<close>

definition put_string :: "nat \<Rightarrow> string \<Rightarrow> bytes" where
  "put_string n s = strlcpy n s @ replicate (n - length (strlcpy n s)) (CHR 0x00)"

record vnode_fdinfowithpath =
  pfi :: proc_fileinfo
  vip_vi :: vnode_info
  vip_path :: string

definition put_vnode_fdinfowithpath :: "vnode_fdinfowithpath \<Rightarrow> bytes" where
  "put_vnode_fdinfowithpath i = put_fileinfo (pfi i) @ put_vnode_info (vip_vi i) @ put_string MAXPATHLEN (vip_path i)"

definition vnode_info0 :: vnode_info where
  "vnode_info0 = \<lparr> vi_stat = munge_vinfo_stat stat64_0, vi_type = 0, vi_fsid = (0, 0) \<rparr>"

section \<open>File descriptors\<close>

text \<open>
  The descriptor number is the object id cut to \<^verbatim>\<open>int\<close>. With the iocount in hand a
  failing \<^verbatim>\<open>vn_getpath\<close> leaves the zeroed path.
\<close>

definition node_fd :: "pfsnode \<Rightarrow> int" where
  "node_fd pnp = to_int32 (uint (nodeid_objectid (node_id pnp)))"

definition fd_details ::
  "kenv \<Rightarrow> ksyms \<Rightarrow> vnode \<Rightarrow> proc_fileinfo \<Rightarrow> kst \<Rightarrow> (errno + vnode_fdinfowithpath) \<times> kst" where
  "fd_details k ks vp fi st =
     (case fill_vnodeinfo k ks vp vnode_info0 st of
        ((Some e, _), st) \<Rightarrow> (Inl e, st)
      | ((None, vi), st) \<Rightarrow>
          (Inr \<lparr> pfi = fi, vip_vi = vi,
                 vip_path = strlcpy MAXPATHLEN (case vn_getpath_k k vp of None \<Rightarrow> [] | Some s \<Rightarrow> s) \<rparr>, st))"

definition procfs_read_fd_data ::
  "kenv \<Rightarrow> ksyms \<Rightarrow> uiomove_fn \<Rightarrow> pfsnode \<Rightarrow> uio \<Rightarrow> kst \<Rightarrow> (err \<times> uio) \<times> kst" where
  "procfs_read_fd_data k ks um pnp uio st =
     (case proc_find k (nodeid_pid (node_id pnp)) st of
        (None, st) \<Rightarrow> ((Some ESRCH, uio), st)
      | (Some p, st) \<Rightarrow>
          (case procfs_fd_vnode_info k p (node_fd pnp) st of
             (Inl e, st) \<Rightarrow> ((Some e, uio), proc_rele (nodeid_pid (node_id pnp)) st)
           | (Inr (vp, vid, fi), st) \<Rightarrow>
               (case vnode_getwithvid k vp vid st of
                  (Some e, st) \<Rightarrow> ((Some e, uio), proc_rele (nodeid_pid (node_id pnp)) st)
                | (None, st) \<Rightarrow>
                    (case fd_details k ks vp fi st of
                       (Inl e, st) \<Rightarrow> ((Some e, uio), proc_rele (nodeid_pid (node_id pnp)) (vnode_put vp st))
                     | (Inr info, st) \<Rightarrow>
                         (procfs_copy_data um (Some (put_vnode_fdinfowithpath info))
                            (int sizeof_vnode_fdinfowithpath) uio,
                          proc_rele (nodeid_pid (node_id pnp)) (vnode_put vp st))))))"

section \<open>Sockets\<close>

text \<open>
  A socket as the \<^verbatim>\<open>sock_*\<close> interface reports it: domain, type and protocol, and the
  local and remote address if there is one, as port and address bytes (for a
  UNIX socket the address bytes alone matter).
\<close>

record sock_env =
  sock_gettype :: "socket \<Rightarrow> int \<times> int \<times> int"
  sock_getsockname :: "socket \<Rightarrow> (int \<times> bytes) option"
  sock_getpeername :: "socket \<Rightarrow> (int \<times> bytes) option"

record in_sockinfo =
  insi_vflag :: int
  insi_lport :: int
  insi_laddr :: bytes
  insi_fport :: int
  insi_faddr :: bytes

datatype soi_proto = PRI_none | PRI_in in_sockinfo | PRI_tcp in_sockinfo | PRI_un bytes bytes

record socket_info =
  soi_so :: nat
  soi_type :: int
  soi_protocol :: int
  soi_family :: int
  soi_kind :: int
  soi_proto_info :: soi_proto

definition AF_UNIX :: int where "AF_UNIX = 1"
definition AF_INET :: int where "AF_INET = 2"
definition AF_INET6 :: int where "AF_INET6 = 30"
definition IPPROTO_TCP :: int where "IPPROTO_TCP = 6"
definition INI_IPV4 :: int where "INI_IPV4 = 1"
definition INI_IPV6 :: int where "INI_IPV6 = 2"
definition SOCKINFO_GENERIC :: int where "SOCKINFO_GENERIC = 0"
definition SOCKINFO_IN :: int where "SOCKINFO_IN = 1"
definition SOCKINFO_TCP :: int where "SOCKINFO_TCP = 2"
definition SOCKINFO_UN :: int where "SOCKINFO_UN = 3"

definition in_sockinfo0 :: in_sockinfo where
  "in_sockinfo0 = \<lparr> insi_vflag = 0, insi_lport = 0, insi_laddr = [], insi_fport = 0, insi_faddr = [] \<rparr>"

definition fill_in_sockinfo :: "sock_env \<Rightarrow> socket \<Rightarrow> int \<Rightarrow> in_sockinfo" where
  "fill_in_sockinfo se so dm =
     (let ini = (case sock_getsockname se so of
                   None \<Rightarrow> in_sockinfo0
                 | Some (port, a) \<Rightarrow>
                     in_sockinfo0\<lparr> insi_vflag := (if dm = AF_INET then INI_IPV4 else INI_IPV6),
                                   insi_lport := port, insi_laddr := a \<rparr>)
      in case sock_getpeername se so of
           None \<Rightarrow> ini
         | Some (port, a) \<Rightarrow> ini\<lparr> insi_fport := port, insi_faddr := a \<rparr>)"

definition procfs_fill_socketinfo :: "sock_env \<Rightarrow> socket \<Rightarrow> socket_info" where
  "procfs_fill_socketinfo se so =
     (case sock_gettype se so of
        (dm, type, proto) \<Rightarrow>
          (let si = \<lparr> soi_so = so, soi_type = type, soi_protocol = proto, soi_family = dm,
                      soi_kind = 0, soi_proto_info = PRI_none \<rparr>
           in if dm = AF_INET \<or> dm = AF_INET6 then
                if proto = IPPROTO_TCP
                then si\<lparr> soi_kind := SOCKINFO_TCP, soi_proto_info := PRI_tcp (fill_in_sockinfo se so dm) \<rparr>
                else si\<lparr> soi_kind := SOCKINFO_IN, soi_proto_info := PRI_in (fill_in_sockinfo se so dm) \<rparr>
              else if dm = AF_UNIX then
                si\<lparr> soi_kind := SOCKINFO_UN,
                    soi_proto_info := PRI_un (case sock_getsockname se so of None \<Rightarrow> [] | Some (_, a) \<Rightarrow> a)
                                        (case sock_getpeername se so of None \<Rightarrow> [] | Some (_, a) \<Rightarrow> a) \<rparr>
              else si\<lparr> soi_kind := SOCKINFO_GENERIC \<rparr>))"

text \<open>\<open>enc\<close> is the memory layout of \<^verbatim>\<open>struct socket_info\<close>.\<close>

definition procfs_read_socket_data ::
  "kenv \<Rightarrow> sock_env \<Rightarrow> (socket_info \<Rightarrow> bytes) \<Rightarrow> uiomove_fn \<Rightarrow> pfsnode \<Rightarrow> uio \<Rightarrow> kst \<Rightarrow> (err \<times> uio) \<times> kst" where
  "procfs_read_socket_data k se enc um pnp uio st =
     (case proc_find k (nodeid_pid (node_id pnp)) st of
        (None, st) \<Rightarrow> ((Some ESRCH, uio), st)
      | (Some p, st) \<Rightarrow>
          (case procfs_fd_socket p (node_fd pnp) st of
             (Inl e, st) \<Rightarrow> ((Some e, uio), proc_rele (nodeid_pid (node_id pnp)) st)
           | (Inr (so, fi), st) \<Rightarrow>
               (let info = procfs_fill_socketinfo se so; st = sock_release so st
                in (procfs_copy_data um (Some (put_fileinfo fi @ enc info)) (int sizeof_socket_fdinfo) uio,
                    proc_rele (nodeid_pid (node_id pnp)) st))))"

section \<open>Sizes and links\<close>

definition procfs_fd_node_size :: "kenv \<Rightarrow> pfsnode \<Rightarrow> kst \<Rightarrow> nat \<times> kst" where
  "procfs_fd_node_size k pnp st =
     (case proc_find k (nodeid_pid (node_id pnp)) st of
        (None, st) \<Rightarrow> (0, st)
      | (Some p, st) \<Rightarrow>
          (case procfs_get_fd_list k (Some p) st of
             ((error, fdlist), st) \<Rightarrow>
               (if error = None then length (fd_list_of fdlist) else 0,
                proc_rele (nodeid_pid (node_id pnp)) (procfs_release_fd_list fdlist st))))"

definition link_vnode :: "proc \<Rightarrow> string \<Rightarrow> vnode option" where
  "link_vnode p name =
     (if name = ''exe'' then p_textvp p
      else if name = ''cwd'' then fd_cdir (p_fd p)
      else if name = ''root'' then fd_rdir (p_fd p) else None)"

definition procfs_proclink_path :: "kenv \<Rightarrow> int \<Rightarrow> string \<Rightarrow> kst \<Rightarrow> (errno + string) \<times> kst" where
  "procfs_proclink_path k pid name st =
     (case proc_find k pid st of
        (None, st) \<Rightarrow> (Inl ESRCH, st)
      | (Some p, st) \<Rightarrow>
          (case (case link_vnode p name of
                   None \<Rightarrow> (None, st)
                 | Some vp \<Rightarrow> (case vnode_get k vp st of (Some e, st) \<Rightarrow> (None, st) | (None, st) \<Rightarrow> (Some vp, st))) of
             (Some vp, st) \<Rightarrow>
               ((case vn_getpath_k k vp of Some path \<Rightarrow> Inr path | None \<Rightarrow> Inl ENOENT),
                proc_rele pid (vnode_put vp st))
           | (None, st) \<Rightarrow>
               ((if name = ''root'' then Inr ''/'' else Inl ENOENT), proc_rele pid st)))"

section \<open>Results\<close>

lemma length_put_string [simp]: "0 < n \<Longrightarrow> length (put_string n s) = n"
  using length_strlcpy [of n s] by (simp add: put_string_def)

lemma length_put_fileinfo [simp]: "length (put_fileinfo f) = 24"
  by (simp add: put_fileinfo_def)

lemma length_fdinfo [simp]: "length (put_vnode_fdinfowithpath i) = sizeof_vnode_fdinfowithpath"
  by (simp add: put_vnode_fdinfowithpath_def put_vnode_info_def put_vinfo_stat_def MAXPATHLEN_def
      sizeof_vnode_fdinfowithpath_def)

lemma fill_vnodeinfo_state [simp]: "snd (fill_vnodeinfo k ks vp vi st) = st"
  by (simp add: fill_vnodeinfo_def Let_def split: prod.split)

lemma fill_vnodeinfo_pair: "fill_vnodeinfo k ks vp vi st = (fst (fill_vnodeinfo k ks vp vi st), st)"
  by (metis fill_vnodeinfo_state prod.collapse)

lemma fd_details_state: "snd (fd_details k ks vp fi st) = st"
  unfolding fd_details_def by (subst fill_vnodeinfo_pair) (auto split: prod.split option.split)

lemma fd_vnode_info_pair: "procfs_fd_vnode_info k p fd st = (fst (procfs_fd_vnode_info k p fd st), st)"
  by (metis fd_vnode_info_state prod.collapse)

lemma vnode_info_indep: "fst (procfs_fd_vnode_info k p fd st) = fst (procfs_fd_vnode_info k p fd st')"
  by (simp add: procfs_fd_vnode_info_def Let_def split: option.split)

lemma read_fd_data_state: "snd (procfs_read_fd_data k ks um pnp uio st) = st"
proof (cases "proc_find_k k (nodeid_pid (node_id pnp))")
  case (Some p)
  define pid where "pid = nodeid_pid (node_id pnp)"
  define st1 where "st1 = proc_hold pid st"
  have f: "proc_find k pid st = (Some p, st1)" using Some by (simp add: pid_def st1_def)
  have r: "proc_rele pid st1 = st" by (simp add: st1_def)
  obtain x where x: "procfs_fd_vnode_info k p (node_fd pnp) st1 = (x, st1)"
    using fd_vnode_info_pair [of k p "node_fd pnp" st1] by blast
  show ?thesis
  proof (cases x)
    case (Inl e)
    then show ?thesis using f x r by (simp add: procfs_read_fd_data_def pid_def)
  next
    case (Inr v)
    obtain vp vid fi where v: "v = (vp, vid, fi)" by (cases v) auto
    obtain y where y: "fd_details k ks vp fi (vnode_hold vp st1) = (y, vnode_hold vp st1)"
      using fd_details_state [of k ks vp fi "vnode_hold vp st1"] by (metis prod.collapse)
    show ?thesis
      using f x Inr v y r
      by (simp add: procfs_read_fd_data_def pid_def vnode_getwithvid_def split: option.split sum.split)
  qed
qed (simp add: procfs_read_fd_data_def)

lemma read_socket_data_state: "snd (procfs_read_socket_data k se enc um pnp uio st) = st"
proof (cases "proc_find_k k (nodeid_pid (node_id pnp))")
  case (Some p)
  define pid where "pid = nodeid_pid (node_id pnp)"
  define st1 where "st1 = proc_hold pid st"
  have f: "proc_find k pid st = (Some p, st1)" using Some by (simp add: pid_def st1_def)
  have r: "proc_rele pid st1 = st" by (simp add: st1_def)
  obtain x s where x: "procfs_fd_socket p (node_fd pnp) st1 = (x, s)" by fastforce
  have s: "s = (case x of Inl e \<Rightarrow> st1 | Inr (so, fi) \<Rightarrow> sock_retain so st1)"
    using fd_socket_state [of p "node_fd pnp" st1] x by simp
  show ?thesis using f x s r
    by (simp add: procfs_read_socket_data_def pid_def Let_def split: sum.split prod.split)
qed (simp add: procfs_read_socket_data_def)

lemma fd_node_size_eq:
  "procfs_fd_node_size k pnp st =
     ((case proc_find_k k (nodeid_pid (node_id pnp)) of
         None \<Rightarrow> 0
       | Some p \<Rightarrow> if procfs_fd_layout_ok (p_fd p) \<and> malloc_ok k (fd_afterlast (p_fd p) * 8)
                  then length (open_fds p) else 0), st)"
proof (cases "proc_find_k k (nodeid_pid (node_id pnp))")
  case (Some p)
  then show ?thesis
    by (auto simp: procfs_fd_node_size_def get_fd_list_eq procfs_release_fd_list_def free_k_def
        fd_list_of_def open_fds_empty proc_hold_def proc_rele_def)
qed (simp add: procfs_fd_node_size_def)

lemma proclink_eq:
  "procfs_proclink_path k pid name st =
     ((case proc_find_k k pid of
         None \<Rightarrow> Inl ESRCH
       | Some p \<Rightarrow>
           (case link_vnode p name of
              Some vp \<Rightarrow>
                if vnode_get_k k vp = None
                then (case vn_getpath_k k vp of Some path \<Rightarrow> Inr path | None \<Rightarrow> Inl ENOENT)
                else if name = ''root'' then Inr ''/'' else Inl ENOENT
            | None \<Rightarrow> if name = ''root'' then Inr ''/'' else Inl ENOENT)), st)"
  by (cases "proc_find_k k pid") (auto simp: procfs_proclink_path_def vnode_get_def split: option.split)

text \<open>
  C36: the handlers of the descriptor nodes and links give back, on every path
  including every failure, all they acquired: process references, the
  descriptor table mutex, vnode iocounts, socket references and list blocks.
\<close>

theorem fd_handlers_balanced:
  "snd (procfs_read_fd_data k ks um pnp uio st) = st \<and>
   snd (procfs_read_socket_data k se enc um pnp uio st) = st \<and>
   snd (procfs_fd_node_size k pnp st) = st \<and>
   snd (procfs_proclink_path k pid name st) = st"
  by (simp add: read_fd_data_state read_socket_data_state fd_node_size_eq proclink_eq)

end
