(* ===== verification/Status.thy ===== *)
theory Status
imports Vm Memory Ctl Fd
begin

text \<open>
  The process and thread nodes with a fixed content: \<^verbatim>\<open>kext/procfs_status.c\<close> up to the
  node sizes, \<^verbatim>\<open>kext/procfs_regs.c\<close>, \<^verbatim>\<open>kext/procfs_fpregs.c\<close>, and the per-process and
  per-thread text nodes of \<^verbatim>\<open>kext/procfs_linux.c\<close>. What procfsd answers comes through
  the function argument \<open>rq\<close>, the interface of \<^verbatim>\<open>procfs_ctl_request\<close>. Proved: every
  handler gives back what it acquires, every text fits the buffer it is formatted
  into, and the stat lines have the 52 fields of their Linux counterpart.
\<close>

section \<open>Structures\<close>

type_synonym ctl_rq = "int \<Rightarrow> int \<Rightarrow> int \<Rightarrow> nat \<Rightarrow> errno + bytes"

text \<open>A character array of \<open>n\<close> bytes holding a string.\<close>

definition char_array :: "nat \<Rightarrow> string \<Rightarrow> bytes" where
  "char_array n s = take n (s @ replicate (n - length s) (CHR 0x00))"

definition put_bsdshortinfo :: "proc_bsdshortinfo \<Rightarrow> bytes" where
  "put_bsdshortinfo i =
     le_bytes 4 (pbsi_pid i) @ le_bytes 4 (pbsi_ppid i) @ le_bytes 4 (pbsi_pgid i) @ le_bytes 4 (pbsi_status i) @
     char_array MAXCOMLEN (pbsi_comm i) @ le_bytes 4 (pbsi_flags i) @ le_bytes 4 (pbsi_uid i) @ le_bytes 4 (pbsi_gid i) @
     le_bytes 4 (pbsi_ruid i) @ le_bytes 4 (pbsi_rgid i) @ le_bytes 4 (pbsi_svuid i) @ le_bytes 4 (pbsi_svgid i) @
     le_bytes 4 0"

definition put_taskinfo :: "proc_taskinfo \<Rightarrow> bytes" where
  "put_taskinfo i =
     concat (map (le_bytes 8) [pti_virtual_size i, pti_resident_size i, pti_total_user i, pti_total_system i,
       pti_threads_user i, pti_threads_system i]) @
     concat (map (le_bytes 4) [pti_policy i, pti_faults i, pti_pageins i, pti_cow_faults i, pti_messages_sent i,
       pti_messages_received i, pti_syscalls_mach i, pti_syscalls_unix i, pti_csw i, pti_threadnum i,
       pti_numrunning i, pti_priority i])"

definition get_taskinfo :: "bytes \<Rightarrow> proc_taskinfo" where
  "get_taskinfo b =
     \<lparr> pti_virtual_size = get_field 0 8 b, pti_resident_size = get_field 8 8 b, pti_total_user = get_field 16 8 b,
       pti_total_system = get_field 24 8 b, pti_threads_user = get_field 32 8 b, pti_threads_system = get_field 40 8 b,
       pti_policy = to_int32 (get_field 48 4 b), pti_faults = to_int32 (get_field 52 4 b),
       pti_pageins = to_int32 (get_field 56 4 b), pti_cow_faults = to_int32 (get_field 60 4 b),
       pti_messages_sent = to_int32 (get_field 64 4 b), pti_messages_received = to_int32 (get_field 68 4 b),
       pti_syscalls_mach = to_int32 (get_field 72 4 b), pti_syscalls_unix = to_int32 (get_field 76 4 b),
       pti_csw = to_int32 (get_field 80 4 b), pti_threadnum = to_int32 (get_field 84 4 b),
       pti_numrunning = to_int32 (get_field 88 4 b), pti_priority = to_int32 (get_field 92 4 b) \<rparr>"

record proc_threadinfo =
  pth_user_time :: int
  pth_system_time :: int
  pth_policy :: int
  pth_run_state :: int
  pth_curpri :: int
  pth_name :: string

definition get_threadinfo :: "bytes \<Rightarrow> proc_threadinfo" where
  "get_threadinfo b =
     \<lparr> pth_user_time = get_field 0 8 b, pth_system_time = get_field 8 8 b, pth_policy = to_int32 (get_field 20 4 b),
       pth_run_state = to_int32 (get_field 24 4 b), pth_curpri = to_int32 (get_field 36 4 b),
       pth_name = cstr (take 64 (drop 48 b)) \<rparr>"

section \<open>Ids, terminal and status\<close>

definition copy_int :: "uiomove_fn \<Rightarrow> int \<Rightarrow> uio \<Rightarrow> err \<times> uio" where
  "copy_int um x uio = procfs_copy_data um (Some (le_bytes 4 x)) 4 uio"

definition procfs_read_pid_data :: "uiomove_fn \<Rightarrow> pfsnode \<Rightarrow> uio \<Rightarrow> err \<times> uio" where
  "procfs_read_pid_data um pnp uio = copy_int um (nodeid_pid (node_id pnp)) uio"

definition procfs_read_ppid_data :: "kenv \<Rightarrow> uiomove_fn \<Rightarrow> pfsnode \<Rightarrow> uio \<Rightarrow> kst \<Rightarrow> (err \<times> uio) \<times> kst" where
  "procfs_read_ppid_data k um pnp uio st =
     (case proc_find k (nodeid_pid (node_id pnp)) st of
        (Some p, st) \<Rightarrow> (copy_int um (p_ppid p) uio, proc_rele (nodeid_pid (node_id pnp)) st)
      | (None, st) \<Rightarrow> ((Some ESRCH, uio), st))"

definition procfs_read_pgid_data :: "kenv \<Rightarrow> uiomove_fn \<Rightarrow> pfsnode \<Rightarrow> uio \<Rightarrow> kst \<Rightarrow> (err \<times> uio) \<times> kst" where
  "procfs_read_pgid_data k um pnp uio st =
     (case proc_find k (nodeid_pid (node_id pnp)) st of
        (Some p, st) \<Rightarrow> (copy_int um (p_pgrpid p) uio, proc_rele (nodeid_pid (node_id pnp)) st)
      | (None, st) \<Rightarrow> ((Some ESRCH, uio), st))"

definition procfs_read_sid_data :: "kenv \<Rightarrow> uiomove_fn \<Rightarrow> pfsnode \<Rightarrow> uio \<Rightarrow> kst \<Rightarrow> (err \<times> uio) \<times> kst" where
  "procfs_read_sid_data k um pnp uio st =
     (case proc_find k (nodeid_pid (node_id pnp)) st of
        (Some p, st) \<Rightarrow> (copy_int um (p_sessionid p) uio, proc_rele (nodeid_pid (node_id pnp)) st)
      | (None, st) \<Rightarrow> ((Some ESRCH, uio), st))"

text \<open>\<^verbatim>\<open>proc_gettty\<close> returns the terminal's vnode with an iocount.\<close>

definition gettty :: "(proc \<Rightarrow> err \<times> vnode option) \<Rightarrow> proc \<Rightarrow> kst \<Rightarrow> vnode option \<times> kst" where
  "gettty f p st =
     (case f p of
        (None, Some vp) \<Rightarrow> (Some vp, vnode_hold vp st)
      | _ \<Rightarrow> (None, st))"

definition procfs_read_tty_data :: "kenv \<Rightarrow> ksyms \<Rightarrow> uiomove_fn \<Rightarrow> pfsnode \<Rightarrow> uio \<Rightarrow> kst \<Rightarrow> (err \<times> uio) \<times> kst" where
  "procfs_read_tty_data k ks um pnp uio st =
     (let pid = nodeid_pid (node_id pnp) in
      case sym_proc_gettty ks of
        None \<Rightarrow> ((Some ENOTSUP, uio), st)
      | Some f \<Rightarrow>
          (case proc_find k pid st of
             (None, st) \<Rightarrow> ((Some ESRCH, uio), st)
           | (Some p, st) \<Rightarrow>
               (case gettty f p st of
                  (Some vp, st) \<Rightarrow>
                    ((case vn_getpath_k k vp of
                        Some path \<Rightarrow> procfs_copy_data um (Some (path @ [CHR 0x00])) (int (length path)) uio
                      | None \<Rightarrow> (Some EIO, uio)),
                     proc_rele pid (vnode_put vp st))
                | (None, st) \<Rightarrow> (empty_copy um uio, proc_rele pid st))))"

section \<open>Context of the Linux text nodes\<close>

definition SIDL :: int where "SIDL = 1"
definition SRUN :: int where "SRUN = 2"
definition SSLEEP :: int where "SSLEEP = 3"
definition SSTOP :: int where "SSTOP = 4"

definition procfs_proc_state :: "int \<Rightarrow> char" where
  "procfs_proc_state ps =
     (if ps = SIDL then CHR ''I'' else if ps = SRUN then CHR ''R'' else if ps = SSTOP then CHR ''T''
      else if ps = SZOMB then CHR ''Z'' else CHR ''S'')"

record procfs_pctx =
  c_pid :: int
  c_ppid :: int
  c_pgid :: int
  c_sid :: int
  c_nthreads :: int
  c_vsize :: int
  c_rsize :: int
  c_comm :: string
  c_state :: char

text \<open>\<open>g\<close> is the size of a thread structure, learned at the first thread listing.\<close>

definition procfs_pctx_get ::
  "kenv \<Rightarrow> vm_syms \<Rightarrow> int \<Rightarrow> pfsnode \<Rightarrow> int option \<Rightarrow> kst \<Rightarrow> procfs_pctx \<times> int option \<times> kst" where
  "procfs_pctx_get k vs pg pnp g st =
     (let pid = nodeid_pid (node_id pnp);
          c = \<lparr> c_pid = pid, c_ppid = 0, c_pgid = 0, c_sid = 0, c_nthreads = 0, c_vsize = 0, c_rsize = 0,
                c_comm = [], c_state = CHR ''S'' \<rparr>
      in case proc_find k pid st of
           (None, st) \<Rightarrow> (c, g, st)
         | (Some p, st) \<Rightarrow>
             (case procfs_get_task_thread_count k (Some p) g st of
                (n, g, st) \<Rightarrow>
                  (case procfs_task_vm_sizes vs pg p of
                     (_, v, r) \<Rightarrow>
                       (c\<lparr> c_ppid := p_ppid p, c_pgid := p_pgrpid p, c_sid := p_sessionid p, c_nthreads := n,
                          c_state := procfs_proc_state (p_stat p), c_vsize := v, c_rsize := r,
                          c_comm := strlcpy (MAXCOMLEN + 1) (proc_name_k k pid) \<rparr>,
                        g, proc_rele pid st))))"

definition procfs_thread_info :: "ctl_rq \<Rightarrow> pfsnode \<Rightarrow> err \<times> proc_threadinfo" where
  "procfs_thread_info rq pnp =
     (case rq PROCFS_REQ_THREADINFO (nodeid_pid (node_id pnp)) (uint (nodeid_objectid (node_id pnp))) sizeof_proc_threadinfo of
        Inl _ \<Rightarrow> (Some ENOTSUP, get_threadinfo (replicate sizeof_proc_threadinfo (CHR 0x00)))
      | Inr b \<Rightarrow> (if length b = sizeof_proc_threadinfo then None else Some ENOTSUP,
                  get_threadinfo (char_array sizeof_proc_threadinfo b)))"

definition procfs_task_info :: "ctl_rq \<Rightarrow> pfsnode \<Rightarrow> err \<times> proc_taskinfo" where
  "procfs_task_info rq pnp =
     (case rq PROCFS_REQ_TASKINFO (nodeid_pid (node_id pnp)) 0 sizeof_proc_taskinfo of
        Inl _ \<Rightarrow> (Some ENOTSUP, get_taskinfo (replicate sizeof_proc_taskinfo (CHR 0x00)))
      | Inr b \<Rightarrow> (if length b = sizeof_proc_taskinfo then None else Some ENOTSUP,
                  get_taskinfo (char_array sizeof_proc_taskinfo b)))"

definition TH_STATE_RUNNING :: int where "TH_STATE_RUNNING = 1"
definition TH_STATE_STOPPED :: int where "TH_STATE_STOPPED = 2"
definition TH_STATE_UNINTERRUPTIBLE :: int where "TH_STATE_UNINTERRUPTIBLE = 4"

definition procfs_thread_state :: "int \<Rightarrow> char" where
  "procfs_thread_state run_state =
     (if run_state = TH_STATE_RUNNING then CHR ''R'' else if run_state = TH_STATE_STOPPED then CHR ''T''
      else if run_state = TH_STATE_UNINTERRUPTIBLE then CHR ''D'' else CHR ''S'')"

definition procfs_thread_state_word :: "char \<Rightarrow> string" where
  "procfs_thread_state_word c =
     (if c = CHR ''R'' then ''running'' else if c = CHR ''T'' then ''stopped'' else if c = CHR ''D'' then ''disk sleep''
      else if c = CHR ''Z'' then ''zombie'' else if c = CHR ''I'' then ''idle'' else ''sleeping'')"

section \<open>Text nodes in a local buffer\<close>

text \<open>
  \<^verbatim>\<open>snprintf\<close> into a buffer of \<open>sz\<close> bytes and a copy of as many bytes as it
  returned, the length of the whole text.
\<close>

definition snprintf_copy :: "uiomove_fn \<Rightarrow> nat \<Rightarrow> string \<Rightarrow> uio \<Rightarrow> err \<times> uio" where
  "snprintf_copy um sz txt uio =
     procfs_copy_data um (Some (strlcpy sz txt @ [CHR 0x00])) (int (length txt)) uio"

definition MAXTHREADNAMESIZE :: nat where "MAXTHREADNAMESIZE = 64"
definition PROCFS_NS_PER_TICK :: int where "PROCFS_NS_PER_TICK = 10000000"

abbreviation nl :: string where "nl \<equiv> [CHR 0x0A]"
abbreviation tab :: string where "tab \<equiv> [CHR 0x09]"
abbreviation sp :: string where "sp \<equiv> '' ''"

definition threadcomm_text :: "kenv \<Rightarrow> ctl_rq \<Rightarrow> pfsnode \<Rightarrow> string" where
  "threadcomm_text k rq pnp =
     (let ti = snd (procfs_thread_info rq pnp)
      in (if pth_name ti \<noteq> [] then pth_name ti else strlcpy (MAXCOMLEN + 1) (proc_name_k k (nodeid_pid (node_id pnp)))) @ nl)"

definition procfs_dothreadcomm :: "kenv \<Rightarrow> ctl_rq \<Rightarrow> uiomove_fn \<Rightarrow> pfsnode \<Rightarrow> uio \<Rightarrow> err \<times> uio" where
  "procfs_dothreadcomm k rq um pnp uio = snprintf_copy um (MAXTHREADNAMESIZE + 2) (threadcomm_text k rq pnp) uio"

definition thread_name :: "proc_threadinfo \<Rightarrow> procfs_pctx \<Rightarrow> string" where
  "thread_name ti c = (if pth_name ti \<noteq> [] then pth_name ti else c_comm c)"

definition threadstat_text :: "int \<Rightarrow> int \<Rightarrow> proc_threadinfo \<Rightarrow> procfs_pctx \<Rightarrow> string" where
  "threadstat_text pg tid ti c =
     fmt_u tid @ '' ('' @ thread_name ti c @ '') '' @ [procfs_thread_state (pth_run_state ti)] @ sp @
     fmt_d (c_ppid c) @ sp @ fmt_d (c_pgid c) @ sp @ fmt_d (c_sid c) @ '' 0 -1 0 0 0 0 0 '' @
     fmt_u (pth_user_time ti div PROCFS_NS_PER_TICK) @ sp @ fmt_u (pth_system_time ti div PROCFS_NS_PER_TICK) @
     '' 0 0 '' @ fmt_d (pth_curpri ti) @ '' 0 '' @ fmt_d (c_nthreads c) @ '' 0 0 '' @
     fmt_u (c_vsize c) @ sp @ fmt_u (c_rsize c div pg) @ '' 18446744073709551615 '' @
     ''0 0 0 0 0 0 0 0 0 0 0 0 0 0 0 '' @ fmt_d (pth_policy ti) @ sp @ ''0 0 0 0 0 0 0 0 0 0 0'' @ nl"

definition procfs_dothreadstat ::
  "kenv \<Rightarrow> vm_syms \<Rightarrow> int \<Rightarrow> ctl_rq \<Rightarrow> uiomove_fn \<Rightarrow> pfsnode \<Rightarrow> uio \<Rightarrow> int option \<Rightarrow> kst \<Rightarrow> (err \<times> uio) \<times> int option \<times> kst" where
  "procfs_dothreadstat k vs pg rq um pnp uio g st =
     (let ti = snd (procfs_thread_info rq pnp) in
      case procfs_pctx_get k vs pg pnp g st of
        (c, g, st) \<Rightarrow>
          (snprintf_copy um 640 (threadstat_text pg (uint (nodeid_objectid (node_id pnp))) ti c) uio, g, st))"

definition threadstatus_text :: "int \<Rightarrow> proc_threadinfo \<Rightarrow> procfs_pctx \<Rightarrow> string" where
  "threadstatus_text tid ti c =
     (let s = procfs_thread_state (pth_run_state ti)
      in ''Name:'' @ tab @ thread_name ti c @ nl @ ''State:'' @ tab @ [s] @ '' ('' @ procfs_thread_state_word s @ '')'' @ nl @
         ''Tgid:'' @ tab @ fmt_d (c_pid c) @ nl @ ''Pid:'' @ tab @ fmt_u tid @ nl @ ''PPid:'' @ tab @ fmt_d (c_ppid c) @ nl @
         ''VmSize:'' @ tab @ pad_left (CHR '' '') 8 (fmt_u (c_vsize c div 1024)) @ '' kB'' @ nl @
         ''VmStk:'' @ tab @ pad_left (CHR '' '') 8 (fmt_u 0) @ '' kB'' @ nl @
         ''Threads:'' @ tab @ fmt_d (c_nthreads c) @ nl @
         ''voluntary_ctxt_switches:'' @ tab @ ''0'' @ nl @ ''nonvoluntary_ctxt_switches:'' @ tab @ ''0'' @ nl)"

definition procfs_dothreadstatus ::
  "kenv \<Rightarrow> vm_syms \<Rightarrow> int \<Rightarrow> ctl_rq \<Rightarrow> uiomove_fn \<Rightarrow> pfsnode \<Rightarrow> uio \<Rightarrow> int option \<Rightarrow> kst \<Rightarrow> (err \<times> uio) \<times> int option \<times> kst" where
  "procfs_dothreadstatus k vs pg rq um pnp uio g st =
     (let ti = snd (procfs_thread_info rq pnp) in
      case procfs_pctx_get k vs pg pnp g st of
        (c, g, st) \<Rightarrow>
          (snprintf_copy um 512 (threadstatus_text (uint (nodeid_objectid (node_id pnp))) ti c) uio, g, st))"

definition threadsched_text :: "int \<Rightarrow> proc_threadinfo \<Rightarrow> procfs_pctx \<Rightarrow> string" where
  "threadsched_text tid ti c =
     thread_name ti c @ '' ('' @ fmt_u tid @ '', #threads: '' @ fmt_d (c_nthreads c) @ '')'' @ nl @
     replicate 67 (CHR ''-'') @ nl @
     ''se.sum_exec_runtime  : '' @ pad_left (CHR '' '') 20 (fmt_u (to_uint64 (pth_user_time ti + pth_system_time ti))) @ nl @
     ''policy               : '' @ pad_left (CHR '' '') 20 (fmt_d (pth_policy ti)) @ nl @
     ''prio                 : '' @ pad_left (CHR '' '') 20 (fmt_d (pth_curpri ti)) @ nl"

definition procfs_dothreadsched ::
  "kenv \<Rightarrow> vm_syms \<Rightarrow> int \<Rightarrow> ctl_rq \<Rightarrow> uiomove_fn \<Rightarrow> pfsnode \<Rightarrow> uio \<Rightarrow> int option \<Rightarrow> kst \<Rightarrow> (err \<times> uio) \<times> int option \<times> kst" where
  "procfs_dothreadsched k vs pg rq um pnp uio g st =
     (let ti = snd (procfs_thread_info rq pnp) in
      case procfs_pctx_get k vs pg pnp g st of
        (c, g, st) \<Rightarrow>
          (snprintf_copy um 512 (threadsched_text (uint (nodeid_objectid (node_id pnp))) ti c) uio, g, st))"

definition procfs_docomm ::
  "kenv \<Rightarrow> vm_syms \<Rightarrow> int \<Rightarrow> uiomove_fn \<Rightarrow> pfsnode \<Rightarrow> uio \<Rightarrow> int option \<Rightarrow> kst \<Rightarrow> (err \<times> uio) \<times> int option \<times> kst" where
  "procfs_docomm k vs pg um pnp uio g st =
     (case procfs_pctx_get k vs pg pnp g st of
        (c, g, st) \<Rightarrow> (snprintf_copy um (MAXCOMLEN + 2) (c_comm c @ nl) uio, g, st))"

definition statm_text :: "int \<Rightarrow> procfs_pctx \<Rightarrow> string" where
  "statm_text pg c = fmt_u (c_vsize c div pg) @ sp @ fmt_u (c_rsize c div pg) @ '' 0 0 0 0 0'' @ nl"

definition procfs_dostatm ::
  "kenv \<Rightarrow> vm_syms \<Rightarrow> int \<Rightarrow> uiomove_fn \<Rightarrow> pfsnode \<Rightarrow> uio \<Rightarrow> int option \<Rightarrow> kst \<Rightarrow> (err \<times> uio) \<times> int option \<times> kst" where
  "procfs_dostatm k vs pg um pnp uio g st =
     (case procfs_pctx_get k vs pg pnp g st of
        (c, g, st) \<Rightarrow> (snprintf_copy um 128 (statm_text pg c) uio, g, st))"

definition procstat_text :: "int \<Rightarrow> proc_taskinfo \<Rightarrow> procfs_pctx \<Rightarrow> string" where
  "procstat_text pg ti c =
     fmt_d (c_pid c) @ '' ('' @ c_comm c @ '') '' @ [c_state c] @ sp @
     fmt_d (c_ppid c) @ sp @ fmt_d (c_pgid c) @ sp @ fmt_d (c_sid c) @ '' 0 -1 0 0 0 0 0 '' @
     fmt_u (pti_total_user ti div PROCFS_NS_PER_TICK) @ sp @ fmt_u (pti_total_system ti div PROCFS_NS_PER_TICK) @
     '' 0 0 20 0 '' @ fmt_d (c_nthreads c) @ '' 0 0 '' @
     fmt_u (c_vsize c) @ sp @ fmt_u (c_rsize c div pg) @ '' 18446744073709551615 '' @
     ''0 0 0 0 0 0 0 0 0 0 0 0 0 0 0 '' @ ''0 '' @ ''0 0 0 0 0 0 0 0 0 0 0'' @ nl"

definition procfs_doprocstat ::
  "kenv \<Rightarrow> vm_syms \<Rightarrow> int \<Rightarrow> ctl_rq \<Rightarrow> uiomove_fn \<Rightarrow> pfsnode \<Rightarrow> uio \<Rightarrow> int option \<Rightarrow> kst \<Rightarrow> (err \<times> uio) \<times> int option \<times> kst" where
  "procfs_doprocstat k vs pg rq um pnp uio g st =
     (case procfs_pctx_get k vs pg pnp g st of
        (c, g, st) \<Rightarrow> (snprintf_copy um 640 (procstat_text pg (snd (procfs_task_info rq pnp)) c) uio, g, st))"

definition status_linux_text :: "cred \<Rightarrow> procfs_pctx \<Rightarrow> string" where
  "status_linux_text cr c =
     ''Name:'' @ tab @ c_comm c @ nl @
     ''State:'' @ tab @ [c_state c] @ '' ('' @ procfs_thread_state_word (c_state c) @ '')'' @ nl @
     ''Tgid:'' @ tab @ fmt_d (c_pid c) @ nl @ ''Pid:'' @ tab @ fmt_d (c_pid c) @ nl @ ''PPid:'' @ tab @ fmt_d (c_ppid c) @ nl @
     ''TracerPid:'' @ tab @ ''0'' @ nl @
     ''Uid:'' @ tab @ fmt_u (cr_ruid cr) @ tab @ fmt_u (cr_uid cr) @ tab @ fmt_u (cr_svuid cr) @ tab @ fmt_u (cr_uid cr) @ nl @
     ''Gid:'' @ tab @ fmt_u (cr_rgid cr) @ tab @ fmt_u (cr_gid cr) @ tab @ fmt_u (cr_svgid cr) @ tab @ fmt_u (cr_gid cr) @ nl @
     ''VmSize:'' @ tab @ pad_left (CHR '' '') 8 (fmt_u (c_vsize c div 1024)) @ '' kB'' @ nl @
     ''VmRSS:'' @ tab @ pad_left (CHR '' '') 8 (fmt_u (c_rsize c div 1024)) @ '' kB'' @ nl @
     ''Threads:'' @ tab @ fmt_d (c_nthreads c) @ nl @
     ''voluntary_ctxt_switches:'' @ tab @ ''0'' @ nl @ ''nonvoluntary_ctxt_switches:'' @ tab @ ''0'' @ nl"

definition procfs_doprocstatus_linux ::
  "kenv \<Rightarrow> vm_syms \<Rightarrow> int \<Rightarrow> uiomove_fn \<Rightarrow> pfsnode \<Rightarrow> uio \<Rightarrow> int option \<Rightarrow> kst \<Rightarrow> (err \<times> uio) \<times> int option \<times> kst" where
  "procfs_doprocstatus_linux k vs pg um pnp uio g st =
     (let pid = nodeid_pid (node_id pnp) in
      case procfs_pctx_get k vs pg pnp g st of
        (c, g, st) \<Rightarrow>
          (case (case proc_find k pid st of
                   (Some p, st) \<Rightarrow> (p_cred p, proc_rele pid (cred_unref (cred_ref st)))
                 | (None, st) \<Rightarrow> (cred0, st)) of
             (cr, st) \<Rightarrow>
               (case text_node k pg um None 1024 SBUF_AUTOEXTEND [status_linux_text cr c] uio st of
                  (r, st) \<Rightarrow> (r, g, st))))"

definition procfs_dostatus ::
  "kenv \<Rightarrow> ksyms \<Rightarrow> vm_syms \<Rightarrow> int \<Rightarrow> bool \<Rightarrow> uiomove_fn \<Rightarrow> pfsnode \<Rightarrow> uio \<Rightarrow> int option \<Rightarrow> kst \<Rightarrow> (err \<times> uio) \<times> int option \<times> kst" where
  "procfs_dostatus k ks vs pg linux um pnp uio g st =
     (if linux then procfs_doprocstatus_linux k vs pg um pnp uio g st
      else case proc_find k (nodeid_pid (node_id pnp)) st of
             (None, st) \<Rightarrow> ((None, uio), g, st)
           | (Some p, st) \<Rightarrow>
               (case proc_pidshortbsdinfo ks p False st of
                  (info, st) \<Rightarrow>
                    (procfs_copy_data um (Some (put_bsdshortinfo info)) (int sizeof_proc_bsdshortinfo) uio,
                     g, proc_rele (nodeid_pid (node_id pnp)) st)))"

section \<open>Task and thread information\<close>

text \<open>
  \<open>task_tc\<close> and \<open>task_pri\<close> read the thread count and the priority at their offsets in
  the task structure.
\<close>

definition POLICY_TIMESHARE :: int where "POLICY_TIMESHARE = 1"

definition fallback_taskinfo ::
  "kenv \<Rightarrow> ksyms \<Rightarrow> vm_syms \<Rightarrow> int \<Rightarrow> (int \<Rightarrow> int) \<Rightarrow> (int \<Rightarrow> int) \<Rightarrow> proc \<Rightarrow> int option \<Rightarrow> kst \<Rightarrow> proc_taskinfo \<times> int option \<times> kst" where
  "fallback_taskinfo k ks vs pg task_tc task_pri p g st =
     (let info = proc_pidtaskinfo ks p;
          info = (case procfs_task_vm_sizes vs pg p of
                    (None, v, r) \<Rightarrow> info\<lparr> pti_virtual_size := v, pti_resident_size := r \<rparr>
                  | _ \<Rightarrow> info)
      in case procfs_get_task_thread_count k (Some p) g st of
           (tcount, g, st) \<Rightarrow>
             (let info = (if tcount > 0 then info\<lparr> pti_threadnum := tcount \<rparr> else info);
                  info = (if pti_policy info = 0 then info\<lparr> pti_policy := POLICY_TIMESHARE \<rparr> else info);
                  task = proc_task p;
                  info = (if task \<noteq> TASK_NULL \<and> tcount > 0 \<and> task_tc task = tcount \<and> 0 \<le> task_pri task \<and> task_pri task \<le> 127
                          then info\<lparr> pti_priority := task_pri task \<rparr> else info)
              in (info, g, st)))"

definition procfs_read_task_info ::
  "kenv \<Rightarrow> ksyms \<Rightarrow> vm_syms \<Rightarrow> int \<Rightarrow> (int \<Rightarrow> int) \<Rightarrow> (int \<Rightarrow> int) \<Rightarrow> ctl_rq \<Rightarrow> uiomove_fn \<Rightarrow> pfsnode \<Rightarrow> uio \<Rightarrow> int option \<Rightarrow> kst \<Rightarrow>
   (err \<times> uio) \<times> int option \<times> kst" where
  "procfs_read_task_info k ks vs pg task_tc task_pri rq um pnp uio g st =
     (let pid = nodeid_pid (node_id pnp) in
      case proc_find k pid st of
        (None, st) \<Rightarrow> ((None, uio), g, st)
      | (Some p, st) \<Rightarrow>
          (let local = (case fallback_taskinfo k ks vs pg task_tc task_pri p g st of
                          (info, g, st) \<Rightarrow>
                            (procfs_copy_data um (Some (put_taskinfo info)) (int sizeof_proc_taskinfo) uio, g, proc_rele pid st))
           in case rq PROCFS_REQ_TASKINFO pid 0 sizeof_proc_taskinfo of
                Inr b \<Rightarrow> if length b = sizeof_proc_taskinfo
                         then (procfs_copy_data um (Some b) (int sizeof_proc_taskinfo) uio, g, proc_rele pid st)
                         else local
              | Inl _ \<Rightarrow> local))"

definition procfs_read_thread_info ::
  "kenv \<Rightarrow> ksyms \<Rightarrow> ctl_rq \<Rightarrow> uiomove_fn \<Rightarrow> pfsnode \<Rightarrow> uio \<Rightarrow> kst \<Rightarrow> (err \<times> uio) \<times> kst" where
  "procfs_read_thread_info k ks rq um pnp uio st =
     (let pid = nodeid_pid (node_id pnp); threadid = uint (nodeid_objectid (node_id pnp)) in
      case proc_find k pid st of
        (None, st) \<Rightarrow> ((None, uio), st)
      | (Some p, st) \<Rightarrow>
          (let info = (case rq PROCFS_REQ_THREADINFO pid threadid sizeof_proc_threadinfo of
                         Inr b \<Rightarrow> if length b = sizeof_proc_threadinfo then b else proc_pidthreadinfo ks p threadid True
                       | Inl _ \<Rightarrow> proc_pidthreadinfo ks p threadid True)
           in (procfs_copy_data um (Some info) (int sizeof_proc_threadinfo) uio, proc_rele pid st)))"

section \<open>Registers\<close>

text \<open>
  The machine the extension is built for decides the state structure. The
  Linux form prints it as text: \<open>b\<close> is the state, zero where procfsd sent less.
\<close>

datatype arch = ARM64 | X86_64

fun sizeof_thread_state :: "arch \<Rightarrow> nat" where
  "sizeof_thread_state ARM64 = 272"
| "sizeof_thread_state X86_64 = 168"

fun sizeof_float_state :: "arch \<Rightarrow> nat" where
  "sizeof_float_state ARM64 = 528"
| "sizeof_float_state X86_64 = 524"

definition hex16 :: "int \<Rightarrow> string" where
  "hex16 x = pad_left (CHR ''0'') 16 (fmt_x x)"

definition hex8 :: "int \<Rightarrow> string" where
  "hex8 x = pad_left (CHR ''0'') 8 (fmt_x x)"

definition reg64 :: "bytes \<Rightarrow> nat \<Rightarrow> int" where
  "reg64 b i = get_field (8 * i) 8 b"

fun regs_text :: "arch \<Rightarrow> bytes \<Rightarrow> string list" where
  "regs_text ARM64 b =
     map (\<lambda>i. ''x'' @ pad_right 2 (fmt_d (int i)) @ ''  0x'' @ hex16 (reg64 b i) @ nl) [0..<29] @
     [''fp   0x'' @ hex16 (reg64 b 29) @ nl, ''lr   0x'' @ hex16 (reg64 b 30) @ nl, ''sp   0x'' @ hex16 (reg64 b 31) @ nl,
      ''pc   0x'' @ hex16 (reg64 b 32) @ nl, ''cpsr 0x'' @ hex8 (get_field 264 4 b) @ nl]"
| "regs_text X86_64 b =
     [''rax 0x'' @ hex16 (reg64 b 0) @ nl @ ''rbx 0x'' @ hex16 (reg64 b 1) @ nl @ ''rcx 0x'' @ hex16 (reg64 b 2) @ nl @
      ''rdx 0x'' @ hex16 (reg64 b 3) @ nl @ ''rsi 0x'' @ hex16 (reg64 b 5) @ nl @ ''rdi 0x'' @ hex16 (reg64 b 4) @ nl @
      ''rbp 0x'' @ hex16 (reg64 b 6) @ nl @ ''rsp 0x'' @ hex16 (reg64 b 7) @ nl,
      ''r8  0x'' @ hex16 (reg64 b 8) @ nl @ ''r9  0x'' @ hex16 (reg64 b 9) @ nl @ ''r10 0x'' @ hex16 (reg64 b 10) @ nl @
      ''r11 0x'' @ hex16 (reg64 b 11) @ nl @ ''r12 0x'' @ hex16 (reg64 b 12) @ nl @ ''r13 0x'' @ hex16 (reg64 b 13) @ nl @
      ''r14 0x'' @ hex16 (reg64 b 14) @ nl @ ''r15 0x'' @ hex16 (reg64 b 15) @ nl,
      ''rip 0x'' @ hex16 (reg64 b 16) @ nl @ ''rflags 0x'' @ hex16 (reg64 b 17) @ nl]"

fun fpregs_text :: "arch \<Rightarrow> bytes \<Rightarrow> string list" where
  "fpregs_text ARM64 b =
     map (\<lambda>i. ''q'' @ pad_right 2 (fmt_d (int i)) @ ''  0x'' @ hex16 (reg64 b (2 * i + 1)) @ hex16 (reg64 b (2 * i)) @ nl)
       [0..<32] @
     [''fpsr 0x'' @ hex8 (get_field 512 4 b) @ nl, ''fpcr 0x'' @ hex8 (get_field 516 4 b) @ nl]"
| "fpregs_text X86_64 b = [''fpregs: x86_64 text format not implemented'' @ nl]"

text \<open>The pid names a process with user thread state; the reference is dropped again.\<close>

definition has_thread_state :: "kenv \<Rightarrow> int \<Rightarrow> kst \<Rightarrow> bool \<times> kst" where
  "has_thread_state k pid st =
     (case proc_find k pid st of
        (None, st) \<Rightarrow> (False, st)
      | (Some p, st) \<Rightarrow> (\<not> no_user_stack p, proc_rele pid st))"

definition procfs_doregs_linux ::
  "arch \<Rightarrow> kenv \<Rightarrow> int \<Rightarrow> ctl_rq \<Rightarrow> uiomove_fn \<Rightarrow> pfsnode \<Rightarrow> uio_rw \<Rightarrow> uio \<Rightarrow> kst \<Rightarrow> (err \<times> uio) \<times> kst" where
  "procfs_doregs_linux ar k pg rq um pnp rw uio st =
     (let pid = nodeid_pid (node_id pnp); n = sizeof_thread_state ar in
      if rw \<noteq> UIO_READ then ((Some EOPNOTSUPP, uio), st)
      else case has_thread_state k pid st of
             (False, st) \<Rightarrow> ((Some ESRCH, uio), st)
           | (True, st) \<Rightarrow>
               text_node k pg um None 1024 SBUF_AUTOEXTEND
                 (case rq PROCFS_REQ_REGS pid 0 n of
                    Inr b \<Rightarrow> if b \<noteq> [] then regs_text ar (char_array n b) else []
                  | Inl _ \<Rightarrow> []) uio st)"

definition procfs_doregs ::
  "arch \<Rightarrow> kenv \<Rightarrow> int \<Rightarrow> bool \<Rightarrow> ctl_rq \<Rightarrow> uiomove_fn \<Rightarrow> pfsnode \<Rightarrow> uio_rw \<Rightarrow> uio \<Rightarrow> kst \<Rightarrow> (err \<times> uio) \<times> kst" where
  "procfs_doregs ar k pg linux rq um pnp rw uio st =
     (let pid = nodeid_pid (node_id pnp) in
      if rw \<noteq> UIO_READ then ((Some EOPNOTSUPP, uio), st)
      else if linux then procfs_doregs_linux ar k pg rq um pnp rw uio st
      else case has_thread_state k pid st of
             (False, st) \<Rightarrow> ((Some ESRCH, uio), st)
           | (True, st) \<Rightarrow>
               ((case rq PROCFS_REQ_REGS pid 0 (sizeof_thread_state ar) of
                   Inl e \<Rightarrow> (Some (if e = ENOTCONN then ENOTSUP else e), uio)
                 | Inr b \<Rightarrow> procfs_copy_data um (Some b) (int (length b)) uio), st))"

definition procfs_dofpregs_linux ::
  "arch \<Rightarrow> kenv \<Rightarrow> int \<Rightarrow> ctl_rq \<Rightarrow> uiomove_fn \<Rightarrow> pfsnode \<Rightarrow> uio_rw \<Rightarrow> uio \<Rightarrow> kst \<Rightarrow> (err \<times> uio) \<times> kst" where
  "procfs_dofpregs_linux ar k pg rq um pnp rw uio st =
     (let pid = nodeid_pid (node_id pnp); n = sizeof_float_state ar in
      if rw \<noteq> UIO_READ then ((Some EOPNOTSUPP, uio), st)
      else case has_thread_state k pid st of
             (False, st) \<Rightarrow> ((Some ESRCH, uio), st)
           | (True, st) \<Rightarrow>
               text_node k pg um None 2048 SBUF_AUTOEXTEND
                 (if ar = X86_64 then fpregs_text ar []
                  else case rq PROCFS_REQ_FPREGS pid 0 n of
                         Inr b \<Rightarrow> if b \<noteq> [] then fpregs_text ar (char_array n b) else []
                       | Inl _ \<Rightarrow> []) uio st)"

definition procfs_dofpregs ::
  "arch \<Rightarrow> kenv \<Rightarrow> int \<Rightarrow> bool \<Rightarrow> ctl_rq \<Rightarrow> uiomove_fn \<Rightarrow> pfsnode \<Rightarrow> uio_rw \<Rightarrow> uio \<Rightarrow> kst \<Rightarrow> (err \<times> uio) \<times> kst" where
  "procfs_dofpregs ar k pg linux rq um pnp rw uio st =
     (let pid = nodeid_pid (node_id pnp) in
      if rw \<noteq> UIO_READ then ((Some EOPNOTSUPP, uio), st)
      else if linux then procfs_dofpregs_linux ar k pg rq um pnp rw uio st
      else case has_thread_state k pid st of
             (False, st) \<Rightarrow> ((Some ESRCH, uio), st)
           | (True, st) \<Rightarrow>
               ((case rq PROCFS_REQ_FPREGS pid 0 (sizeof_float_state ar) of
                   Inl e \<Rightarrow> (Some (if e = ENOTCONN then ENOTSUP else e), uio)
                 | Inr b \<Rightarrow> procfs_copy_data um (Some b) (int (length b)) uio), st))"

section \<open>Node sizes\<close>

text \<open>\<^verbatim>\<open>sizeof\<close> of the count is the size of its type, an \<^verbatim>\<open>int\<close>.\<close>

definition procfs_process_node_size :: "kenv \<Rightarrow> pfsnode \<Rightarrow> kst \<Rightarrow> nat \<times> kst" where
  "procfs_process_node_size k pnp st =
     (case proc_find k (nodeid_pid (node_id pnp)) st of
        (None, st) \<Rightarrow> (0, st)
      | (Some p, st) \<Rightarrow> (4, proc_rele (nodeid_pid (node_id pnp)) st))"

definition procfs_thread_node_size :: "kenv \<Rightarrow> pfsnode \<Rightarrow> int option \<Rightarrow> kst \<Rightarrow> nat \<times> int option \<times> kst" where
  "procfs_thread_node_size k pnp g st =
     (case proc_find k (nodeid_pid (node_id pnp)) st of
        (None, st) \<Rightarrow> (0, g, st)
      | (Some p, st) \<Rightarrow>
          (case procfs_get_task_thread_count k (Some p) g st of
             (tcount, g, st) \<Rightarrow>
               (nat (if tcount > 0 then tcount else 1), g, proc_rele (nodeid_pid (node_id pnp)) st)))"

definition call_size_fn :: "kenv \<Rightarrow> size_fn \<Rightarrow> pfsnode \<Rightarrow> int option \<Rightarrow> kst \<Rightarrow> nat \<times> int option \<times> kst" where
  "call_size_fn k f pnp g st =
     (case f of
        SF_process_node_size \<Rightarrow> (case procfs_process_node_size k pnp st of (n, st) \<Rightarrow> (n, g, st))
      | SF_fd_node_size \<Rightarrow> (case procfs_fd_node_size k pnp st of (n, st) \<Rightarrow> (n, g, st))
      | SF_thread_node_size \<Rightarrow> procfs_thread_node_size k pnp g st)"

fun dir_size :: "kenv \<Rightarrow> sstate \<Rightarrow> pfsnode \<Rightarrow> saddr list \<Rightarrow> nat \<Rightarrow> int option \<Rightarrow> kst \<Rightarrow> nat \<times> int option \<times> kst" where
  "dir_size k ss pnp [] n g st = (n, g, st)"
| "dir_size k ss pnp (a # as) n g st =
     (case (case snode_at ss a of None \<Rightarrow> None | Some sn \<Rightarrow> psn_getsize_fn sn) of
        None \<Rightarrow> dir_size k ss pnp as (n + 1) g st
      | Some f \<Rightarrow> (case call_size_fn k f pnp g st of (m, g, st) \<Rightarrow> dir_size k ss pnp as (n + m) g st))"

text \<open>The structure node whose size is meant: \<open>None\<close> is the failed assertion.\<close>

definition size_snode :: "sstate \<Rightarrow> pfsnode \<Rightarrow> pfssnode option" where
  "size_snode ss pnp =
     (case snode_at ss (node_structure_node pnp) of
        None \<Rightarrow> None
      | Some sn \<Rightarrow>
          if psn_node_type sn = PFSdirthis then Option.bind (psn_parent sn) (snode_at ss)
          else if psn_node_type sn = PFSdirparent
          then (case Option.bind (psn_parent sn) (snode_at ss) of
                  None \<Rightarrow> None
                | Some pn \<Rightarrow> if psn_node_type pn \<noteq> PFSroot then Option.bind (psn_parent pn) (snode_at ss) else Some pn)
          else Some sn)"

definition procfs_get_node_size_attr ::
  "kenv \<Rightarrow> sstate \<Rightarrow> pfsnode \<Rightarrow> int option \<Rightarrow> kst \<Rightarrow> nat option \<times> int option \<times> kst" where
  "procfs_get_node_size_attr k ss pnp g st =
     (case (snode_at ss (node_structure_node pnp), size_snode ss pnp) of
        (Some sn0, Some sn) \<Rightarrow>
          if procfs_is_directory_type (psn_node_type sn0)
          then (case dir_size k ss pnp (psn_children sn) 0 g st of (n, g, st) \<Rightarrow> (Some n, g, st))
          else (case psn_getsize_fn sn of
                  None \<Rightarrow> (Some (psn_node_size sn), g, st)
                | Some f \<Rightarrow> (case call_size_fn k f pnp g st of (n, g, st) \<Rightarrow> (Some n, g, st)))
      | _ \<Rightarrow> (None, g, st))"

section \<open>Texts fit their buffers\<close>

lemma length_fmt_d32: "- (2 ^ 31) \<le> x \<Longrightarrow> x < 2 ^ 31 \<Longrightarrow> length (fmt_d x) \<le> 11"
proof -
  assume a: "- (2 ^ 31) \<le> x" "x < 2 ^ 31"
  then have "nat \<bar>x\<bar> < 10 ^ 10" by simp
  then have "length (nat_to_base 10 (nat \<bar>x\<bar>)) \<le> 10" by (rule length_nat_to_base) simp
  then show ?thesis by (cases "x < 0") (simp_all add: fmt_d_def fmt_u_def)
qed

lemma length_pad_left: "length (pad_left c n s) = max n (length s)"
  by (simp add: pad_left_def)

lemma length_u64_div: "0 \<le> x \<Longrightarrow> x < 2 ^ 64 \<Longrightarrow> 0 < d \<Longrightarrow> length (fmt_u (x div d)) \<le> 20"
proof -
  assume a: "0 \<le> x" "x < 2 ^ 64" "0 < d"
  have "x div d \<le> x div 1" using a by (intro zdiv_mono2) auto
  then show ?thesis using a by (intro length_fmt_u64) simp
qed

definition int32_ok :: "int \<Rightarrow> bool" where
  "int32_ok x \<longleftrightarrow> - (2 ^ 31) \<le> x \<and> x < 2 ^ 31"

definition uint64_ok :: "int \<Rightarrow> bool" where
  "uint64_ok x \<longleftrightarrow> 0 \<le> x \<and> x < 2 ^ 64"

definition ctx_ok :: "procfs_pctx \<Rightarrow> bool" where
  "ctx_ok c \<longleftrightarrow> int32_ok (c_pid c) \<and> int32_ok (c_ppid c) \<and> int32_ok (c_pgid c) \<and> int32_ok (c_sid c) \<and>
     int32_ok (c_nthreads c) \<and> uint64_ok (c_vsize c) \<and> uint64_ok (c_rsize c) \<and> length (c_comm c) \<le> MAXCOMLEN"

definition threadinfo_ok :: "proc_threadinfo \<Rightarrow> bool" where
  "threadinfo_ok ti \<longleftrightarrow> uint64_ok (pth_user_time ti) \<and> uint64_ok (pth_system_time ti) \<and> int32_ok (pth_policy ti) \<and>
     int32_ok (pth_curpri ti) \<and> length (pth_name ti) \<le> MAXTHREADNAMESIZE"

definition taskinfo_ok :: "proc_taskinfo \<Rightarrow> bool" where
  "taskinfo_ok ti \<longleftrightarrow> uint64_ok (pti_total_user ti) \<and> uint64_ok (pti_total_system ti)"

lemma get_field_bounds: "0 \<le> get_field n m b \<and> get_field n m b < 256 ^ m"
proof -
  have "0 \<le> le_value (take m (drop n b)) \<and> le_value (take m (drop n b)) < 256 ^ length (take m (drop n b))"
    by (rule le_value_bounds)
  moreover have "(256 :: int) ^ length (take m (drop n b)) \<le> 256 ^ m" by (rule power_increasing) auto
  ultimately show ?thesis unfolding get_field_def by linarith
qed

lemma int32_ok_to [simp]: "int32_ok (to_int32 x)"
  using to_int32_bounds [of x] by (simp add: int32_ok_def)

lemma uint64_ok_field [simp]: "uint64_ok (get_field n 8 b)"
  using get_field_bounds [of n 8 b] by (simp add: uint64_ok_def)

lemma uint64_ok_to [simp]: "uint64_ok (to_uint64 x)"
  by (simp add: uint64_ok_def to_uint64_def)

lemma get_threadinfo_ok: "threadinfo_ok (get_threadinfo b)"
proof -
  have "length (cstr (take 64 (drop 48 b))) \<le> 64"
    unfolding cstr_def using length_takeWhile_le [of "\<lambda>c. c \<noteq> CHR 0x00" "take 64 (drop 48 b)"] by simp
  then show ?thesis by (simp add: threadinfo_ok_def get_threadinfo_def MAXTHREADNAMESIZE_def)
qed

lemma get_taskinfo_ok: "taskinfo_ok (get_taskinfo b)"
  by (simp add: taskinfo_ok_def get_taskinfo_def)

lemmas text_lengths = length_pad_left length_fmt_d32 length_fmt_u64 length_u64_div

lemma len_d: "int32_ok x \<Longrightarrow> length (fmt_d x) \<le> 11"
  by (simp add: int32_ok_def length_fmt_d32)

lemma len_u: "uint64_ok x \<Longrightarrow> length (fmt_u x) \<le> 20"
  by (simp add: uint64_ok_def length_fmt_u64)

lemma len_div: "uint64_ok x \<Longrightarrow> 0 < d \<Longrightarrow> length (fmt_u (x div d)) \<le> 20"
  by (simp add: uint64_ok_def length_u64_div)

lemma len_word: "length (procfs_thread_state_word c) \<le> 10"
  by (simp add: procfs_thread_state_word_def)

lemma len_name: "ctx_ok c \<Longrightarrow> threadinfo_ok ti \<Longrightarrow> length (thread_name ti c) \<le> 64"
  by (simp add: thread_name_def ctx_ok_def threadinfo_ok_def MAXTHREADNAMESIZE_def MAXCOMLEN_def)

lemma threadstat_length:
  assumes "ctx_ok c" "threadinfo_ok ti" "uint64_ok tid" "0 < pg"
  shows "length (threadstat_text pg tid ti c) < 640"
  using assms len_u [OF assms(3)] len_name [OF assms(1,2)] len_d [of "c_ppid c"] len_d [of "c_pgid c"] len_d [of "c_sid c"]
    len_div [of "pth_user_time ti" PROCFS_NS_PER_TICK] len_div [of "pth_system_time ti" PROCFS_NS_PER_TICK]
    len_d [of "pth_curpri ti"] len_d [of "c_nthreads c"] len_u [of "c_vsize c"] len_div [of "c_rsize c" pg] len_d [of "pth_policy ti"]
  by (simp add: threadstat_text_def ctx_ok_def threadinfo_ok_def PROCFS_NS_PER_TICK_def)

lemma procstat_length:
  assumes "ctx_ok c" "taskinfo_ok ti" "0 < pg"
  shows "length (procstat_text pg ti c) < 640"
  using assms len_d [of "c_pid c"] len_d [of "c_ppid c"] len_d [of "c_pgid c"] len_d [of "c_sid c"]
    len_div [of "pti_total_user ti" PROCFS_NS_PER_TICK] len_div [of "pti_total_system ti" PROCFS_NS_PER_TICK]
    len_d [of "c_nthreads c"] len_u [of "c_vsize c"] len_div [of "c_rsize c" pg]
  by (simp add: procstat_text_def ctx_ok_def taskinfo_ok_def PROCFS_NS_PER_TICK_def MAXCOMLEN_def)

lemma threadstatus_length:
  assumes "ctx_ok c" "threadinfo_ok ti" "uint64_ok tid"
  shows "length (threadstatus_text tid ti c) < 512"
  using assms len_u [OF assms(3)] len_name [OF assms(1,2)] len_d [of "c_ppid c"] len_d [of "c_pid c"]
    len_d [of "c_nthreads c"] len_div [of "c_vsize c" 1024] len_word [of "procfs_thread_state (pth_run_state ti)"] len_u [of 0]
  by (simp add: threadstatus_text_def ctx_ok_def length_pad_left Let_def uint64_ok_def)

lemma threadsched_length:
  assumes "ctx_ok c" "threadinfo_ok ti" "uint64_ok tid"
  shows "length (threadsched_text tid ti c) < 512"
  using assms len_u [OF assms(3)] len_name [OF assms(1,2)] len_d [of "c_nthreads c"]
    len_u [of "to_uint64 (pth_user_time ti + pth_system_time ti)"] len_d [of "pth_policy ti"] len_d [of "pth_curpri ti"]
  by (simp add: threadsched_text_def ctx_ok_def threadinfo_ok_def length_pad_left)

lemma statm_length: "ctx_ok c \<Longrightarrow> 0 < pg \<Longrightarrow> length (statm_text pg c) < 128"
  using len_div [of "c_vsize c" pg] len_div [of "c_rsize c" pg] by (simp add: statm_text_def ctx_ok_def)

lemma threadcomm_length: "length (threadcomm_text k rq pnp) < MAXTHREADNAMESIZE + 2"
proof -
  have "threadinfo_ok (snd (procfs_thread_info rq pnp))"
    by (simp add: procfs_thread_info_def get_threadinfo_ok split: sum.split)
  then show ?thesis
    by (auto simp: threadcomm_text_def threadinfo_ok_def strlcpy_def MAXCOMLEN_def MAXTHREADNAMESIZE_def Let_def)
qed

lemma snprintf_copy_delivers:
  assumes "uiomove_ok um" "length t < sz" "sz < 2 ^ 31" "0 \<le> uio_offset u" "uio_offset u \<le> int (length t)" "0 \<le> uio_resid u"
  shows "snprintf_copy um sz t u = (None, uio_put (take (nat (uio_resid u)) (drop (nat (uio_offset u)) t)) u)"
  using copy_data_delivers [OF assms(1), of "length t" "t @ [CHR 0x00]" u] assms by (simp add: snprintf_copy_def)

lemma collect_tids_length: "length (collect_tids k sz n us ids) \<le> length us + length ids"
proof (induction us arbitrary: ids)
  case (Cons u us)
  show ?case using Cons.IH [of ids] Cons.IH [of "ids @ [tid_of k (to_uint64 (u - sz))]"] by (simp add: Let_def)
qed simp

lemma thread_count_bound:
  "fst (procfs_get_task_thread_count k (Some p) g st) \<le> int (length (p_uthlist p)) \<and>
   0 \<le> fst (procfs_get_task_thread_count k (Some p) g st)"
  using collect_tids_length [of k _ _ "p_uthlist p" "[]"]
  by (auto simp: procfs_get_task_thread_count_def procfs_get_thread_ids_for_task_def ids_count_def OSMalloc_def Let_def
      split: option.split prod.split)

lemma add_sizes_ok: "uint64_ok (fst x) \<and> uint64_ok (snd x) \<Longrightarrow> uint64_ok (fst (foldl (add_sizes pg) x rs)) \<and> uint64_ok (snd (foldl (add_sizes pg) x rs))"
proof (induction rs arbitrary: x)
  case (Cons r rs)
  show ?case using Cons by (auto simp: add_sizes_def case_prod_beta)
qed simp

lemma vm_sizes_ok: "procfs_task_vm_sizes vs pg p = (e, v, r) \<Longrightarrow> uint64_ok v \<and> uint64_ok r"
proof -
  have z: "uint64_ok 0" by (simp add: uint64_ok_def)
  have "foldl (add_sizes pg) (0, 0) rs = (v, r) \<Longrightarrow> uint64_ok v \<and> uint64_ok r" for rs v r
    using add_sizes_ok [of "(0, 0)" pg rs] z by simp
  moreover assume "procfs_task_vm_sizes vs pg p = (e, v, r)"
  ultimately show ?thesis
    using z by (auto simp: procfs_task_vm_sizes_def Let_def split: option.splits if_splits)
qed

text \<open>The process table reports 32-bit ids and less than \<open>2 ^ 31\<close> threads.\<close>

definition procs_ok :: "kenv \<Rightarrow> bool" where
  "procs_ok k \<longleftrightarrow> (\<forall>pid p. proc_find_k k pid = Some p \<longrightarrow>
     int32_ok (p_ppid p) \<and> int32_ok (p_pgrpid p) \<and> int32_ok (p_sessionid p) \<and> length (p_uthlist p) < 2 ^ 31)"

lemma pctx_ok:
  assumes "procs_ok k" "int32_ok (nodeid_pid (node_id pnp))"
  shows "ctx_ok (fst (procfs_pctx_get k vs pg pnp g st))"
proof (cases "proc_find_k k (nodeid_pid (node_id pnp))")
  case None
  then show ?thesis using assms(2) by (simp add: procfs_pctx_get_def ctx_ok_def int32_ok_def uint64_ok_def Let_def)
next
  case (Some p)
  let ?st = "proc_hold (nodeid_pid (node_id pnp)) st"
  obtain n g' st' where t: "procfs_get_task_thread_count k (Some p) g ?st = (n, g', st')" by (metis prod.collapse)
  obtain e v r where v: "procfs_task_vm_sizes vs pg p = (e, v, r)" by (metis prod.collapse)
  have "length (p_uthlist p) < 2 ^ 31" "int32_ok (p_ppid p)" "int32_ok (p_pgrpid p)" "int32_ok (p_sessionid p)"
    using assms(1) Some by (auto simp: procs_ok_def)
  moreover have "0 \<le> n" "n \<le> int (length (p_uthlist p))" using thread_count_bound [of k p g ?st] t by auto
  ultimately have "int32_ok n" by (simp add: int32_ok_def)
  moreover have "length (strlcpy (MAXCOMLEN + 1) s) \<le> MAXCOMLEN" for s :: string by (simp add: strlcpy_def)
  ultimately show ?thesis using Some t v vm_sizes_ok [OF v] assms(2) \<open>int32_ok (p_ppid p)\<close> \<open>int32_ok (p_pgrpid p)\<close> \<open>int32_ok (p_sessionid p)\<close>
    by (simp add: procfs_pctx_get_def ctx_ok_def Let_def)
qed

lemma thread_info_ok: "threadinfo_ok (snd (procfs_thread_info rq pnp))"
  by (simp add: procfs_thread_info_def get_threadinfo_ok split: sum.split)

lemma task_info_ok: "taskinfo_ok (snd (procfs_task_info rq pnp))"
  by (simp add: procfs_task_info_def get_taskinfo_ok split: sum.split)

text \<open>A read of a file that contains \<open>t\<close>.\<close>

definition file_read :: "string \<Rightarrow> uio \<Rightarrow> err \<times> uio" where
  "file_read t u = (None, uio_put (take (nat (uio_resid u)) (drop (nat (uio_offset u)) t)) u)"

lemma uint_objectid_ok: "uint64_ok (uint (x :: 64 word))"
  using uint_lt2p [of x] by (simp add: uint64_ok_def)


definition demo_name_env :: kenv where
  "demo_name_env = kenv0\<lparr> proc_name_k := (\<lambda>_. ''sh'') \<rparr>"

lemma cstr_zeros: "cstr (replicate n (CHR 0x00)) = []"
  by (cases n) (simp_all add: cstr_def)

lemma demo_threadcomm: "threadcomm_text demo_name_env (\<lambda>_ _ _ _. Inl ENOTCONN) demo_vm_node = ''sh'' @ nl"
  by (simp add: threadcomm_text_def procfs_thread_info_def get_threadinfo_def cstr_zeros demo_name_env_def MAXCOMLEN_def)


lemma count_fmt_u: "count_list (fmt_u x) (CHR '' '') = 0"
  unfolding fmt_u_def using nat_to_base10_digits [of "CHR '' ''" "nat x"] by (auto simp: count_list_0_iff isdigit_def)

lemma count_fmt_d: "count_list (fmt_d x) (CHR '' '') = 0"
  by (simp add: fmt_d_def count_fmt_u)

text \<open>
  The stat lines have the 52 fields of their Linux counterpart, counted by the
  blanks between them, when the name has no blank.
\<close>

lemma stat_fields:
  "count_list (thread_name ti c) (CHR '' '') = 0 \<Longrightarrow> count_list (threadstat_text pg tid ti c) (CHR '' '') = 51"
  "count_list (c_comm c) (CHR '' '') = 0 \<Longrightarrow> c_state c \<noteq> CHR '' '' \<Longrightarrow> count_list (procstat_text pg tk c) (CHR '' '') = 51"
  by (simp_all add: threadstat_text_def procstat_text_def count_fmt_u count_fmt_d procfs_thread_state_def)

section \<open>Balance\<close>

text \<open>
  Only the byte count of \<^verbatim>\<open>OSMalloc\<close> may differ afterwards: the thread list frees less
  than it allocated when a thread goes away in between.
\<close>

definition os_only :: "kst \<Rightarrow> kst \<Rightarrow> bool" where
  "os_only st st' \<longleftrightarrow> st' = st\<lparr> os_bytes := os_bytes st' \<rparr>"

lemma os_only_refl [simp]: "os_only st st"
  by (simp add: os_only_def)

lemma os_only_trans: "os_only a b \<Longrightarrow> os_only b c \<Longrightarrow> os_only a c"
  unfolding os_only_def by (metis kst.surjective kst.update_convs(3))

lemma os_only_rele: "os_only (proc_hold pid st) st' \<Longrightarrow> os_only st (proc_rele pid st')"
  unfolding os_only_def by (cases st') (auto simp: proc_hold_def proc_rele_def)

lemma thread_count_os: "os_only st (snd (snd (procfs_get_task_thread_count k p g st)))"
  by (auto simp: procfs_get_task_thread_count_def procfs_get_thread_ids_for_task_def procfs_release_thread_ids_def
      OSMalloc_def OSFree_def os_only_def Let_def split: option.split)

lemma thread_count_cases:
  obtains n g' st' where "procfs_get_task_thread_count k p g st = (n, g', st')" "os_only st st'"
  using thread_count_os [of st k p g] by (metis prod.collapse)

lemma pctx_os: "os_only st (snd (snd (procfs_pctx_get k vs pg pnp g st)))"
proof (cases "proc_find_k k (nodeid_pid (node_id pnp))")
  case (Some p)
  obtain n g' st' where "procfs_get_task_thread_count k (Some p) g (proc_hold (nodeid_pid (node_id pnp)) st) = (n, g', st')"
      "os_only (proc_hold (nodeid_pid (node_id pnp)) st) st'"
    by (rule thread_count_cases)
  then show ?thesis using Some os_only_rele by (simp add: procfs_pctx_get_def Let_def split: prod.split)
qed (simp add: procfs_pctx_get_def Let_def)

lemma status_linux_os: "os_only st (snd (snd (procfs_doprocstatus_linux k vs pg um pnp u g st)))"
proof -
  obtain c g' st' where x: "procfs_pctx_get k vs pg pnp g st = (c, g', st')" by (metis prod.collapse)
  then have "os_only st st'" using pctx_os [of st k vs pg pnp g] by simp
  then show ?thesis using x
    by (cases "proc_find_k k (nodeid_pid (node_id pnp))") (simp_all add: procfs_doprocstatus_linux_def Let_def case_prod_beta)
qed

lemma task_info_os: "os_only st (snd (snd (procfs_read_task_info k ks vs pg tc tp rq um pnp u g st)))"
proof (cases "proc_find_k k (nodeid_pid (node_id pnp))")
  case (Some p)
  define h where "h = proc_hold (nodeid_pid (node_id pnp)) st"
  obtain n g' st' where t: "procfs_get_task_thread_count k (Some p) g h = (n, g', st')" "os_only h st'"
    by (rule thread_count_cases)
  obtain i where f: "fallback_taskinfo k ks vs pg tc tp p g h = (i, g', st')"
    using t(1) by (simp add: fallback_taskinfo_def Let_def)
  have r: "os_only st (proc_rele (nodeid_pid (node_id pnp)) st')" using os_only_rele t(2) by (simp add: h_def)
  then show ?thesis using Some f
    by (auto simp: procfs_read_task_info_def Let_def h_def split: sum.split)
qed (simp add: procfs_read_task_info_def)

lemma has_thread_state_state [simp]: "snd (has_thread_state k pid st) = st"
  by (cases "proc_find_k k pid") (simp_all add: has_thread_state_def)

lemma regs_balanced:
  "snd (procfs_doregs ar k pg linux rq um pnp rw u st) = st" "snd (procfs_dofpregs ar k pg linux rq um pnp rw u st) = st"
proof -
  obtain b where "has_thread_state k (nodeid_pid (node_id pnp)) st = (b, st)" by (metis has_thread_state_state prod.collapse)
  then show "snd (procfs_doregs ar k pg linux rq um pnp rw u st) = st" "snd (procfs_dofpregs ar k pg linux rq um pnp rw u st) = st"
    by (cases b; simp add: procfs_doregs_def procfs_doregs_linux_def procfs_dofpregs_def procfs_dofpregs_linux_def Let_def)+
qed

text \<open>
  The status handlers give back every process and credential reference, every
  iocount and every block they take, on every path; only the byte count of the
  thread list may differ.
\<close>

lemma status_handlers_balanced:
  "snd (procfs_read_ppid_data k um pnp u st) = st \<and> snd (procfs_read_pgid_data k um pnp u st) = st \<and>
   snd (procfs_read_sid_data k um pnp u st) = st \<and> snd (procfs_read_tty_data k ks um pnp u st) = st \<and>
   snd (procfs_read_thread_info k ks rq um pnp u st) = st \<and>
   snd (procfs_doregs ar k pg linux rq um pnp rw u st) = st \<and> snd (procfs_dofpregs ar k pg linux rq um pnp rw u st) = st \<and>
   os_only st (snd (snd (procfs_dostatus k ks vs pg linux um pnp u g st))) \<and>
   os_only st (snd (snd (procfs_read_task_info k ks vs pg tc tp rq um pnp u g st)))"
proof -
  have "os_only st (snd (snd (procfs_dostatus k ks vs pg linux um pnp u g st)))"
    using status_linux_os
    by (cases "proc_find_k k (nodeid_pid (node_id pnp))") (simp_all add: procfs_dostatus_def proc_pidshortbsdinfo_def Let_def)
  moreover have "snd (procfs_read_tty_data k ks um pnp u st) = st"
    by (cases "proc_find_k k (nodeid_pid (node_id pnp))")
       (auto simp: procfs_read_tty_data_def gettty_def Let_def split: option.split prod.split)
  moreover have "snd (procfs_read_ppid_data k um pnp u st) = st" "snd (procfs_read_pgid_data k um pnp u st) = st"
      "snd (procfs_read_sid_data k um pnp u st) = st" "snd (procfs_read_thread_info k ks rq um pnp u st) = st"
    by (cases "proc_find_k k (nodeid_pid (node_id pnp))";
        simp add: procfs_read_ppid_data_def procfs_read_pgid_data_def procfs_read_sid_data_def procfs_read_thread_info_def Let_def)+
  ultimately show ?thesis using regs_balanced task_info_os by simp
qed

section \<open>Sizes of nodes\<close>

lemma call_size_os: "os_only st (snd (snd (call_size_fn k f pnp g st)))"
proof (cases f)
  case SF_thread_node_size
  then show ?thesis
  proof (cases "proc_find_k k (nodeid_pid (node_id pnp))")
    case (Some p)
    obtain n g' st' where "procfs_get_task_thread_count k (Some p) g (proc_hold (nodeid_pid (node_id pnp)) st) = (n, g', st')"
        "os_only (proc_hold (nodeid_pid (node_id pnp)) st) st'"
      by (rule thread_count_cases)
    then show ?thesis using SF_thread_node_size Some os_only_rele by (simp add: call_size_fn_def procfs_thread_node_size_def)
  qed (simp add: call_size_fn_def procfs_thread_node_size_def)
next
  case SF_process_node_size
  then show ?thesis
    by (cases "proc_find_k k (nodeid_pid (node_id pnp))") (simp_all add: call_size_fn_def procfs_process_node_size_def)
qed (simp add: call_size_fn_def fd_node_size_eq)

lemma dir_size_os: "os_only st (snd (snd (dir_size k ss pnp as n g st)))"
proof (induction as arbitrary: n g st)
  case (Cons a as)
  show ?case
  proof (cases "case snode_at ss a of None \<Rightarrow> None | Some sn \<Rightarrow> psn_getsize_fn sn")
    case None
    then show ?thesis using Cons.IH by simp
  next
    case (Some f)
    obtain m g' st' where c: "call_size_fn k f pnp g st = (m, g', st')" by (metis prod.collapse)
    then have "os_only st st'" using call_size_os [of st k f pnp g] by simp
    then show ?thesis using Some c Cons.IH os_only_trans by simp
  qed
qed simp

lemma node_size_os: "os_only st (snd (snd (procfs_get_node_size_attr k ss pnp g st)))"
proof -
  have "os_only st (snd (snd (case dir_size k ss pnp as 0 g st of (n, g, st) \<Rightarrow> (Some n, g, st))))" for as
    using dir_size_os [of st k ss pnp as 0 g] by (simp add: case_prod_beta)
  moreover have "os_only st (snd (snd (case call_size_fn k f pnp g st of (n, g, st) \<Rightarrow> (Some n, g, st))))" for f
    using call_size_os [of st k f pnp g] by (simp add: case_prod_beta)
  ultimately show ?thesis by (simp add: procfs_get_node_size_attr_def split: option.split)
qed

text \<open>
  The size of a process entry does not depend on the number of visible processes,
  which its description gives: it is 4, the size of an \<^verbatim>\<open>int\<close>, when the process of
  the directory exists.
\<close>

lemma process_node_size_constant:
  "fst (procfs_process_node_size k pnp st) = (if proc_find_k k (nodeid_pid (node_id pnp)) = None then 0 else 4)"
  by (simp add: procfs_process_node_size_def proc_find_def split: option.split)

text \<open>
  A read of the status or task node of a process that is gone succeeds and
  delivers nothing, where the other nodes report ESRCH.
\<close>

lemma status_gone_no_error:
  assumes "proc_find_k k (nodeid_pid (node_id pnp)) = None"
  shows "fst (procfs_dostatus k ks vs pg False um pnp u g st) = (None, u)"
    "fst (procfs_read_task_info k ks vs pg tc tp rq um pnp u g st) = (None, u)"
    "fst (procfs_read_thread_info k ks rq um pnp u st) = (None, u)"
    "fst (procfs_read_ppid_data k um pnp u st) = (Some ESRCH, u)"
  using assms by (simp_all add: procfs_dostatus_def procfs_read_task_info_def procfs_read_thread_info_def procfs_read_ppid_data_def)

end
