(* ===== verification/Sysctl.thy ===== *)
theory Sysctl
imports Subr
begin

text \<open>
  The mirror of the sysctl tree below \<^verbatim>\<open>/proc/sys\<close>, \<^verbatim>\<open>kext/procfs_sysctl.c\<close>. The tree is
  kernel data and a parameter: the list at its root and the node at an address.
  Proved: the name a read asks for is the dotted path of the node; a depth
  bounded tree is searched completely; a name that the directory listing shows is
  found by the name lookup; and the text of integer values.
\<close>

section \<open>The tree\<close>

type_synonym oid_addr = "64 word"

record sysctl_oid =
  oid_name :: "string option"
  oid_kind :: int
  oid_arg1 :: "oid_addr list option"
  oid_fmt :: "string option"

text \<open>
  \<open>sysctlbyname_k\<close> is the kernel's lookup by name: \<open>None\<close> an error, otherwise the bytes
  written to the caller's buffer.
\<close>

record sysctl_env =
  sysctl_children_k :: "oid_addr list"
  oid_at :: "oid_addr \<Rightarrow> sysctl_oid"
  sysctlbyname_k :: "string \<Rightarrow> bytes option"

definition CTLTYPE :: int where "CTLTYPE = 0xf"
definition CTLTYPE_NODE :: int where "CTLTYPE_NODE = 1"
definition CTLTYPE_INT :: int where "CTLTYPE_INT = 2"
definition CTLTYPE_STRING :: int where "CTLTYPE_STRING = 3"
definition CTLTYPE_QUAD :: int where "CTLTYPE_QUAD = 4"

definition oid_is_node :: "sysctl_oid \<Rightarrow> bool" where
  "oid_is_node oid \<longleftrightarrow> oid_kind oid AND CTLTYPE = CTLTYPE_NODE"

section \<open>Operations\<close>

definition procfs_sysctl_children :: "sysctl_env \<Rightarrow> oid_addr \<Rightarrow> oid_addr list option" where
  "procfs_sysctl_children e objectid =
     (if objectid = 0 then Some (sysctl_children_k e)
      else if \<not> oid_is_node (oid_at e objectid) then None
      else oid_arg1 (oid_at e objectid))"

definition procfs_sysctl_is_node :: "sysctl_env \<Rightarrow> oid_addr \<Rightarrow> bool" where
  "procfs_sysctl_is_node e objectid = (if objectid = 0 then True else oid_is_node (oid_at e objectid))"

fun find_child :: "sysctl_env \<Rightarrow> string \<Rightarrow> oid_addr list \<Rightarrow> oid_addr option" where
  "find_child e name [] = None"
| "find_child e name (a # as) =
     (if oid_name (oid_at e a) = Some name then Some a else find_child e name as)"

definition procfs_sysctl_find :: "sysctl_env \<Rightarrow> oid_addr \<Rightarrow> string \<Rightarrow> oid_addr option" where
  "procfs_sysctl_find e dir_objectid name =
     (case procfs_sysctl_children e dir_objectid of None \<Rightarrow> None | Some l \<Rightarrow> find_child e name l)"

fun nth_child :: "sysctl_env \<Rightarrow> nat \<Rightarrow> nat \<Rightarrow> oid_addr list \<Rightarrow> (string \<times> bool \<times> oid_addr) option" where
  "nth_child e index i [] = None"
| "nth_child e index i (a # as) =
     (case oid_name (oid_at e a) of
        None \<Rightarrow> nth_child e index i as
      | Some n \<Rightarrow> if i = index then Some (n, oid_is_node (oid_at e a), a) else nth_child e index (i + 1) as)"

definition procfs_sysctl_child_at :: "sysctl_env \<Rightarrow> oid_addr \<Rightarrow> nat \<Rightarrow> (string \<times> bool \<times> oid_addr) option" where
  "procfs_sysctl_child_at e dir_objectid index =
     (case procfs_sysctl_children e dir_objectid of None \<Rightarrow> None | Some l \<Rightarrow> nth_child e index 0 l)"

text \<open>The buffers for a path hold 256 bytes.\<close>

definition sysctl_path :: "string \<Rightarrow> string \<Rightarrow> string" where
  "sysctl_path prefix name =
     (if prefix \<noteq> [] then strlcpy 256 (prefix @ ''.'' @ name) else strlcpy 256 name)"

text \<open>
  The depth-first search; the outer \<open>None\<close> is running out of fuel, the inner one is
  \<^verbatim>\<open>FALSE\<close>. The fuel bounds the depth.
\<close>

fun procfs_sysctl_build_name ::
  "nat \<Rightarrow> sysctl_env \<Rightarrow> oid_addr list \<Rightarrow> string \<Rightarrow> oid_addr \<Rightarrow> string option option" where
  "procfs_sysctl_build_name fuel e [] prefix target = Some None"
| "procfs_sysctl_build_name fuel e (a # as) prefix target =
     (case oid_name (oid_at e a) of
        None \<Rightarrow> procfs_sysctl_build_name fuel e as prefix target
      | Some n \<Rightarrow>
          (let path = sysctl_path prefix n
           in if a = target then Some (Some (strlcpy 256 path))
              else if oid_is_node (oid_at e a) \<and> oid_arg1 (oid_at e a) \<noteq> None then
                (case fuel of
                   0 \<Rightarrow> None
                 | Suc f \<Rightarrow>
                     (case procfs_sysctl_build_name f e (the (oid_arg1 (oid_at e a))) path target of
                        None \<Rightarrow> None
                      | Some (Some s) \<Rightarrow> Some (Some s)
                      | Some None \<Rightarrow> procfs_sysctl_build_name fuel e as prefix target))
              else procfs_sysctl_build_name fuel e as prefix target))"

text \<open>
  The text of a raw value, \<open>None\<close> for types without one: a string without its
  trailing NUL and cut at a NUL inside, integers by their format.
\<close>

definition drop_trailing_nul :: "bytes \<Rightarrow> bytes" where
  "drop_trailing_nul raw = (if last raw = CHR 0x00 then butlast raw else raw)"

definition fmt_is :: "string \<Rightarrow> sysctl_oid \<Rightarrow> bool" where
  "fmt_is f oid \<longleftrightarrow> take 2 (case oid_fmt oid of None \<Rightarrow> [] | Some s \<Rightarrow> s) = f"

definition sysctl_text :: "sysctl_oid \<Rightarrow> bytes \<Rightarrow> string option" where
  "sysctl_text oid raw =
     (let type = oid_kind oid AND CTLTYPE
      in if type = CTLTYPE_STRING then Some (cstr (drop_trailing_nul raw) @ [CHR 0x0A])
         else if type = CTLTYPE_INT then
           Some (if length raw \<ge> 4 then
                   let v = to_int32 (le_value (take 4 raw))
                   in (if fmt_is ''IU'' oid then fmt_u (to_uint32 v) else fmt_d v) @ [CHR 0x0A]
                 else [])
         else if type = CTLTYPE_QUAD then
           Some (if length raw \<ge> 8 then
                   let v = to_int64 (le_value (take 8 raw))
                   in (if fmt_is ''QU'' oid then fmt_u (to_uint64 v) else fmt_d v) @ [CHR 0x0A]
                 else [])
         else None)"

definition procfs_sysctl_read ::
  "nat \<Rightarrow> sysctl_env \<Rightarrow> uiomove_fn \<Rightarrow> oid_addr \<Rightarrow> uio \<Rightarrow> (err \<times> uio) option" where
  "procfs_sysctl_read fuel e um objectid uio =
     (if procfs_sysctl_is_node e objectid then Some (Some EISDIR, uio)
      else case procfs_sysctl_build_name fuel e (sysctl_children_k e) [] objectid of
             None \<Rightarrow> None
           | Some None \<Rightarrow> Some (Some ENOENT, uio)
           | Some (Some name) \<Rightarrow>
               Some (case sysctlbyname_k e name of
                       None \<Rightarrow> procfs_copy_data um (Some []) 0 uio
                     | Some raw \<Rightarrow>
                         if raw = [] then procfs_copy_data um (Some []) 0 uio
                         else (case sysctl_text (oid_at e objectid) raw of
                                 None \<Rightarrow> procfs_copy_data um (Some []) 0 uio
                               | Some out \<Rightarrow> procfs_copy_data um (Some out) (int (length out)) uio)))"

section \<open>Names\<close>

text \<open>A path from a list of nodes down to a node, by the names on the way.\<close>

inductive oid_path :: "sysctl_env \<Rightarrow> oid_addr list \<Rightarrow> string list \<Rightarrow> oid_addr \<Rightarrow> bool" where
  path_here: "a \<in> set l \<Longrightarrow> oid_name (oid_at e a) = Some n \<Longrightarrow> oid_path e l [n] a"
| path_down: "a \<in> set l \<Longrightarrow> oid_name (oid_at e a) = Some n \<Longrightarrow> oid_is_node (oid_at e a) \<Longrightarrow>
    oid_arg1 (oid_at e a) = Some l' \<Longrightarrow> oid_path e l' ns t \<Longrightarrow> oid_path e l (n # ns) t"

inductive_simps oid_path_Nil: "oid_path e [] ns t"

definition join_dot :: "string \<Rightarrow> string \<Rightarrow> string" where
  "join_dot p n = (if p = [] then n else p @ ''.'' @ n)"

text \<open>The levels below a list of nodes are bounded.\<close>

fun depth_ok :: "nat \<Rightarrow> sysctl_env \<Rightarrow> oid_addr list \<Rightarrow> bool" where
  "depth_ok 0 e l = list_all (\<lambda>a. \<not> (oid_is_node (oid_at e a) \<and> oid_arg1 (oid_at e a) \<noteq> None)) l"
| "depth_ok (Suc f) e l =
     list_all (\<lambda>a. oid_is_node (oid_at e a) \<longrightarrow>
        (case oid_arg1 (oid_at e a) of None \<Rightarrow> True | Some l' \<Rightarrow> depth_ok f e l')) l"

lemma depth_ok_Cons: "depth_ok f e (a # l) \<Longrightarrow> depth_ok f e l"
  by (cases f) auto

lemma sysctl_path_join: "sysctl_path (take 255 p) n = take 255 (join_dot p n)"
  by (cases "length p \<le> 255") (auto simp: sysctl_path_def join_dot_def strlcpy_def)

lemma oid_path_weaken: "oid_path e l ns t \<Longrightarrow> set l \<subseteq> set l' \<Longrightarrow> oid_path e l' ns t"
  by (induction rule: oid_path.induct) (auto intro: oid_path.intros)

lemma oid_path_Cons:
  "oid_path e (a # l) ns t \<longleftrightarrow>
     oid_path e l ns t \<or>
     (\<exists>n. oid_name (oid_at e a) = Some n \<and>
        (ns = [n] \<and> t = a \<or>
         (\<exists>ms l'. ns = n # ms \<and> oid_is_node (oid_at e a) \<and> oid_arg1 (oid_at e a) = Some l' \<and> oid_path e l' ms t)))"
  (is "?L \<longleftrightarrow> ?R")
proof
  assume ?L then show ?R by (cases rule: oid_path.cases) (auto intro: oid_path.intros)
next
  assume ?R then show ?L by (auto intro: oid_path.intros oid_path_weaken [of e l])
qed

lemma depth_ok_child:
  assumes "depth_ok fuel e (a # l)" "oid_is_node (oid_at e a)" "oid_arg1 (oid_at e a) = Some l'"
  shows "\<exists>f. fuel = Suc f \<and> depth_ok f e l'"
  using assms by (cases fuel) auto

definition name_ok :: "sysctl_env \<Rightarrow> oid_addr list \<Rightarrow> string \<Rightarrow> oid_addr \<Rightarrow> string option \<Rightarrow> bool" where
  "name_ok e l prefix target r \<longleftrightarrow>
     (case r of
        None \<Rightarrow> \<not> (\<exists>ns. oid_path e l ns target)
      | Some s \<Rightarrow> \<exists>ns. oid_path e l ns target \<and> s = take 255 (foldl join_dot prefix ns))"

lemma name_ok_skip:
  assumes "name_ok e l prefix target r" "\<And>ns. oid_path e (a # l) ns target \<Longrightarrow> oid_path e l ns target"
  shows "name_ok e (a # l) prefix target r"
  using assms by (auto simp: name_ok_def oid_path_Cons split: option.splits)

lemma build_name_spec:
  assumes "depth_ok fuel e l"
  shows "\<exists>r. procfs_sysctl_build_name fuel e l (take 255 prefix) target = Some r \<and> name_ok e l prefix target r"
  using assms
proof (induction fuel arbitrary: l prefix rule: less_induct)
  case (less fuel)
  from less.prems show ?case
  proof (induction l)
    case Nil
    then show ?case by (simp add: name_ok_def oid_path_Nil)
  next
    case (Cons a l)
    let ?o = "oid_at e a"
    obtain r where r: "procfs_sysctl_build_name fuel e l (take 255 prefix) target = Some r" "name_ok e l prefix target r"
      using Cons.IH depth_ok_Cons [OF Cons.prems] by blast
    show ?case
    proof (cases "oid_name ?o")
      case None
      then show ?thesis using r name_ok_skip [OF r(2), of a] by (auto simp: oid_path_Cons)
    next
      case (Some n)
      show ?thesis
      proof (cases "a = target")
        case True
        have "strlcpy 256 (take 255 (join_dot prefix n)) = take 255 (join_dot prefix n)" by (simp add: strlcpy_def)
        then show ?thesis using True Some
          by (auto simp: sysctl_path_join name_ok_def oid_path_Cons intro!: exI [of _ "[n]"])
      next
        case False
        show ?thesis
        proof (cases "oid_is_node ?o \<and> oid_arg1 ?o \<noteq> None")
          case True
          then obtain l' where l': "oid_arg1 ?o = Some l'" "oid_is_node ?o" by auto
          obtain f where f: "fuel = Suc f" "depth_ok f e l'" using depth_ok_child [OF Cons.prems l'(2,1)] by blast
          obtain q where q: "procfs_sysctl_build_name f e l' (take 255 (join_dot prefix n)) target = Some q"
              "name_ok e l' (join_dot prefix n) target q"
            using less.IH [of f l' "join_dot prefix n"] f by auto
          show ?thesis
          proof (cases q)
            case None
            then have "\<not> (\<exists>ns. oid_path e l' ns target)" using q(2) by (simp add: name_ok_def)
            then show ?thesis using r q None f l' Some \<open>a \<noteq> target\<close> name_ok_skip [OF r(2), of a]
              by (auto simp: sysctl_path_join oid_path_Cons)
          next
            case (Some s)
            then obtain ns where "oid_path e l' ns target" "s = take 255 (foldl join_dot (join_dot prefix n) ns)"
              using q(2) by (auto simp: name_ok_def)
            moreover have "oid_path e (a # l) (n # ns) target"
              using l' \<open>oid_name ?o = Some n\<close> calculation(1) by (intro path_down) auto
            ultimately have "name_ok e (a # l) prefix target (Some s)"
              by (simp add: name_ok_def) (metis foldl_Cons)
            then show ?thesis using q Some f l' \<open>oid_name ?o = Some n\<close> \<open>a \<noteq> target\<close>
              by (simp add: sysctl_path_join)
          qed
        next
          case False
          then show ?thesis using r Some \<open>a \<noteq> target\<close> name_ok_skip [OF r(2), of a]
            by (auto simp: oid_path_Cons)
        qed
      qed
    qed
  qed
qed

text \<open>
  C32: in a tree of bounded depth the name search for a sysctl node always ends; it
  finds a name exactly when the node is in the tree, and the name is the dotted
  path of names down to it, cut to 255 characters.
\<close>

theorem sysctl_build_name_path:
  assumes "depth_ok fuel e l"
  shows "\<exists>r. procfs_sysctl_build_name fuel e l [] target = Some r \<and>
    (case r of
       None \<Rightarrow> \<not> (\<exists>ns. oid_path e l ns target)
     | Some s \<Rightarrow> \<exists>ns. oid_path e l ns target \<and> s = take 255 (foldl join_dot [] ns))"
  using build_name_spec [OF assms, of "[]" target] by (simp add: name_ok_def)

definition demo_oids :: "oid_addr \<Rightarrow> sysctl_oid" where
  "demo_oids a =
     (if a = 1 then \<lparr> oid_name = Some ''kern'', oid_kind = 1, oid_arg1 = Some [2, 3], oid_fmt = None \<rparr>
      else if a = 2 then \<lparr> oid_name = Some ''ostype'', oid_kind = 3, oid_arg1 = None, oid_fmt = None \<rparr>
      else \<lparr> oid_name = Some ''maxproc'', oid_kind = 2, oid_arg1 = None, oid_fmt = Some ''I'' \<rparr>)"

definition demo_sysctl :: sysctl_env where
  "demo_sysctl = \<lparr> sysctl_children_k = [1], oid_at = demo_oids,
     sysctlbyname_k = (\<lambda>n. if n = ''kern.maxproc'' then Some (le_bytes 4 1000) else None) \<rparr>"

lemma demo_depth: "depth_ok 1 demo_sysctl [1]"
  by (simp add: demo_sysctl_def demo_oids_def oid_is_node_def CTLTYPE_def CTLTYPE_NODE_def)

lemma demo_build_name: "procfs_sysctl_build_name 1 demo_sysctl [1] [] 3 = Some (Some ''kern.maxproc'')"
  by (simp add: demo_sysctl_def demo_oids_def oid_is_node_def CTLTYPE_def CTLTYPE_NODE_def sysctl_path_def strlcpy_def)

theorem sysctl_build_name_path_witness:
  "\<exists>ns. oid_path demo_sysctl [1] ns 3 \<and> ''kern.maxproc'' = take 255 (foldl join_dot [] ns)"
  using sysctl_build_name_path [OF demo_depth, of 3] demo_build_name by auto

section \<open>Listing and lookup\<close>

definition child_names :: "sysctl_env \<Rightarrow> oid_addr list \<Rightarrow> string list" where
  "child_names e l = List.map_filter (\<lambda>a. oid_name (oid_at e a)) l"

lemma child_names_simps [simp]:
  "child_names e [] = []"
  "child_names e (a # l) = (case oid_name (oid_at e a) of None \<Rightarrow> child_names e l | Some n \<Rightarrow> n # child_names e l)"
  by (simp_all add: child_names_def map_filter_Cons split: option.split)

lemma nth_child_in: "nth_child e k i l = Some (n, nd, a) \<Longrightarrow> n \<in> set (child_names e l) \<and> oid_name (oid_at e a) = Some n"
  by (induction l arbitrary: i) (auto split: option.splits if_splits)

lemma nth_child_find:
  "nth_child e k i l = Some (n, nd, a) \<Longrightarrow> distinct (child_names e l) \<Longrightarrow> find_child e n l = Some a"
proof (induction l arbitrary: i)
  case (Cons b l)
  then show ?case using nth_child_in [of e k "Suc i" l n nd a]
    by (auto split: option.splits if_splits)
qed simp

lemma nth_child_all:
  "i \<le> k \<Longrightarrow> nth_child e k i l =
     (if k - i < length (child_names e l)
      then Some (let a = filter (\<lambda>a. oid_name (oid_at e a) \<noteq> None) l ! (k - i)
                 in (the (oid_name (oid_at e a)), oid_is_node (oid_at e a), a))
      else None)"
proof (induction l arbitrary: i)
  case (Cons b l)
  show ?case
  proof (cases "oid_name (oid_at e b)")
    case None
    then show ?thesis using Cons by simp
  next
    case (Some n)
    show ?thesis
    proof (cases "i < k")
      case True
      then obtain j where "k - i = Suc j" "k - Suc i = j" by (metis Suc_diff_Suc)
      then show ?thesis using Some Cons.IH [of "Suc i"] True by simp
    qed (use Some Cons.prems in auto)
  qed
qed simp

text \<open>
  In a directory whose entries have different names, looking up a name that
  the listing by index shows leads to the node the listing shows for it, and the
  listing ends behind the last named entry.
\<close>

lemma sysctl_listing_lookup:
  assumes "procfs_sysctl_children e dir = Some l" "distinct (child_names e l)"
  shows "(procfs_sysctl_child_at e dir i = None \<longleftrightarrow> length (child_names e l) \<le> i) \<and>
    (\<forall>n nd a. procfs_sysctl_child_at e dir i = Some (n, nd, a) \<longrightarrow>
       procfs_sysctl_find e dir n = Some a \<and> nd = oid_is_node (oid_at e a))"
proof -
  have "nth_child e i 0 l = Some (n, nd, a) \<Longrightarrow> nd = oid_is_node (oid_at e a)" for n nd a
    using nth_child_all [of 0 i e l] by (auto simp: Let_def split: if_splits)
  moreover have "procfs_sysctl_child_at e dir i = nth_child e i 0 l" "procfs_sysctl_find e dir n = find_child e n l" for n
    using assms(1) by (simp_all add: procfs_sysctl_child_at_def procfs_sysctl_find_def)
  moreover have "nth_child e i 0 l = None \<longleftrightarrow> length (child_names e l) \<le> i"
    using nth_child_all [of 0 i e l] by (simp add: not_less)
  ultimately show ?thesis using nth_child_find [of e i 0 l] assms(2) by metis
qed

theorem sysctl_listing_lookup_witness:
  "procfs_sysctl_child_at demo_sysctl 1 1 = Some (''maxproc'', False, 3) \<and>
   procfs_sysctl_find demo_sysctl 1 ''maxproc'' = Some 3"
proof -
  have c: "procfs_sysctl_children demo_sysctl 1 = Some [2, 3]"
    by (simp add: procfs_sysctl_children_def demo_sysctl_def demo_oids_def oid_is_node_def CTLTYPE_def CTLTYPE_NODE_def)
  have l: "procfs_sysctl_child_at demo_sysctl 1 1 = Some (''maxproc'', False, 3)"
    by (simp add: procfs_sysctl_child_at_def c) (simp add: demo_sysctl_def demo_oids_def oid_is_node_def CTLTYPE_def CTLTYPE_NODE_def)
  have d: "distinct (child_names demo_sysctl [2, 3])" by (simp add: demo_sysctl_def demo_oids_def)
  show ?thesis using sysctl_listing_lookup [OF c d, of 1] l by blast
qed

end
