(* ===== verification/NodeTable.thy ===== *)
theory NodeTable
imports Subr
begin

text \<open>
  The hash table of nodes of \<^verbatim>\<open>kext/procfs_node.c\<close>: the hash of a mount id and a
  node id, the bucket walk, insertion and removal, and the id of a node's
  parent. The locale \<open>node_table\<close> is the contract the find protocol relies on: a
  table with at most one node per key and lookups that see exactly the inserts
  and removals; it is interpreted on the bucket lists.
\<close>

section \<open>Keys and hashing\<close>

definition PROCFS_ROOT_NODE_ID :: pfsid where
  "PROCFS_ROOT_NODE_ID = \<lparr> nodeid_pid = PRNODE_NO_PID, nodeid_objectid = PRNODE_NO_OBJECTID,
     nodeid_base_id = PROCFS_ROOT_NODE_BASE_ID \<rparr>"

type_synonym naddr = nat
type_synonym nkey = "int \<times> pfsid"

definition node_key :: "pfsnode \<Rightarrow> nkey" where
  "node_key n = (node_mnt_id n, node_id n)"

text \<open>
  The mount id is shifted and xor-ed with the pid as \<^verbatim>\<open>int\<close>; the object id makes
  the expression 64 bits wide; the cast keeps the low 32 bits.
\<close>

definition HASH_FOR_MOUNT_AND_ID :: "int \<Rightarrow> pfsid \<Rightarrow> 32 word" where
  "HASH_FOR_MOUNT_AND_ID mount_id i =
     ucast ((scast (push_bit 16 (word_of_int mount_id :: 32 word) XOR word_of_int (nodeid_pid i)) :: 64 word)
            XOR nodeid_objectid i XOR ucast (nodeid_base_id i))"

definition HASH_BUCKET_COUNT :: nat where "HASH_BUCKET_COUNT = 64"

definition pfsnode_hash_to_bucket_mask :: "64 word" where
  "pfsnode_hash_to_bucket_mask = of_nat (HASH_BUCKET_COUNT - 1)"

definition PROCFS_NODE_HASH_TO_BUCKET :: "32 word \<Rightarrow> nat" where
  "PROCFS_NODE_HASH_TO_BUCKET h = unat ((scast h :: 64 word) AND pfsnode_hash_to_bucket_mask)"

definition bucket_of :: "nkey \<Rightarrow> nat" where
  "bucket_of key = PROCFS_NODE_HASH_TO_BUCKET (HASH_FOR_MOUNT_AND_ID (fst key) (snd key))"

lemma bucket_of_less: "bucket_of key < HASH_BUCKET_COUNT"
proof -
  have m: "pfsnode_hash_to_bucket_mask = mask 6"
    by (simp add: pfsnode_hash_to_bucket_mask_def HASH_BUCKET_COUNT_def mask_eq_exp_minus_1)
  have "unat (w AND mask 6) < 2 ^ 6" for w :: "64 word"
    using take_bit_nat_less_exp [of 6 "unat w"]
    by (simp add: take_bit_eq_mask [symmetric] unsigned_take_bit_eq)
  then show ?thesis
    by (simp add: bucket_of_def PROCFS_NODE_HASH_TO_BUCKET_def m HASH_BUCKET_COUNT_def)
qed

section \<open>The table\<close>

text \<open>
  The memory of nodes (\<open>None\<close> is unallocated) and the bucket lists, which hold
  addresses, the most recent insert first.
\<close>

record htab =
  h_nodes :: "naddr \<Rightarrow> pfsnode option"
  h_buckets :: "nat \<Rightarrow> naddr list"

definition htab0 :: htab where
  "htab0 = \<lparr> h_nodes = (\<lambda>_. None), h_buckets = (\<lambda>_. []) \<rparr>"

definition node_matches :: "nkey \<Rightarrow> pfsnode \<Rightarrow> bool" where
  "node_matches key n \<longleftrightarrow>
     node_mnt_id n = fst key \<and>
     nodeid_pid (node_id n) = nodeid_pid (snd key) \<and>
     nodeid_objectid (node_id n) = nodeid_objectid (snd key) \<and>
     nodeid_base_id (node_id n) = nodeid_base_id (snd key)"

definition ht_lookup :: "nkey \<Rightarrow> htab \<Rightarrow> naddr option" where
  "ht_lookup key h =
     find (\<lambda>a. case h_nodes h a of None \<Rightarrow> False | Some n \<Rightarrow> node_matches key n)
       (h_buckets h (bucket_of key))"

text \<open>Initialisation of a node in allocated memory and \<^verbatim>\<open>LIST_INSERT_HEAD\<close>.\<close>

definition ht_insert :: "naddr \<Rightarrow> pfsnode \<Rightarrow> htab \<Rightarrow> htab" where
  "ht_insert a n h =
     (let b = bucket_of (node_key n)
      in h\<lparr> h_nodes := (h_nodes h)(a := Some n), h_buckets := (h_buckets h)(b := a # h_buckets h b) \<rparr>)"

text \<open>\<^verbatim>\<open>LIST_REMOVE\<close> and \<^verbatim>\<open>OSFree\<close>.\<close>

definition procfsnode_free_node :: "naddr \<Rightarrow> htab \<Rightarrow> htab" where
  "procfsnode_free_node a h =
     (case h_nodes h a of
        None \<Rightarrow> h
      | Some n \<Rightarrow>
          (let b = bucket_of (node_key n)
           in h\<lparr> h_nodes := (h_nodes h)(a := None), h_buckets := (h_buckets h)(b := remove1 a (h_buckets h b)) \<rparr>))"

text \<open>A write to fields of a node that are not part of its key.\<close>

definition ht_update :: "naddr \<Rightarrow> (pfsnode \<Rightarrow> pfsnode) \<Rightarrow> htab \<Rightarrow> htab" where
  "ht_update a f h = h\<lparr> h_nodes := (h_nodes h)(a := map_option f (h_nodes h a)) \<rparr>"

text \<open>Memory for a node that is not in the table.\<close>

definition ht_set :: "naddr \<Rightarrow> pfsnode option \<Rightarrow> htab \<Rightarrow> htab" where
  "ht_set a v h = h\<lparr> h_nodes := (h_nodes h)(a := v) \<rparr>"

definition hashed :: "htab \<Rightarrow> naddr \<Rightarrow> bool" where
  "hashed h a \<longleftrightarrow> (\<exists>b. a \<in> set (h_buckets h b))"

definition ht_inv :: "htab \<Rightarrow> bool" where
  "ht_inv h \<longleftrightarrow>
     (\<forall>b. distinct (h_buckets h b) \<and>
        (\<forall>a \<in> set (h_buckets h b). \<exists>n. h_nodes h a = Some n \<and> bucket_of (node_key n) = b)) \<and>
     (\<forall>a a' n n'. hashed h a \<and> hashed h a' \<and> h_nodes h a = Some n \<and> h_nodes h a' = Some n' \<and>
        node_key n = node_key n' \<longrightarrow> a = a')"

lemma node_matches_key: "node_matches key n \<longleftrightarrow> node_key n = key"
  by (cases key) (auto simp: node_matches_def node_key_def)

lemma ht_invD:
  assumes "ht_inv h" "a \<in> set (h_buckets h b)"
  shows "\<exists>n. h_nodes h a = Some n \<and> bucket_of (node_key n) = b"
  using assms by (auto simp: ht_inv_def)

lemma ht_inv_distinct: "ht_inv h \<Longrightarrow> distinct (h_buckets h b)"
  by (auto simp: ht_inv_def)

lemma ht_inv_unique:
  "ht_inv h \<Longrightarrow> hashed h a \<Longrightarrow> hashed h a' \<Longrightarrow> h_nodes h a = Some n \<Longrightarrow> h_nodes h a' = Some n' \<Longrightarrow>
   node_key n = node_key n' \<Longrightarrow> a = a'"
  unfolding ht_inv_def by blast

lemma ht_lookup_Some:
  assumes "ht_inv h"
  shows "ht_lookup key h = Some a \<longleftrightarrow> hashed h a \<and> (\<exists>n. h_nodes h a = Some n \<and> node_key n = key)"
proof
  assume "ht_lookup key h = Some a"
  then show "hashed h a \<and> (\<exists>n. h_nodes h a = Some n \<and> node_key n = key)"
    by (auto simp: ht_lookup_def find_Some_iff hashed_def node_matches_key split: option.splits
        dest: nth_mem)
next
  assume r: "hashed h a \<and> (\<exists>n. h_nodes h a = Some n \<and> node_key n = key)"
  then obtain n b where n: "h_nodes h a = Some n" "node_key n = key" "a \<in> set (h_buckets h b)"
    by (auto simp: hashed_def)
  then have b: "b = bucket_of key" using ht_invD [OF assms n(3)] by auto
  show "ht_lookup key h = Some a"
  proof (cases "ht_lookup key h")
    case None
    then show ?thesis using n b by (auto simp: ht_lookup_def find_None_iff node_matches_key)
  next
    case (Some a')
    then obtain n' where "hashed h a'" "h_nodes h a' = Some n'" "node_key n' = key"
      by (auto simp: ht_lookup_def find_Some_iff hashed_def node_matches_key split: option.splits
          dest: nth_mem)
    then show ?thesis using Some ht_inv_unique [OF assms _ conjunct1 [OF r]] n by auto
  qed
qed

lemma ht_lookup_None:
  assumes "ht_inv h"
  shows "ht_lookup key h = None \<longleftrightarrow> (\<forall>a n. hashed h a \<longrightarrow> h_nodes h a = Some n \<longrightarrow> node_key n \<noteq> key)"
  using ht_lookup_Some [OF assms, of key] by (metis not_None_eq option.distinct(1))

lemma hashed_node: "ht_inv h \<Longrightarrow> hashed h a \<Longrightarrow> \<exists>n. h_nodes h a = Some n"
  by (auto simp: hashed_def dest: ht_invD)


lemma hashed_insert: "hashed (ht_insert a n h) x \<longleftrightarrow> x = a \<or> hashed h x"
  by (auto simp: hashed_def ht_insert_def Let_def) metis

lemma hashed_frame [simp]: "hashed (ht_update a f h) = hashed h" "hashed (ht_set a v h) = hashed h"
  by (simp_all add: hashed_def ht_update_def ht_set_def fun_eq_iff)

lemma hashed_free:
  assumes "ht_inv h" "hashed h a"
  shows "hashed (procfsnode_free_node a h) x \<longleftrightarrow> x \<noteq> a \<and> hashed h x"
proof -
  obtain n where n: "h_nodes h a = Some n" using hashed_node [OF assms] by blast
  have "a \<in> set (h_buckets h b) \<Longrightarrow> b = bucket_of (node_key n)" for b
    using ht_invD [OF assms(1), of a b] n by auto
  then show ?thesis using n ht_inv_distinct [OF assms(1)]
    by (auto simp: hashed_def procfsnode_free_node_def Let_def split: if_splits) metis+
qed

lemma ht_insert_inv:
  assumes i: "ht_inv h" and l: "ht_lookup (node_key n) h = None" and a: "\<not> hashed h a"
  shows "ht_inv (ht_insert a n h)"
proof -
  let ?h = "ht_insert a n h"
  have nodes: "h_nodes ?h = (h_nodes h)(a := Some n)" by (simp add: ht_insert_def Let_def)
  have b: "h_buckets ?h b = (if b = bucket_of (node_key n) then a # h_buckets h b else h_buckets h b)" for b
    by (simp add: ht_insert_def Let_def)
  have na: "a \<notin> set (h_buckets h b)" for b using a by (auto simp: hashed_def)
  have "distinct (h_buckets ?h b) \<and>
      (\<forall>x \<in> set (h_buckets ?h b). \<exists>m. h_nodes ?h x = Some m \<and> bucket_of (node_key m) = b)" for b
    using ht_inv_distinct [OF i] ht_invD [OF i] na by (auto simp: b nodes)
  moreover have "x = y" if "hashed ?h x" "hashed ?h y" "h_nodes ?h x = Some m" "h_nodes ?h y = Some m'"
      "node_key m = node_key m'" for x y m m'
    using that l ht_inv_unique [OF i, of x y m m'] ht_lookup_None [OF i]
    by (auto simp: hashed_insert nodes split: if_splits)
  ultimately show ?thesis unfolding ht_inv_def by blast
qed

lemma ht_insert_lookup:
  assumes "ht_inv h" "ht_lookup (node_key n) h = None" "\<not> hashed h a"
  shows "ht_lookup key (ht_insert a n h) = (if key = node_key n then Some a else ht_lookup key h)"
proof -
  note i = ht_insert_inv [OF assms]
  have nodes: "h_nodes (ht_insert a n h) = (h_nodes h)(a := Some n)" by (simp add: ht_insert_def Let_def)
  show ?thesis
  proof (cases "key = node_key n")
    case True
    then have "ht_lookup key (ht_insert a n h) = Some a"
      using ht_lookup_Some [OF i] by (simp add: hashed_insert nodes)
    then show ?thesis using True by simp
  next
    case False
    then have "ht_lookup key (ht_insert a n h) = Some x \<longleftrightarrow> ht_lookup key h = Some x" for x
      using ht_lookup_Some [OF i] ht_lookup_Some [OF assms(1)] assms(3) by (auto simp: hashed_insert nodes)
    then show ?thesis using False by (metis not_Some_eq)
  qed
qed

lemma ht_free_inv:
  assumes i: "ht_inv h" and a: "hashed h a"
  shows "ht_inv (procfsnode_free_node a h)"
proof -
  let ?h = "procfsnode_free_node a h"
  obtain n where n: "h_nodes h a = Some n" using hashed_node [OF assms] by blast
  have nodes: "h_nodes ?h = (h_nodes h)(a := None)" using n by (simp add: procfsnode_free_node_def Let_def)
  have b: "h_buckets ?h b = (if b = bucket_of (node_key n) then remove1 a (h_buckets h b) else h_buckets h b)" for b
    using n by (simp add: procfsnode_free_node_def Let_def)
  have na: "a \<in> set (h_buckets h b) \<Longrightarrow> b = bucket_of (node_key n)" for b
    using ht_invD [OF i, of a b] n by auto
  have "distinct (h_buckets ?h b)" for b using ht_inv_distinct [OF i] by (simp add: b)
  moreover have "\<exists>m. h_nodes ?h x = Some m \<and> bucket_of (node_key m) = b" if "x \<in> set (h_buckets ?h b)" for x b
  proof -
    have "x \<in> set (h_buckets h b)" "x \<noteq> a"
      using that na ht_inv_distinct [OF i, of b] by (auto simp: b split: if_splits)
    then show ?thesis using ht_invD [OF i] by (simp add: nodes)
  qed
  moreover have "x = y" if "hashed ?h x" "hashed ?h y" "h_nodes ?h x = Some m" "h_nodes ?h y = Some m'"
      "node_key m = node_key m'" for x y m m'
    using that ht_inv_unique [OF i, of x y m m'] by (auto simp: hashed_free [OF assms] nodes)
  ultimately show ?thesis unfolding ht_inv_def by blast
qed

lemma ht_free_lookup:
  assumes i: "ht_inv h" and a: "ht_lookup k h = Some a"
  shows "ht_lookup key (procfsnode_free_node a h) = (if key = k then None else ht_lookup key h)"
proof -
  obtain n where ha: "hashed h a" and n: "h_nodes h a = Some n" "node_key n = k"
    using a ht_lookup_Some [OF i] by auto
  note fi = ht_free_inv [OF i ha]
  have nodes: "h_nodes (procfsnode_free_node a h) = (h_nodes h)(a := None)"
    using n by (auto simp: procfsnode_free_node_def Let_def)
  have "ht_lookup key (procfsnode_free_node a h) = Some x \<longleftrightarrow> key \<noteq> k \<and> ht_lookup key h = Some x" for x
    unfolding ht_lookup_Some [OF fi] ht_lookup_Some [OF i] hashed_free [OF i ha] nodes
    using n ht_inv_unique [OF i ha, of x n] by auto
  then show ?thesis by (metis not_Some_eq)
qed

lemma ht_frame_inv:
  assumes i: "ht_inv h" and k: "\<And>n. h_nodes h a = Some n \<Longrightarrow> node_key (f n) = node_key n"
  shows "ht_inv (ht_update a f h)" "ht_lookup key (ht_update a f h) = ht_lookup key h"
proof -
  let ?h = "ht_update a f h"
  have nodes: "h_nodes ?h x = (if x = a then map_option f (h_nodes h a) else h_nodes h x)" for x
    by (simp add: ht_update_def)
  have kk: "h_nodes ?h x = Some m \<Longrightarrow> \<exists>n. h_nodes h x = Some n \<and> node_key n = node_key m" for x m
    using k by (auto simp: nodes split: if_splits)
  have b: "h_buckets ?h = h_buckets h" by (simp add: ht_update_def)
  show inv: "ht_inv ?h"
  proof -
    have "\<exists>m. h_nodes ?h x = Some m \<and> bucket_of (node_key m) = b" if "x \<in> set (h_buckets h b)" for x b
      using ht_invD [OF i that] k by (auto simp: nodes)
    moreover have "x = y" if "hashed ?h x" "hashed ?h y" "h_nodes ?h x = Some m" "h_nodes ?h y = Some m'"
      "node_key m = node_key m'" for x y m m'
      using kk [OF that(3)] kk [OF that(4)] that ht_inv_unique [OF i] by fastforce
    ultimately show ?thesis using ht_inv_distinct [OF i] unfolding ht_inv_def b by blast
  qed
  have "ht_lookup key ?h = Some x \<longleftrightarrow> ht_lookup key h = Some x" for x
    unfolding ht_lookup_Some [OF inv] ht_lookup_Some [OF i] using k by (auto simp: nodes)
  then show "ht_lookup key ?h = ht_lookup key h" by (metis not_Some_eq)
qed

lemma ht_set_inv:
  assumes i: "ht_inv h" and a: "\<not> hashed h a"
  shows "ht_inv (ht_set a v h)" "ht_lookup key (ht_set a v h) = ht_lookup key h"
proof -
  have na: "a \<notin> set (h_buckets h b)" for b using a by (auto simp: hashed_def)
  show inv: "ht_inv (ht_set a v h)"
    using i a na unfolding ht_inv_def
    by (auto simp: ht_set_def hashed_def split: if_splits)
  have "ht_lookup key (ht_set a v h) = Some x \<longleftrightarrow> ht_lookup key h = Some x" for x
    unfolding ht_lookup_Some [OF inv] ht_lookup_Some [OF i] using a by (auto simp: ht_set_def hashed_def)
  then show "ht_lookup key (ht_set a v h) = ht_lookup key h" by (metis not_Some_eq)
qed


section \<open>The contract of the table\<close>

text \<open>
  A table of nodes by key. Clients add a node only when the key is absent and
  remove it by the address a lookup returned.
\<close>

locale node_table =
  fixes inv :: "'h \<Rightarrow> bool"
    and lookup :: "'k \<Rightarrow> 'h \<Rightarrow> 'a option"
    and holds :: "'h \<Rightarrow> 'a \<Rightarrow> bool"
    and key :: "'n \<Rightarrow> 'k"
    and insert_node :: "'a \<Rightarrow> 'n \<Rightarrow> 'h \<Rightarrow> 'h"
    and free_node :: "'a \<Rightarrow> 'h \<Rightarrow> 'h"
  assumes insert_inv: "inv h \<Longrightarrow> lookup (key n) h = None \<Longrightarrow> \<not> holds h a \<Longrightarrow> inv (insert_node a n h)"
    and insert_lookup: "inv h \<Longrightarrow> lookup (key n) h = None \<Longrightarrow> \<not> holds h a \<Longrightarrow>
      lookup k (insert_node a n h) = (if k = key n then Some a else lookup k h)"
    and lookup_holds: "inv h \<Longrightarrow> lookup k h = Some a \<Longrightarrow> holds h a"
    and free_inv: "inv h \<Longrightarrow> holds h a \<Longrightarrow> inv (free_node a h)"
    and free_lookup: "inv h \<Longrightarrow> lookup k h = Some a \<Longrightarrow>
      lookup k' (free_node a h) = (if k' = k then None else lookup k' h)"
begin

lemma insert_then_free:
  assumes "inv h" "lookup (key n) h = None" "\<not> holds h a"
  shows "lookup k (free_node a (insert_node a n h)) = lookup k h"
  using free_lookup [OF insert_inv [OF assms], of "key n" a k] insert_lookup [OF assms] assms(2) by auto

lemma at_most_one:
  assumes "inv h" "lookup k h = Some a" "lookup k h = Some b"
  shows "a = b"
  using assms by simp

lemma insert_other:
  assumes "inv h" "lookup (key n) h = None" "\<not> holds h a" "lookup k h = Some b"
  shows "lookup k (insert_node a n h) = Some b"
  using assms insert_lookup [OF assms(1-3), of k] by auto

end

interpretation hash_table: node_table ht_inv ht_lookup hashed node_key ht_insert procfsnode_free_node
  by unfold_locales
     (auto simp: ht_insert_inv ht_insert_lookup ht_free_inv ht_free_lookup dest: ht_lookup_Some [THEN iffD1])

text \<open>
  Creating a node for a key that is not in the hash table and removing it
  again leaves every lookup as it was.
\<close>

lemma node_table_insert_free:
  assumes "ht_inv h" "ht_lookup (node_key n) h = None" "\<not> hashed h a"
  shows "ht_lookup key (procfsnode_free_node a (ht_insert a n h)) = ht_lookup key h \<and>
    ht_lookup (node_key n) (ht_insert a n h) = Some a"
  using hash_table.insert_then_free [OF assms] hash_table.insert_lookup [OF assms] by simp

definition node_ex :: pfsnode where
  "node_ex = \<lparr> node_vnode = None, node_attaching_vnode = False, node_thread_waiting_attach = False,
     node_mnt_id = 1, node_id = PROCFS_ROOT_NODE_ID, node_structure_node = 0 \<rparr>"

lemma htab0_inv [simp]: "ht_inv htab0" "ht_lookup key htab0 = None" "\<not> hashed htab0 a"
  by (simp_all add: ht_inv_def htab0_def ht_lookup_def hashed_def)

theorem node_table_insert_free_witness:
  "ht_lookup (node_key node_ex) (ht_insert 7 node_ex htab0) = Some 7 \<and>
   ht_lookup (node_key node_ex) (procfsnode_free_node 7 (ht_insert 7 node_ex htab0)) = None"
  using node_table_insert_free [of htab0 node_ex 7 "node_key node_ex"] by simp

section \<open>Parents\<close>

text \<open>
  The id of the parent of a node, given the structure node of the node and the
  layout: the root is its own parent.
\<close>

definition procfs_get_parent_node_id :: "sstate \<Rightarrow> pfsnode \<Rightarrow> pfsid option" where
  "procfs_get_parent_node_id ss pnp =
     (case snode_at ss (node_structure_node pnp) of
        None \<Rightarrow> None
      | Some snode \<Rightarrow>
          (case (case psn_parent snode of None \<Rightarrow> Some snode | Some p \<Rightarrow> snode_at ss p) of
             None \<Rightarrow> None
           | Some parent_snode \<Rightarrow>
               (let pid_node = (psn_flags parent_snode AND PSN_FLAG_PROCESS \<noteq> 0);
                    thread_node = (psn_flags parent_snode AND PSN_FLAG_THREAD \<noteq> 0)
                in Some \<lparr> nodeid_pid = (if pid_node then nodeid_pid (node_id pnp) else PRNODE_NO_PID),
                          nodeid_objectid = (if thread_node then nodeid_objectid (node_id pnp)
                                             else PRNODE_NO_OBJECTID),
                          nodeid_base_id = psn_base_node_id parent_snode \<rparr>)))"

text \<open>
  In a well-formed layout every live node has a parent id: its base id is
  that of the structure parent, the pid is kept exactly for process directories
  and the object id exactly for thread directories, and the root is its own
  parent.
\<close>

lemma parent_node_id:
  assumes "wf_layout root ss" "snode_at ss (node_structure_node pnp) = Some snode"
  shows "\<exists>par i. procfs_get_parent_node_id ss pnp = Some i \<and> nodeid_base_id i = psn_base_node_id par \<and>
    (if node_structure_node pnp = root then par = snode
     else (\<exists>p. psn_parent snode = Some p \<and> snode_at ss p = Some par)) \<and>
    nodeid_pid i = (if bit (psn_flags par) 0 then nodeid_pid (node_id pnp) else - 1) \<and>
    nodeid_objectid i = (if bit (psn_flags par) 1 then nodeid_objectid (node_id pnp) else 0)"
proof -
  have f: "(w AND PSN_FLAG_PROCESS \<noteq> 0) = bit w 0" "(w AND PSN_FLAG_THREAD \<noteq> 0) = bit w 1" for w
    by (simp_all only: PSN_FLAG_PROCESS_def PSN_FLAG_THREAD_def push_bit_of_1
        and_exp_eq_0_iff_not_bit not_not)
  show ?thesis
  proof (cases "node_structure_node pnp = root")
    case True
    then have "psn_parent snode = None" using assms by (auto simp: wf_layout_iff)
    then show ?thesis using True assms(2)
      by (simp add: procfs_get_parent_node_id_def f PRNODE_NO_PID_def PRNODE_NO_OBJECTID_def Let_def)
  next
    case False
    then have "links_up ss (node_structure_node pnp) snode" using assms by (auto simp: wf_layout_iff)
    then obtain p par where "psn_parent snode = Some p" "snode_at ss p = Some par"
      by (auto simp: links_up_def split: option.splits)
    then show ?thesis using False assms(2)
      by (simp add: procfs_get_parent_node_id_def f PRNODE_NO_PID_def PRNODE_NO_OBJECTID_def Let_def)
  qed
qed

theorem parent_node_id_witness:
  "\<exists>i. procfs_get_parent_node_id (procfs_structure_init sstate_init) node_ex = Some i \<and>
     nodeid_base_id i = PROCFS_ROOT_NODE_BASE_ID"
proof -
  obtain n where "snode_at (procfs_structure_init sstate_init) (node_structure_node node_ex) = Some n"
    "psn_base_node_id n = PROCFS_ROOT_NODE_BASE_ID"
    using init_node_id [OF no_live_init(1,2), of 0] by (auto simp: no_live_init node_ex_def)
  moreover have "wf_layout (node_structure_node node_ex) (procfs_structure_init sstate_init)"
    using init_layout(1) [OF no_live_init(1,2)] by (simp add: no_live_init node_ex_def)
  ultimately show ?thesis
    using parent_node_id [of "node_structure_node node_ex" "procfs_structure_init sstate_init" node_ex n] by auto
qed

end
