(* ===== verification/NodeFind.thy ===== *)
theory NodeFind
imports NodeTable
begin

text \<open>
  \<open>procfsnode_find\<close> of \<^verbatim>\<open>kext/procfs_node.c\<close> and \<open>procfs_vnop_reclaim\<close> of
  \<^verbatim>\<open>kext/procfs_vnops.c\<close> as a state machine of any number of threads. The hash
  mutex is explicit; a step is the code between two points where a thread can
  be preempted by the protocol: acquiring the mutex, a section under the
  mutex, an allocation, a call of the vnode layer, \<^verbatim>\<open>msleep\<close>. Results of calls that
  leave the sources (\<^verbatim>\<open>OSMalloc\<close>, \<^verbatim>\<open>vnode_getwithvid\<close>, \<^verbatim>\<open>vnode_create\<close>) come with the
  event. Proved by induction over all interleavings: one node per mount and
  node id, one thread attaching a vnode, no thread asleep without a waker, and a
  returned vnode that is alive and belongs to the node asked for.
\<close>

section \<open>State\<close>

text \<open>
  A vnode is an identity (address and vid): it is created once, lives, is
  condemned by the vnode layer when nobody holds an iocount, and is dead after
  its reclaim.
\<close>

datatype vstate = V_none | V_live | V_dying | V_dead

datatype fpc =
    Idle
  | WantTop
  | Top
  | Alloc
  | Sleeping naddr
  | GetVid naddr vnode
  | Creating naddr
  | WantAttach naddr "errno + vnode"
  | Attach naddr "errno + vnode"
  | Finish "errno + naddr \<times> vnode"
  | Returned "errno + naddr \<times> vnode"

text \<open>The arguments and the local \<open>new_pfsnode\<close> of a call.\<close>

record fthread =
  t_pc :: fpc
  t_key :: nkey
  t_snode :: saddr
  t_new :: "naddr option"

text \<open>
  The table, the next free address, the owner of the mutex, the threads, and per
  vnode its state, its node and the threads that hold an iocount.
\<close>

record cache =
  c_tab :: htab
  c_next :: naddr
  c_lock :: "nat option"
  c_thr :: "nat \<Rightarrow> fthread"
  c_vst :: "vnode \<Rightarrow> vstate"
  c_vnode :: "vnode \<Rightarrow> naddr"
  c_io :: "vnode \<Rightarrow> nat list"

definition idle_thread :: fthread where
  "idle_thread = \<lparr> t_pc = Idle, t_key = (0, PROCFS_ROOT_NODE_ID), t_snode = 0, t_new = None \<rparr>"

definition cache0 :: cache where
  "cache0 = \<lparr> c_tab = htab0, c_next = 0, c_lock = None, c_thr = (\<lambda>_. idle_thread),
     c_vst = (\<lambda>_. V_none), c_vnode = (\<lambda>_. 0), c_io = (\<lambda>_. []) \<rparr>"

section \<open>The steps of a call\<close>

definition set_thr :: "nat \<Rightarrow> fthread \<Rightarrow> cache \<Rightarrow> cache" where
  "set_thr t x s = s\<lparr> c_thr := (c_thr s)(t := x) \<rparr>"

definition set_pc :: "nat \<Rightarrow> fpc \<Rightarrow> cache \<Rightarrow> cache" where
  "set_pc t pc s = set_thr t ((c_thr s t)\<lparr> t_pc := pc \<rparr>) s"

definition lck_mtx_unlock :: "cache \<Rightarrow> cache" where
  "lck_mtx_unlock s = s\<lparr> c_lock := None \<rparr>"

definition blank_node :: pfsnode where
  "blank_node = \<lparr> node_vnode = None, node_attaching_vnode = False, node_thread_waiting_attach = False,
     node_mnt_id = 0, node_id = \<lparr> nodeid_pid = 0, nodeid_objectid = 0, nodeid_base_id = 0 \<rparr>,
     node_structure_node = 0 \<rparr>"

definition new_node :: "nkey \<Rightarrow> saddr \<Rightarrow> pfsnode" where
  "new_node key snode = blank_node\<lparr> node_mnt_id := fst key, node_id := snd key, node_structure_node := snode \<rparr>"

text \<open>With a node in hand: wait for its attaching thread, take its vnode, or attach one.\<close>

definition find_use :: "nat \<Rightarrow> naddr \<Rightarrow> cache \<Rightarrow> cache" where
  "find_use t a s =
     (case h_nodes (c_tab s) a of
        None \<Rightarrow> s
      | Some n \<Rightarrow>
          if node_attaching_vnode n then
            lck_mtx_unlock (set_pc t (Sleeping a)
              (s\<lparr> c_tab := ht_update a (\<lambda>n. n\<lparr> node_thread_waiting_attach := True \<rparr>) (c_tab s) \<rparr>))
          else
            (case node_vnode n of
               Some v \<Rightarrow> lck_mtx_unlock (set_pc t (GetVid a v) s)
             | None \<Rightarrow>
                 lck_mtx_unlock (set_pc t (Creating a)
                   (s\<lparr> c_tab := ht_update a (\<lambda>n. n\<lparr> node_attaching_vnode := True \<rparr>) (c_tab s) \<rparr>))))"

text \<open>The top of the loop: the bucket walk, then allocation or the new node.\<close>

definition find_top :: "nat \<Rightarrow> cache \<Rightarrow> cache" where
  "find_top t s =
     (let th = c_thr s t
      in case ht_lookup (t_key th) (c_tab s) of
           Some a \<Rightarrow> find_use t a s
         | None \<Rightarrow>
             (case t_new th of
                None \<Rightarrow> lck_mtx_unlock (set_pc t Alloc s)
              | Some a \<Rightarrow>
                  find_use t a (s\<lparr> c_tab := ht_insert a (new_node (t_key th) (t_snode th)) (c_tab s) \<rparr>)))"

definition find_alloc :: "bool \<Rightarrow> nat \<Rightarrow> cache \<Rightarrow> cache" where
  "find_alloc ok t s =
     (if ok then
        set_thr t ((c_thr s t)\<lparr> t_pc := WantTop, t_new := Some (c_next s) \<rparr>)
          (s\<lparr> c_tab := ht_set (c_next s) (Some blank_node) (c_tab s), c_next := c_next s + 1 \<rparr>)
      else set_pc t (Finish (Inl ENOMEM)) s)"

definition find_getvid :: "bool \<Rightarrow> nat \<Rightarrow> naddr \<Rightarrow> vnode \<Rightarrow> cache \<Rightarrow> cache" where
  "find_getvid ok t a v s =
     (if ok then
        set_pc t (Finish (Inr (a, v))) (s\<lparr> c_io := (c_io s)(v := t # c_io s v) \<rparr>)
      else set_thr t ((c_thr s t)\<lparr> t_pc := WantTop, t_new := None \<rparr>) s)"

text \<open>The callback returned: an error, or a new vnode with one iocount.\<close>

definition find_created :: "errno + vnode \<Rightarrow> nat \<Rightarrow> naddr \<Rightarrow> cache \<Rightarrow> cache" where
  "find_created r t a s =
     (case r of
        Inl e \<Rightarrow> set_pc t (WantAttach a r) s
      | Inr v \<Rightarrow>
          set_pc t (WantAttach a r)
            (s\<lparr> c_vst := (c_vst s)(v := V_live), c_vnode := (c_vnode s)(v := a),
                c_io := (c_io s)(v := [t]) \<rparr>))"

definition wakeup :: "naddr \<Rightarrow> (nat \<Rightarrow> fthread) \<Rightarrow> nat \<Rightarrow> fthread" where
  "wakeup a thr = (\<lambda>t. if t_pc (thr t) = Sleeping a then (thr t)\<lparr> t_pc := WantTop \<rparr> else thr t)"

definition find_attach :: "nat \<Rightarrow> naddr \<Rightarrow> errno + vnode \<Rightarrow> cache \<Rightarrow> cache" where
  "find_attach t a r s =
     (case h_nodes (c_tab s) a of
        None \<Rightarrow> s
      | Some n \<Rightarrow>
          (let s = (if node_thread_waiting_attach n then s\<lparr> c_thr := wakeup a (c_thr s) \<rparr> else s);
               s = s\<lparr> c_tab := ht_update a (\<lambda>n. n\<lparr> node_attaching_vnode := False,
                                                  node_thread_waiting_attach := False \<rparr>) (c_tab s) \<rparr>
           in lck_mtx_unlock
                (case r of
                   Inl e \<Rightarrow>
                     set_thr t ((c_thr s t)\<lparr> t_pc := Finish (Inl e), t_new := None \<rparr>)
                       (s\<lparr> c_tab := procfsnode_free_node a (c_tab s) \<rparr>)
                 | Inr v \<Rightarrow>
                     set_pc t (Finish (Inr (a, v)))
                       (s\<lparr> c_tab := ht_update a (\<lambda>n. n\<lparr> node_vnode := Some v \<rparr>) (c_tab s) \<rparr>))))"

text \<open>Behind the loop: free the allocated node if it was not used, and return.\<close>

definition find_finish :: "nat \<Rightarrow> errno + naddr \<times> vnode \<Rightarrow> cache \<Rightarrow> cache" where
  "find_finish t r s =
     (let target = (case r of Inl e \<Rightarrow> None | Inr (a, v) \<Rightarrow> Some a);
          new = t_new (c_thr s t);
          s = (case new of
                 None \<Rightarrow> s
               | Some b \<Rightarrow> if new \<noteq> target then s\<lparr> c_tab := ht_set b None (c_tab s) \<rparr> else s)
      in set_thr t ((c_thr s t)\<lparr> t_pc := Returned r, t_new := None \<rparr>) s)"

text \<open>The caller drops its iocount with \<^verbatim>\<open>vnode_put\<close>.\<close>

definition find_put :: "nat \<Rightarrow> errno + naddr \<times> vnode \<Rightarrow> cache \<Rightarrow> cache" where
  "find_put t r s =
     set_pc t Idle
       (case r of Inl e \<Rightarrow> s | Inr (a, v) \<Rightarrow> s\<lparr> c_io := (c_io s)(v := remove1 t (c_io s v)) \<rparr>)"

section \<open>Interleavings\<close>

datatype event =
    Ev_call nkey saddr | Ev_lock | Ev_top | Ev_alloc bool | Ev_getvid bool
  | Ev_created "errno + vnode" | Ev_attach | Ev_finish | Ev_put

fun find_event :: "event \<Rightarrow> nat \<Rightarrow> cache \<Rightarrow> cache option" where
  "find_event (Ev_call key snode) t s =
     (if t_pc (c_thr s t) = Idle
      then Some (set_thr t \<lparr> t_pc = WantTop, t_key = key, t_snode = snode, t_new = None \<rparr> s) else None)"
| "find_event Ev_lock t s =
     (if c_lock s = None then
        (case t_pc (c_thr s t) of
           WantTop \<Rightarrow> Some (set_pc t Top (s\<lparr> c_lock := Some t \<rparr>))
         | WantAttach a r \<Rightarrow> Some (set_pc t (Attach a r) (s\<lparr> c_lock := Some t \<rparr>))
         | _ \<Rightarrow> None)
      else None)"
| "find_event Ev_top t s = (if t_pc (c_thr s t) = Top then Some (find_top t s) else None)"
| "find_event (Ev_alloc ok) t s = (if t_pc (c_thr s t) = Alloc then Some (find_alloc ok t s) else None)"
| "find_event (Ev_getvid ok) t s =
     (case t_pc (c_thr s t) of
        GetVid a v \<Rightarrow> (if ok \<longrightarrow> c_vst s v = V_live then Some (find_getvid ok t a v s) else None)
      | _ \<Rightarrow> None)"
| "find_event (Ev_created r) t s =
     (case t_pc (c_thr s t) of
        Creating a \<Rightarrow>
          (if (case r of Inl e \<Rightarrow> True | Inr v \<Rightarrow> c_vst s v = V_none)
           then Some (find_created r t a s) else None)
      | _ \<Rightarrow> None)"
| "find_event Ev_attach t s =
     (case t_pc (c_thr s t) of Attach a r \<Rightarrow> Some (find_attach t a r s) | _ \<Rightarrow> None)"
| "find_event Ev_finish t s =
     (case t_pc (c_thr s t) of Finish r \<Rightarrow> Some (find_finish t r s) | _ \<Rightarrow> None)"
| "find_event Ev_put t s =
     (case t_pc (c_thr s t) of Returned r \<Rightarrow> Some (find_put t r s) | _ \<Rightarrow> None)"

text \<open>
  The vnode layer condemns a vnode nobody holds and then calls
  \<open>procfs_vnop_reclaim\<close>, which takes the mutex.
\<close>

definition vnode_condemn :: "vnode \<Rightarrow> cache \<Rightarrow> cache" where
  "vnode_condemn v s = s\<lparr> c_vst := (c_vst s)(v := V_dying) \<rparr>"

definition procfs_vnop_reclaim :: "vnode \<Rightarrow> cache \<Rightarrow> cache" where
  "procfs_vnop_reclaim v s =
     s\<lparr> c_tab := procfsnode_free_node (c_vnode s v) (c_tab s), c_vst := (c_vst s)(v := V_dead) \<rparr>"

inductive cache_step :: "cache \<Rightarrow> cache \<Rightarrow> bool" where
  thread_step: "find_event e t s = Some s' \<Longrightarrow> cache_step s s'"
| condemn_step: "c_vst s v = V_live \<Longrightarrow> c_io s v = [] \<Longrightarrow> cache_step s (vnode_condemn v s)"
| reclaim_step: "c_vst s v = V_dying \<Longrightarrow> c_lock s = None \<Longrightarrow> cache_step s (procfs_vnop_reclaim v s)"

inductive cache_reach :: "cache \<Rightarrow> bool" where
  reach_init: "cache_reach cache0"
| reach_step: "cache_reach s \<Longrightarrow> cache_step s s' \<Longrightarrow> cache_reach s'"

section \<open>The invariant\<close>

abbreviation node_at :: "cache \<Rightarrow> naddr \<Rightarrow> pfsnode option" where
  "node_at s a \<equiv> h_nodes (c_tab s) a"

abbreviation node_for :: "cache \<Rightarrow> nkey \<Rightarrow> naddr option" where
  "node_for s key \<equiv> ht_lookup key (c_tab s)"

definition vn_used :: "vstate \<Rightarrow> bool" where
  "vn_used x \<longleftrightarrow> x = V_live \<or> x = V_dying"

text \<open>The node a thread is attaching a vnode to, and the vnode it brings.\<close>

fun works_on :: "fpc \<Rightarrow> naddr option" where
  "works_on (Creating a) = Some a"
| "works_on (WantAttach a r) = Some a"
| "works_on (Attach a r) = Some a"
| "works_on pc = None"

fun brings :: "fpc \<Rightarrow> vnode option" where
  "brings (WantAttach a (Inr v)) = Some v"
| "brings (Attach a (Inr v)) = Some v"
| "brings pc = None"

fun result_of :: "fpc \<Rightarrow> (naddr \<times> vnode) option" where
  "result_of (Finish (Inr p)) = Some p"
| "result_of (Returned (Inr p)) = Some p"
| "result_of pc = None"

definition holds_lock :: "fpc \<Rightarrow> bool" where
  "holds_lock pc \<longleftrightarrow> pc = Top \<or> (\<exists>a r. pc = Attach a r)"

text \<open>A hashed node is being attached by a thread, or has a vnode that points back.\<close>

definition lock_ok :: "cache \<Rightarrow> bool" where
  "lock_ok s \<longleftrightarrow> (\<forall>t. c_lock s = Some t \<longleftrightarrow> holds_lock (t_pc (c_thr s t)))"

definition mem_ok :: "cache \<Rightarrow> bool" where
  "mem_ok s \<longleftrightarrow> ht_inv (c_tab s) \<and> (\<forall>a. c_next s \<le> a \<longrightarrow> node_at s a = None)"

definition node_ok :: "cache \<Rightarrow> nkey \<Rightarrow> naddr \<Rightarrow> bool" where
  "node_ok s key a \<longleftrightarrow>
     (\<exists>n. node_at s a = Some n \<and>
        (node_attaching_vnode n \<longrightarrow> (\<exists>t. works_on (t_pc (c_thr s t)) = Some a)) \<and>
        (\<not> node_attaching_vnode n \<longrightarrow>
           (\<exists>v. node_vnode n = Some v \<and> vn_used (c_vst s v) \<and> c_vnode s v = a)))"

definition new_ok :: "cache \<Rightarrow> nat \<Rightarrow> bool" where
  "new_ok s t \<longleftrightarrow>
     (\<forall>a. t_new (c_thr s t) = Some a \<longrightarrow>
        node_at s a \<noteq> None \<and>
        (hashed (c_tab s) a \<longrightarrow>
           works_on (t_pc (c_thr s t)) = Some a \<or> (\<exists>v. t_pc (c_thr s t) = Finish (Inr (a, v))))) \<and>
     (\<forall>r. t_pc (c_thr s t) = Returned r \<longrightarrow> t_new (c_thr s t) = None)"

definition new_inj :: "cache \<Rightarrow> bool" where
  "new_inj s \<longleftrightarrow>
     (\<forall>t t' a. t_new (c_thr s t) = Some a \<longrightarrow> t_new (c_thr s t') = Some a \<longrightarrow> t = t')"

definition work_ok :: "cache \<Rightarrow> nat \<Rightarrow> bool" where
  "work_ok s t \<longleftrightarrow>
     (\<forall>a. works_on (t_pc (c_thr s t)) = Some a \<longrightarrow>
        t_new (c_thr s t) = Some a \<and> node_for s (t_key (c_thr s t)) = Some a \<and>
        (\<exists>n. node_at s a = Some n \<and> node_attaching_vnode n \<and> node_vnode n = None)) \<and>
     (\<forall>v. brings (t_pc (c_thr s t)) = Some v \<longrightarrow>
        c_vst s v = V_live \<and> works_on (t_pc (c_thr s t)) = Some (c_vnode s v) \<and> t \<in> set (c_io s v))"

definition sleep_ok :: "cache \<Rightarrow> nat \<Rightarrow> bool" where
  "sleep_ok s t \<longleftrightarrow>
     (\<forall>a. t_pc (c_thr s t) = Sleeping a \<longrightarrow>
        node_for s (t_key (c_thr s t)) = Some a \<and>
        (\<exists>n. node_at s a = Some n \<and> node_attaching_vnode n \<and> node_thread_waiting_attach n))"

definition vid_ok :: "cache \<Rightarrow> nat \<Rightarrow> bool" where
  "vid_ok s t \<longleftrightarrow>
     (\<forall>a v. t_pc (c_thr s t) = GetVid a v \<longrightarrow> c_vst s v \<noteq> V_none \<and>
        (vn_used (c_vst s v) \<longrightarrow>
           node_for s (t_key (c_thr s t)) = Some a \<and>
           (\<exists>n. node_at s a = Some n \<and> \<not> node_attaching_vnode n \<and> node_vnode n = Some v)))"

definition result_ok :: "cache \<Rightarrow> nat \<Rightarrow> bool" where
  "result_ok s t \<longleftrightarrow>
     (\<forall>a v. result_of (t_pc (c_thr s t)) = Some (a, v) \<longrightarrow>
        c_vst s v = V_live \<and> t \<in> set (c_io s v) \<and> node_for s (t_key (c_thr s t)) = Some a \<and>
        (\<exists>n. node_at s a = Some n \<and> \<not> node_attaching_vnode n \<and> node_vnode n = Some v))"

definition vnode_ok :: "cache \<Rightarrow> vnode \<Rightarrow> bool" where
  "vnode_ok s v \<longleftrightarrow>
     (vn_used (c_vst s v) \<longrightarrow>
        (\<exists>t. brings (t_pc (c_thr s t)) = Some v) \<or>
        (\<exists>key n. node_for s key = Some (c_vnode s v) \<and> node_at s (c_vnode s v) = Some n \<and>
           \<not> node_attaching_vnode n \<and> node_vnode n = Some v)) \<and>
     (\<forall>t. t \<in> set (c_io s v) \<longrightarrow>
        brings (t_pc (c_thr s t)) = Some v \<or> (\<exists>a. result_of (t_pc (c_thr s t)) = Some (a, v))) \<and>
     distinct (c_io s v) \<and> (c_vst s v = V_none \<longrightarrow> c_io s v = [])"

definition cache_inv :: "cache \<Rightarrow> bool" where
  "cache_inv s \<longleftrightarrow>
     lock_ok s \<and> mem_ok s \<and> new_inj s \<and> (\<forall>key a. node_for s key = Some a \<longrightarrow> node_ok s key a) \<and>
     (\<forall>t. new_ok s t \<and> work_ok s t \<and> sleep_ok s t \<and> vid_ok s t \<and> result_ok s t) \<and>
     (\<forall>v. vnode_ok s v)"

lemma cache_invI:
  assumes "lock_ok s" "mem_ok s" "new_inj s" "\<And>key a. node_for s key = Some a \<Longrightarrow> node_ok s key a"
    and "\<And>t. new_ok s t" "\<And>t. work_ok s t" "\<And>t. sleep_ok s t" "\<And>t. vid_ok s t" "\<And>t. result_ok s t"
    and "\<And>v. vnode_ok s v"
  shows "cache_inv s"
  using assms unfolding cache_inv_def by blast

lemma cache_invD:
  assumes "cache_inv s"
  shows "lock_ok s" "mem_ok s" "ht_inv (c_tab s)" "\<And>key a. node_for s key = Some a \<Longrightarrow> node_ok s key a"
    and "\<And>t. new_ok s t" "\<And>t. work_ok s t" "\<And>t. sleep_ok s t" "\<And>t. vid_ok s t" "\<And>t. result_ok s t"
    and "\<And>v. vnode_ok s v" "new_inj s"
  using assms unfolding cache_inv_def mem_ok_def by blast+

lemma cache_inv_init: "cache_inv cache0"
  by (rule cache_invI)
     (simp_all add: cache0_def lock_ok_def mem_ok_def new_inj_def node_ok_def new_ok_def work_ok_def sleep_ok_def
       vid_ok_def result_ok_def vnode_ok_def idle_thread_def holds_lock_def vn_used_def,
      simp add: htab0_def)

lemmas thr_defs = set_thr_def set_pc_def lck_mtx_unlock_def

text \<open>Steps that change only the thread's own program counter.\<close>

lemma ex_thr_upd:
  "f (t_pc x) = f (t_pc (thr t)) \<Longrightarrow>
   (\<exists>t'. f (t_pc ((thr(t := x)) t')) = y) = (\<exists>t'. f (t_pc (thr t')) = y)"
  by (metis fun_upd_apply)

lemma ex_thr_upd_other:
  "f (t_pc x) \<noteq> y \<Longrightarrow> f (t_pc (thr t)) \<noteq> y \<Longrightarrow>
   (\<exists>t'. f (t_pc ((thr(t := x)) t')) = y) = (\<exists>t'. f (t_pc (thr t')) = y)"
  by (metis fun_upd_apply)

text \<open>A node that has finished attaching the vnode.\<close>

definition attached :: "cache \<Rightarrow> naddr \<Rightarrow> vnode \<Rightarrow> bool" where
  "attached s a v \<longleftrightarrow> (\<exists>n. node_at s a = Some n \<and> \<not> node_attaching_vnode n \<and> node_vnode n = Some v)"

lemma vnode_okI:
  assumes "vn_used (c_vst s v) \<Longrightarrow> brings (t_pc (c_thr s t)) = Some v \<or>
      node_for s key = Some (c_vnode s v) \<and> attached s (c_vnode s v) v"
    and "\<And>t. t \<in> set (c_io s v) \<Longrightarrow>
      brings (t_pc (c_thr s t)) = Some v \<or> (\<exists>a. result_of (t_pc (c_thr s t)) = Some (a, v))"
    and "distinct (c_io s v)" "c_vst s v = V_none \<Longrightarrow> c_io s v = []"
  shows "vnode_ok s v"
  using assms unfolding vnode_ok_def attached_def by blast

lemma vnode_ok_frame:
  assumes v: "vnode_ok s v"
    and same: "c_vst s' v = c_vst s v" "c_vnode s' v = c_vnode s v" "c_io s' v = c_io s v"
    and b: "\<And>t. brings (t_pc (c_thr s' t)) = Some v \<longleftrightarrow> brings (t_pc (c_thr s t)) = Some v"
    and r: "\<And>t a. result_of (t_pc (c_thr s t)) = Some (a, v) \<Longrightarrow> result_of (t_pc (c_thr s' t)) = Some (a, v)"
    and n: "\<And>key. node_for s key = Some (c_vnode s v) \<Longrightarrow> attached s (c_vnode s v) v \<Longrightarrow>
      node_for s' key = Some (c_vnode s v) \<and> attached s' (c_vnode s v) v"
  shows "vnode_ok s' v"
proof -
  have "vn_used (c_vst s v) \<Longrightarrow> (\<exists>t. brings (t_pc (c_thr s t)) = Some v) \<or>
      (\<exists>key. node_for s key = Some (c_vnode s v) \<and> attached s (c_vnode s v) v)"
    using v unfolding vnode_ok_def attached_def by blast
  then have "vn_used (c_vst s' v) \<Longrightarrow> (\<exists>t. brings (t_pc (c_thr s' t)) = Some v) \<or>
      (\<exists>key. node_for s' key = Some (c_vnode s' v) \<and> attached s' (c_vnode s' v) v)"
    using same b n by metis
  moreover have "brings (t_pc (c_thr s' t)) = Some v \<or> (\<exists>a. result_of (t_pc (c_thr s' t)) = Some (a, v))"
    if "t \<in> set (c_io s' v)" for t
    using v b r that unfolding vnode_ok_def same by blast
  ultimately show ?thesis
    using v unfolding vnode_ok_def attached_def same by blast
qed

lemma new_inj_upd:
  assumes "new_inj s" "t_new x = t_new (c_thr s t) \<or> t_new x = None" "c_thr s' = (c_thr s)(t := x)"
  shows "new_inj s'"
  unfolding new_inj_def
proof (intro allI impI)
  fix t1 t2 a
  assume "t_new (c_thr s' t1) = Some a" "t_new (c_thr s' t2) = Some a"
  then have "t_new (c_thr s t1) = Some a" "t_new (c_thr s t2) = Some a"
    using assms(2,3) by (auto split: if_splits)
  then show "t1 = t2" using assms(1) unfolding new_inj_def by blast
qed

text \<open>
  A step that replaces the record of one thread and nothing else, keeps the
  thread's work and result and either leaves its arguments alone or has none of
  the obligations that mention them.
\<close>

lemma inv_set_thr:
  assumes i: "cache_inv s"
    and l: "l = (if holds_lock (t_pc x) then Some t else if holds_lock (t_pc (c_thr s t)) then None else c_lock s)"
    and free: "holds_lock (t_pc x) \<Longrightarrow> c_lock s = None \<or> c_lock s = Some t"
    and w: "works_on (t_pc x) = works_on (t_pc (c_thr s t))" "brings (t_pc x) = brings (t_pc (c_thr s t))"
      "result_of (t_pc x) = result_of (t_pc (c_thr s t))"
    and args: "t_key x = t_key (c_thr s t) \<or> works_on (t_pc x) = None \<and> result_of (t_pc x) = None"
    and new: "t_new x = t_new (c_thr s t) \<or> t_new x = None \<and> works_on (t_pc x) = None"
      "\<And>a v. t_new x = Some a \<Longrightarrow> t_pc (c_thr s t) = Finish (Inr (a, v)) \<Longrightarrow> t_pc x = Finish (Inr (a, v))"
      "\<And>r. t_pc x = Returned r \<Longrightarrow> t_new x = None"
    and quiet: "\<And>a. t_pc x \<noteq> Sleeping a" "\<And>a v. t_pc x \<noteq> GetVid a v"
  shows "cache_inv ((set_thr t x s)\<lparr> c_lock := l \<rparr>)"
proof (rule cache_invI)
  let ?s = "(set_thr t x s)\<lparr> c_lock := l \<rparr>"
  have lk: "c_lock s = Some t' \<longleftrightarrow> holds_lock (t_pc (c_thr s t'))" for t'
    using cache_invD(1) [OF i] by (simp add: lock_ok_def)
  have "l = Some t' \<longleftrightarrow> holds_lock (t_pc (if t' = t then x else c_thr s t'))" for t'
    using lk [of t'] lk [of t] free l by (cases "t' = t") (auto split: if_splits)
  then show "lock_ok ?s" by (simp add: lock_ok_def thr_defs)
  show "mem_ok ?s" using cache_invD(2) [OF i] by (simp add: mem_ok_def thr_defs)
  show "node_ok ?s k a" if "node_for ?s k = Some a" for k a
    using cache_invD(4) [OF i, of k a] that ex_thr_upd [of works_on x "c_thr s" t, OF w(1)]
    by (simp add: node_ok_def thr_defs)
  show "new_ok ?s t'" for t'
    using cache_invD(5) [OF i, of t'] new w(1) by (cases "t' = t") (auto simp: new_ok_def thr_defs)
  show "new_inj ?s"
    by (rule new_inj_upd [OF cache_invD(11) [OF i]]) (use new(1) in \<open>auto simp: thr_defs\<close>)
  show "work_ok ?s t'" for t'
    using cache_invD(6) [OF i, of t'] new(1) w args by (cases "t' = t") (auto simp: work_ok_def thr_defs)
  show "sleep_ok ?s t'" for t'
    using cache_invD(7) [OF i, of t'] quiet by (auto simp: sleep_ok_def thr_defs)
  show "vid_ok ?s t'" for t'
    using cache_invD(8) [OF i, of t'] quiet by (auto simp: vid_ok_def thr_defs)
  show "result_ok ?s t'" for t'
    using cache_invD(9) [OF i, of t'] w args by (auto simp: result_ok_def thr_defs)
  show "vnode_ok ?s v" for v
    using cache_invD(10) [OF i, of v] w ex_thr_upd [of brings x "c_thr s" t, OF w(2)]
    by (auto simp: vnode_ok_def thr_defs)
qed
lemma ht_nodes_simps [simp]:
  "h_nodes (ht_update a f h) x = (if x = a then map_option f (h_nodes h a) else h_nodes h x)"
  "h_nodes (ht_set a v h) x = (if x = a then v else h_nodes h x)"
  "h_nodes (ht_insert a n h) x = (if x = a then Some n else h_nodes h x)"
  "h_nodes (procfsnode_free_node a h) x = (if x = a then None else h_nodes h x)"
  by (auto simp: ht_update_def ht_set_def ht_insert_def procfsnode_free_node_def Let_def split: option.split)

lemma lock_release:
  assumes "lock_ok s" "c_lock s = Some t" "\<not> holds_lock (t_pc x)"
  shows "lock_ok (s\<lparr> c_tab := h, c_thr := (c_thr s)(t := x), c_lock := None \<rparr>)"
  using assms by (auto simp: lock_ok_def)

lemma top_lock: "cache_inv s \<Longrightarrow> t_pc (c_thr s t) = Top \<Longrightarrow> c_lock s = Some t"
  using cache_invD(1) by (simp add: lock_ok_def holds_lock_def)

lemma inv_sleep:
  assumes i: "cache_inv s" and pc: "t_pc (c_thr s t) = Top"
    and a: "node_for s (t_key (c_thr s t)) = Some a" "node_at s a = Some n" "node_attaching_vnode n"
  shows "cache_inv (lck_mtx_unlock (set_pc t (Sleeping a)
    (s\<lparr> c_tab := ht_update a (\<lambda>n. n\<lparr> node_thread_waiting_attach := True \<rparr>) (c_tab s) \<rparr>)))" (is "cache_inv ?s")
proof -
  let ?x = "(c_thr s t)\<lparr> t_pc := Sleeping a \<rparr>"
  note h = cache_invD(3) [OF i]
  have nf: "ht_lookup k (ht_update a (\<lambda>n. n\<lparr> node_thread_waiting_attach := True \<rparr>) (c_tab s)) = node_for s k" for k
    by (rule ht_frame_inv(2) [OF h]) (simp add: node_key_def)
  have hi: "ht_inv (ht_update a (\<lambda>n. n\<lparr> node_thread_waiting_attach := True \<rparr>) (c_tab s))"
    by (rule ht_frame_inv(1) [OF h]) (simp add: node_key_def)
  have e: "?s = s\<lparr> c_tab := ht_update a (\<lambda>n. n\<lparr> node_thread_waiting_attach := True \<rparr>) (c_tab s),
      c_thr := (c_thr s)(t := ?x), c_lock := None \<rparr>" by (simp add: thr_defs)
  show ?thesis
    unfolding e
  proof (rule cache_invI, goal_cases)
    case 1
    show ?case using lock_release [OF cache_invD(1) [OF i] top_lock [OF i pc], of ?x] by (simp add: holds_lock_def)
  next
    case 2
    show ?case using cache_invD(2) [OF i] hi by (auto simp: mem_ok_def)
  next
    case 3
    show ?case by (rule new_inj_upd [OF cache_invD(11) [OF i]]) auto
  next
    case (4 k b)
    then show ?case
      using cache_invD(4) [OF i, of k b] ex_thr_upd [of works_on ?x "c_thr s" t] pc
      by (auto simp: node_ok_def nf)
  next
    case (5 t')
    show ?case using cache_invD(5) [OF i, of t'] pc by (auto simp: new_ok_def)
  next
    case (6 t')
    show ?case using cache_invD(6) [OF i, of t'] pc by (auto simp: work_ok_def nf)
  next
    case (7 t')
    show ?case using cache_invD(7) [OF i, of t'] a by (auto simp: sleep_ok_def nf)
  next
    case (8 t')
    show ?case using cache_invD(8) [OF i, of t'] by (auto simp: vid_ok_def nf)
  next
    case (9 t')
    show ?case using cache_invD(9) [OF i, of t'] pc by (auto simp: result_ok_def nf)
  next
    case (10 v)
    show ?case
      using cache_invD(10) [OF i, of v] ex_thr_upd [of brings ?x "c_thr s" t] pc
      by (fastforce simp: vnode_ok_def nf)
  qed
qed
lemma inv_vid:
  assumes i: "cache_inv s" and pc: "t_pc (c_thr s t) = Top"
    and a: "node_for s (t_key (c_thr s t)) = Some a" "node_at s a = Some n" "\<not> node_attaching_vnode n"
      "node_vnode n = Some v"
  shows "cache_inv (lck_mtx_unlock (set_pc t (GetVid a v) s))" (is "cache_inv ?s")
proof -
  let ?x = "(c_thr s t)\<lparr> t_pc := GetVid a v \<rparr>"
  have used: "vn_used (c_vst s v)" using cache_invD(4) [OF i a(1)] a by (auto simp: node_ok_def)
  have e: "?s = s\<lparr> c_tab := c_tab s, c_thr := (c_thr s)(t := ?x), c_lock := None \<rparr>" by (simp add: thr_defs)
  show ?thesis
    unfolding e
  proof (rule cache_invI, goal_cases)
    case 1
    show ?case using lock_release [OF cache_invD(1) [OF i] top_lock [OF i pc], of ?x "c_tab s"] by (simp add: holds_lock_def)
  next
    case 2
    show ?case using cache_invD(2) [OF i] by (auto simp: mem_ok_def)
  next
    case 3
    show ?case by (rule new_inj_upd [OF cache_invD(11) [OF i]]) auto
  next
    case (4 k b)
    then show ?case
      using cache_invD(4) [OF i, of k b] ex_thr_upd [of works_on ?x "c_thr s" t] pc by (auto simp: node_ok_def)
  next
    case (5 t')
    show ?case using cache_invD(5) [OF i, of t'] pc by (auto simp: new_ok_def)
  next
    case (6 t')
    show ?case using cache_invD(6) [OF i, of t'] pc by (auto simp: work_ok_def)
  next
    case (7 t')
    show ?case using cache_invD(7) [OF i, of t'] by (auto simp: sleep_ok_def)
  next
    case (8 t')
    show ?case using cache_invD(8) [OF i, of t'] a used by (auto simp: vid_ok_def vn_used_def)
  next
    case (9 t')
    show ?case using cache_invD(9) [OF i, of t'] pc by (auto simp: result_ok_def)
  next
    case (10 v)
    show ?case
      using cache_invD(10) [OF i, of v] ex_thr_upd [of brings ?x "c_thr s" t] pc
      by (fastforce simp: vnode_ok_def)
  qed
qed

lemma node_for_node:
  assumes "cache_inv s" "node_for s k = Some b"
  shows "hashed (c_tab s) b" "\<exists>n. node_at s b = Some n \<and> node_key n = k"
  using assms ht_lookup_Some [OF cache_invD(3) [OF assms(1)]] by auto

lemma node_for_inj: "cache_inv s \<Longrightarrow> node_for s k = Some b \<Longrightarrow> node_for s k' = Some b \<Longrightarrow> k = k'"
  by (metis node_for_node(2) option.inject)

lemma inv_create:
  assumes i: "cache_inv s" and pc: "t_pc (c_thr s t) = Top"
    and none: "node_for s (t_key (c_thr s t)) = None" and a: "t_new (c_thr s t) = Some a"
    and tab: "tab = ht_update a (\<lambda>n. n\<lparr> node_attaching_vnode := True \<rparr>)
      (ht_insert a (new_node (t_key (c_thr s t)) (t_snode (c_thr s t))) (c_tab s))"
  shows "cache_inv (s\<lparr> c_tab := tab, c_thr := (c_thr s)(t := (c_thr s t)\<lparr> t_pc := Creating a \<rparr>),
    c_lock := None \<rparr>)"
proof -
  let ?x = "(c_thr s t)\<lparr> t_pc := Creating a \<rparr>"
  let ?n = "new_node (t_key (c_thr s t)) (t_snode (c_thr s t))"
  note h = cache_invD(3) [OF i]
  have key: "node_key ?n = t_key (c_thr s t)" by (simp add: new_node_def node_key_def)
  have un: "\<not> hashed (c_tab s) a" using cache_invD(5) [OF i, of t] a pc by (auto simp: new_ok_def)
  have mem: "node_at s a \<noteq> None" using cache_invD(5) [OF i, of t] a by (auto simp: new_ok_def)
  note ins = ht_insert_inv [OF h _ un, of ?n, unfolded key, OF none]
    ht_insert_lookup [OF h _ un, of ?n, unfolded key, OF none]
  have nf: "ht_lookup k tab = (if k = t_key (c_thr s t) then Some a else node_for s k)" for k
    unfolding tab ht_frame_inv(2) [OF ins(1), of a "\<lambda>n. n\<lparr> node_attaching_vnode := True \<rparr>", unfolded node_key_def, simplified]
    by (rule ins(2))
  have hi: "ht_inv tab" unfolding tab by (rule ht_frame_inv(1) [OF ins(1)]) (simp add: node_key_def)
  have hs: "hashed tab b \<longleftrightarrow> b = a \<or> hashed (c_tab s) b" for b by (simp add: tab hashed_insert)
  have na: "h_nodes tab b = (if b = a then Some (?n\<lparr> node_attaching_vnode := True \<rparr>) else node_at s b)" for b
    by (simp add: tab)
  have other: "b \<noteq> a \<and> k \<noteq> t_key (c_thr s t)" if "node_for s k = Some b" for k b
    using node_for_node(1) [OF i that] un that none by auto
  have lt: "a < c_next s" using cache_invD(2) [OF i] mem by (auto simp: mem_ok_def not_less [symmetric])
  show ?thesis
  proof (rule cache_invI, goal_cases)
    case 1
    show ?case using lock_release [OF cache_invD(1) [OF i] top_lock [OF i pc], of ?x] by (simp add: holds_lock_def)
  next
    case 2
    show ?case using cache_invD(2) [OF i] hi lt by (auto simp: mem_ok_def na)
  next
    case 3
    show ?case by (rule new_inj_upd [OF cache_invD(11) [OF i]]) auto
  next
    case (4 k b)
    show ?case
    proof (cases "b = a")
      case True
      then show ?thesis by (auto simp: node_ok_def na intro: exI [of _ t])
    next
      case False
      then have "node_ok s k b" using 4 cache_invD(4) [OF i, of k b] by (auto simp: nf split: if_splits)
      then show ?thesis using False pc ex_thr_upd_other [of works_on ?x "Some b" "c_thr s" t]
        by (simp add: node_ok_def na)
    qed
  next
    case (5 t')
    have "t_new (c_thr s t') \<noteq> Some a" if "t' \<noteq> t"
      using cache_invD(11) [OF i] that a by (auto simp: new_inj_def)
    then show ?case using cache_invD(5) [OF i, of t'] a by (auto simp: new_ok_def na hs)
  next
    case (6 t')
    show ?case
      using cache_invD(6) [OF i, of t'] other [of "t_key (c_thr s t')"] a
      by (cases "t' = t") (auto simp: work_ok_def nf na new_node_def blank_node_def)
  next
    case (7 t')
    show ?case
      using cache_invD(7) [OF i, of t'] other [of "t_key (c_thr s t')"] by (auto simp: sleep_ok_def nf na)
  next
    case (8 t')
    show ?case
      using cache_invD(8) [OF i, of t'] other [of "t_key (c_thr s t')"] by (auto simp: vid_ok_def nf na)
  next
    case (9 t')
    show ?case
      using cache_invD(9) [OF i, of t'] other [of "t_key (c_thr s t')"]
      by (cases "t' = t") (auto simp: result_ok_def nf na)
  next
    case (10 v)
    show ?case
      by (rule vnode_ok_frame [OF cache_invD(10) [OF i, of v]])
         (use pc other na in \<open>auto simp: nf attached_def\<close>)
  qed
qed
lemma inv_top:
  assumes i: "cache_inv s" and pc: "t_pc (c_thr s t) = Top"
  shows "cache_inv (find_top t s)"
proof (cases "node_for s (t_key (c_thr s t))")
  case (Some a)
  obtain n where n: "node_at s a = Some n" using node_for_node(2) [OF i Some] by blast
  show ?thesis
  proof (cases "node_attaching_vnode n")
    case True
    then show ?thesis using inv_sleep [OF i pc Some n] n Some by (simp add: find_top_def find_use_def)
  next
    case False
    then obtain v where v: "node_vnode n = Some v" using cache_invD(4) [OF i Some] n by (auto simp: node_ok_def)
    show ?thesis using inv_vid [OF i pc Some n False v] False v n Some by (simp add: find_top_def find_use_def)
  qed
next
  case None
  show ?thesis
  proof (cases "t_new (c_thr s t)")
    case None': None
    have "cache_inv ((set_thr t ((c_thr s t)\<lparr> t_pc := Alloc \<rparr>) s)\<lparr> c_lock := None \<rparr>)"
      by (rule inv_set_thr [OF i]) (simp_all add: pc holds_lock_def None')
    then show ?thesis using None None' by (simp add: find_top_def thr_defs)
  next
    case (Some a)
    show ?thesis using inv_create [OF i pc None Some refl] None Some
      by (simp add: find_top_def find_use_def thr_defs new_node_def blank_node_def Let_def)
  qed
qed

lemma inv_alloc:
  assumes i: "cache_inv s" and pc: "t_pc (c_thr s t) = Alloc"
  shows "cache_inv (find_alloc ok t s)"
proof (cases ok)
  case False
  have "cache_inv ((set_thr t ((c_thr s t)\<lparr> t_pc := Finish (Inl ENOMEM) \<rparr>) s)\<lparr> c_lock := c_lock s \<rparr>)"
    by (rule inv_set_thr [OF i]) (simp_all add: pc holds_lock_def)
  then show ?thesis using False by (simp add: find_alloc_def thr_defs)
next
  case True
  let ?a = "c_next s" and ?x = "(c_thr s t)\<lparr> t_pc := WantTop, t_new := Some (c_next s) \<rparr>"
  define tab where "tab = ht_set ?a (Some blank_node) (c_tab s)"
  note h = cache_invD(3) [OF i]
  have free: "node_at s ?a = None" using cache_invD(2) [OF i] by (simp add: mem_ok_def)
  have un: "\<not> hashed (c_tab s) ?a" using hashed_node [OF h] free by fastforce
  have nf: "ht_lookup k tab = node_for s k" for k unfolding tab_def by (rule ht_set_inv(2) [OF h un])
  have hi: "ht_inv tab" unfolding tab_def by (rule ht_set_inv(1) [OF h un])
  have na: "h_nodes tab b = (if b = ?a then Some blank_node else node_at s b)" for b by (simp add: tab_def)
  have other: "b \<noteq> ?a" if "node_for s k = Some b" for k b using node_for_node(2) [OF i that] free by auto
  have new: "t_new (c_thr s t') \<noteq> Some ?a" for t' using cache_invD(5) [OF i, of t'] free by (auto simp: new_ok_def)
  have "cache_inv (s\<lparr> c_tab := tab, c_next := ?a + 1, c_thr := (c_thr s)(t := ?x) \<rparr>)"
  proof (rule cache_invI, goal_cases)
    case 1
    show ?case using cache_invD(1) [OF i] pc by (auto simp: lock_ok_def holds_lock_def)
  next
    case 2
    show ?case using cache_invD(2) [OF i] hi by (auto simp: mem_ok_def na)
  next
    case 3
    show ?case using cache_invD(11) [OF i] new by (simp add: new_inj_def) metis
  next
    case (4 k b)
    then show ?case
      using cache_invD(4) [OF i, of k b] ex_thr_upd [of works_on ?x "c_thr s" t] pc other [of k b]
      by (auto simp: node_ok_def nf na)
  next
    case (5 t')
    show ?case using cache_invD(5) [OF i, of t'] un new [of t']
      by (cases "t' = t") (auto simp: new_ok_def na tab_def)
  next
    case (6 t')
    show ?case using cache_invD(6) [OF i, of t'] pc free by (cases "t' = t") (auto simp: work_ok_def nf na)
  next
    case (7 t')
    show ?case using cache_invD(7) [OF i, of t'] free by (auto simp: sleep_ok_def nf na)
  next
    case (8 t')
    show ?case using cache_invD(8) [OF i, of t'] free by (auto simp: vid_ok_def nf na)
  next
    case (9 t')
    show ?case using cache_invD(9) [OF i, of t'] free pc by (cases "t' = t") (auto simp: result_ok_def nf na)
  next
    case (10 v)
    show ?case
      by (rule vnode_ok_frame [OF cache_invD(10) [OF i, of v]])
         (use pc free na in \<open>auto simp: nf attached_def\<close>)
  qed
  then show ?thesis using True by (simp add: find_alloc_def thr_defs tab_def)
qed

lemma inv_getvid:
  assumes i: "cache_inv s" and pc: "t_pc (c_thr s t) = GetVid a v" and ok: "ok \<longrightarrow> c_vst s v = V_live"
  shows "cache_inv (find_getvid ok t a v s)"
proof (cases ok)
  case False
  have "cache_inv ((set_thr t ((c_thr s t)\<lparr> t_pc := WantTop, t_new := None \<rparr>) s)\<lparr> c_lock := c_lock s \<rparr>)"
    by (rule inv_set_thr [OF i]) (simp_all add: pc holds_lock_def)
  then show ?thesis using False by (simp add: find_getvid_def thr_defs)
next
  case True
  let ?x = "(c_thr s t)\<lparr> t_pc := Finish (Inr (a, v)) \<rparr>"
  have live: "c_vst s v = V_live" using ok True by simp
  have at: "node_for s (t_key (c_thr s t)) = Some a" "attached s a v"
    using cache_invD(8) [OF i, of t] pc live by (auto simp: vid_ok_def vn_used_def attached_def)
  have fresh: "t \<notin> set (c_io s v)" using cache_invD(10) [OF i, of v] pc by (auto simp: vnode_ok_def)
  have un: "\<not> hashed (c_tab s) b" if "t_new (c_thr s t) = Some b" for b
    using cache_invD(5) [OF i, of t] pc that by (auto simp: new_ok_def)
  have "cache_inv (s\<lparr> c_io := (c_io s)(v := t # c_io s v), c_thr := (c_thr s)(t := ?x) \<rparr>)"
  proof (rule cache_invI, goal_cases)
    case 1
    show ?case using cache_invD(1) [OF i] pc by (auto simp: lock_ok_def holds_lock_def)
  next
    case 2
    show ?case using cache_invD(2) [OF i] by (auto simp: mem_ok_def)
  next
    case 3
    show ?case by (rule new_inj_upd [OF cache_invD(11) [OF i]]) auto
  next
    case (4 k b)
    then show ?case
      using cache_invD(4) [OF i, of k b] ex_thr_upd [of works_on ?x "c_thr s" t] pc by (auto simp: node_ok_def)
  next
    case (5 t')
    show ?case using cache_invD(5) [OF i, of t'] un by (cases "t' = t") (auto simp: new_ok_def)
  next
    case (6 t')
    show ?case using cache_invD(6) [OF i, of t'] pc by (cases "t' = t") (auto simp: work_ok_def)
  next
    case (7 t')
    show ?case using cache_invD(7) [OF i, of t'] by (auto simp: sleep_ok_def)
  next
    case (8 t')
    show ?case using cache_invD(8) [OF i, of t'] by (auto simp: vid_ok_def)
  next
    case (9 t')
    show ?case using cache_invD(9) [OF i, of t'] at live
      by (cases "t' = t") (auto simp: result_ok_def attached_def)
  next
    case (10 w)
    show ?case
    proof (cases "w = v")
      case False
      show ?thesis by (rule vnode_ok_frame [OF cache_invD(10) [OF i, of w]])
          (use pc False in \<open>auto simp: attached_def\<close>)
    next
      case True
      have "c_vnode s v = a" using cache_invD(4) [OF i at(1)] at(2) by (auto simp: node_ok_def attached_def)
      then show ?thesis
        by (intro vnode_okI [where key = "t_key (c_thr s t)"])
           (use True cache_invD(10) [OF i, of v] at fresh live pc in \<open>auto simp: vnode_ok_def attached_def\<close>)
    qed
  qed
  then show ?thesis using True by (simp add: find_getvid_def thr_defs)
qed

lemma inv_created:
  assumes i: "cache_inv s" and pc: "t_pc (c_thr s t) = Creating a"
    and r: "case r of Inl e \<Rightarrow> True | Inr v \<Rightarrow> c_vst s v = V_none"
  shows "cache_inv (find_created r t a s)"
proof (cases r)
  case (Inl e)
  have "cache_inv ((set_thr t ((c_thr s t)\<lparr> t_pc := WantAttach a (Inl e) \<rparr>) s)\<lparr> c_lock := c_lock s \<rparr>)"
    by (rule inv_set_thr [OF i]) (simp_all add: pc holds_lock_def)
  then show ?thesis using Inl by (simp add: find_created_def thr_defs)
next
  case (Inr v)
  let ?x = "(c_thr s t)\<lparr> t_pc := WantAttach a (Inr v) \<rparr>"
  have none: "c_vst s v = V_none" using r Inr by simp
  then have unused: "\<not> vn_used (c_vst s v)" by (simp add: vn_used_def)
  have "cache_inv (s\<lparr> c_vst := (c_vst s)(v := V_live), c_vnode := (c_vnode s)(v := a),
      c_io := (c_io s)(v := [t]), c_thr := (c_thr s)(t := ?x) \<rparr>)"
  proof (rule cache_invI, goal_cases)
    case 1
    show ?case using cache_invD(1) [OF i] pc by (auto simp: lock_ok_def holds_lock_def)
  next
    case 2
    show ?case using cache_invD(2) [OF i] by (auto simp: mem_ok_def)
  next
    case 3
    show ?case by (rule new_inj_upd [OF cache_invD(11) [OF i]]) auto
  next
    case (4 k b)
    then show ?case
      using cache_invD(4) [OF i, of k b] ex_thr_upd [of works_on ?x "c_thr s" t] pc unused
      by (auto simp: node_ok_def)
  next
    case (5 t')
    show ?case using cache_invD(5) [OF i, of t'] pc by (auto simp: new_ok_def)
  next
    case (6 t')
    show ?case using cache_invD(6) [OF i, of t'] pc none by (cases "t' = t") (auto simp: work_ok_def)
  next
    case (7 t')
    show ?case using cache_invD(7) [OF i, of t'] by (auto simp: sleep_ok_def)
  next
    case (8 t')
    show ?case using cache_invD(8) [OF i, of t'] none by (auto simp: vid_ok_def)
  next
    case (9 t')
    show ?case using cache_invD(9) [OF i, of t'] none by (cases "t' = t") (auto simp: result_ok_def)
  next
    case (10 w)
    show ?case
    proof (cases "w = v")
      case False
      show ?thesis by (rule vnode_ok_frame [OF cache_invD(10) [OF i, of w]])
          (use pc False in \<open>auto simp: attached_def\<close>)
    next
      case True
      then show ?thesis by (intro vnode_okI [where t = t]) auto
    qed
  qed
  then show ?thesis using Inr by (simp add: find_created_def thr_defs)
qed

text \<open>After the wakeup of an attach no thread sleeps on the node.\<close>

lemma wakeup_simps [simp]:
  "t_key (wakeup a thr t) = t_key (thr t)" "t_new (wakeup a thr t) = t_new (thr t)"
  "works_on (t_pc (wakeup a thr t)) = works_on (t_pc (thr t))"
  "brings (t_pc (wakeup a thr t)) = brings (t_pc (thr t))"
  "result_of (t_pc (wakeup a thr t)) = result_of (t_pc (thr t))"
  "holds_lock (t_pc (wakeup a thr t)) = holds_lock (t_pc (thr t))"
  "(t_pc (wakeup a thr t) = Sleeping b) = (t_pc (thr t) = Sleeping b \<and> b \<noteq> a)"
  "(t_pc (wakeup a thr t) = GetVid b v) = (t_pc (thr t) = GetVid b v)"
  "(t_pc (wakeup a thr t) = Finish r) = (t_pc (thr t) = Finish r)"
  "(t_pc (wakeup a thr t) = Returned q) = (t_pc (thr t) = Returned q)"
  by (auto simp: wakeup_def holds_lock_def)

lemma attach_thr:
  assumes i: "cache_inv s" and n: "node_at s a = Some n"
  shows "(if node_thread_waiting_attach n then s\<lparr> c_thr := wakeup a (c_thr s) \<rparr> else s) =
    s\<lparr> c_thr := wakeup a (c_thr s) \<rparr>"
proof (cases "node_thread_waiting_attach n")
  case False
  then have "t_pc (c_thr s t) \<noteq> Sleeping a" for t using cache_invD(7) [OF i, of t] n by (auto simp: sleep_ok_def)
  then have "wakeup a (c_thr s) = c_thr s" by (auto simp: wakeup_def)
  then show ?thesis by simp
qed simp

lemma inv_attach_ok:
  assumes i: "cache_inv s" and pc: "t_pc (c_thr s t) = Attach a (Inr v)"
    and tab: "tab = ht_update a (\<lambda>n. n\<lparr> node_vnode := Some v \<rparr>)
      (ht_update a (\<lambda>n. n\<lparr> node_attaching_vnode := False, node_thread_waiting_attach := False \<rparr>) (c_tab s))"
  shows "cache_inv (s\<lparr> c_tab := tab,
    c_thr := (wakeup a (c_thr s))(t := (wakeup a (c_thr s) t)\<lparr> t_pc := Finish (Inr (a, v)) \<rparr>), c_lock := None \<rparr>)"
proof -
  let ?f = "\<lambda>n. n\<lparr> node_attaching_vnode := False, node_thread_waiting_attach := False \<rparr>"
  let ?x = "(wakeup a (c_thr s) t)\<lparr> t_pc := Finish (Inr (a, v)) \<rparr>"
  note h = cache_invD(3) [OF i]
  have h1: "ht_inv (ht_update a ?f (c_tab s))" "ht_lookup k (ht_update a ?f (c_tab s)) = node_for s k" for k
    by (rule ht_frame_inv [OF h]; simp add: node_key_def)+
  have nf: "ht_lookup k tab = node_for s k" and hi: "ht_inv tab" for k
    using ht_frame_inv [OF h1(1), of a "\<lambda>n. n\<lparr> node_vnode := Some v \<rparr>"] h1(2)
    unfolding tab by (simp_all add: node_key_def)
  have hs: "hashed tab b = hashed (c_tab s) b" for b by (simp add: tab)
  have w: "node_for s (t_key (c_thr s t)) = Some a" "t_new (c_thr s t) = Some a" "c_vst s v = V_live"
    "c_vnode s v = a" "t \<in> set (c_io s v)"
    using cache_invD(6) [OF i, of t] pc by (auto simp: work_ok_def)
  obtain n where n: "node_at s a = Some n" "node_attaching_vnode n" "node_vnode n = None"
    using cache_invD(6) [OF i, of t] pc by (auto simp: work_ok_def)
  have na: "h_nodes tab b = (if b = a then Some ((?f n)\<lparr> node_vnode := Some v \<rparr>) else node_at s b)" for b
    using n by (simp add: tab)
  have lk: "c_lock s = Some t" using cache_invD(1) [OF i] pc by (simp add: lock_ok_def holds_lock_def)
  have sole: "works_on (t_pc (c_thr s t')) \<noteq> Some a" if "t' \<noteq> t" for t'
    using cache_invD(6) [OF i, of t'] cache_invD(11) [OF i] w(2) that by (auto simp: work_ok_def new_inj_def)
  show ?thesis
  proof (rule cache_invI, goal_cases)
    case 1
    show ?case using cache_invD(1) [OF i] lk by (auto simp: lock_ok_def holds_lock_def [of "Finish _"])
  next
    case 2
    show ?case using cache_invD(2) [OF i] hi n by (auto simp: mem_ok_def na)
  next
    case 3
    show ?case using cache_invD(11) [OF i] unfolding new_inj_def by (simp add: fun_upd_def) blast
  next
    case (4 k b)
    show ?case
    proof (cases "b = a")
      case True
      then show ?thesis using w by (simp add: node_ok_def na vn_used_def)
    next
      case False
      then show ?thesis
        using 4 cache_invD(4) [OF i, of k b] pc
          ex_thr_upd_other [of works_on ?x "Some b" "wakeup a (c_thr s)" t] by (auto simp: node_ok_def na nf)
    qed
  next
    case (5 t')
    show ?case using cache_invD(5) [OF i, of t'] n w by (cases "t' = t") (auto simp: new_ok_def na hs)
  next
    case (6 t')
    show ?case using cache_invD(6) [OF i, of t'] sole by (cases "t' = t") (auto simp: work_ok_def na nf)
  next
    case (7 t')
    show ?case using cache_invD(7) [OF i, of t'] by (cases "t' = t") (auto simp: sleep_ok_def na nf)
  next
    case (8 t')
    show ?case using cache_invD(8) [OF i, of t'] n by (cases "t' = t") (auto simp: vid_ok_def na nf)
  next
    case (9 t')
    show ?case using cache_invD(9) [OF i, of t'] n w by (cases "t' = t") (auto simp: result_ok_def na nf)
  next
    case (10 u)
    show ?case
    proof (cases "u = v")
      case True
      show ?thesis unfolding True
        by (intro vnode_okI [where key = "t_key (c_thr s t)"])
           (use cache_invD(10) [OF i, of v] w n in \<open>auto simp: vnode_ok_def attached_def na nf\<close>)
    next
      case False
      show ?thesis by (rule vnode_ok_frame [OF cache_invD(10) [OF i, of u]])
          (use pc False n in \<open>auto simp: attached_def na nf\<close>)
    qed
  qed
qed
lemma inv_attach_fail:
  assumes i: "cache_inv s" and pc: "t_pc (c_thr s t) = Attach a (Inl e)"
    and tab: "tab = procfsnode_free_node a
      (ht_update a (\<lambda>n. n\<lparr> node_attaching_vnode := False, node_thread_waiting_attach := False \<rparr>) (c_tab s))"
  shows "cache_inv (s\<lparr> c_tab := tab, c_thr := (wakeup a (c_thr s))
    (t := (wakeup a (c_thr s) t)\<lparr> t_pc := Finish (Inl e), t_new := None \<rparr>), c_lock := None \<rparr>)"
proof -
  let ?f = "\<lambda>n. n\<lparr> node_attaching_vnode := False, node_thread_waiting_attach := False \<rparr>"
  let ?x = "(wakeup a (c_thr s) t)\<lparr> t_pc := Finish (Inl e), t_new := None \<rparr>"
  note h = cache_invD(3) [OF i]
  have h1: "ht_inv (ht_update a ?f (c_tab s))" "ht_lookup k (ht_update a ?f (c_tab s)) = node_for s k" for k
    by (rule ht_frame_inv [OF h]; simp add: node_key_def)+
  have w: "node_for s (t_key (c_thr s t)) = Some a" "t_new (c_thr s t) = Some a"
    using cache_invD(6) [OF i, of t] pc by (auto simp: work_ok_def)
  obtain n where n: "node_at s a = Some n" "node_attaching_vnode n" "node_vnode n = None"
    using cache_invD(6) [OF i, of t] pc by (auto simp: work_ok_def)
  have ha: "hashed (ht_update a ?f (c_tab s)) a" using node_for_node(1) [OF i w(1)] by simp
  have nf: "ht_lookup k tab = (if k = t_key (c_thr s t) then None else node_for s k)" for k
    unfolding tab using ht_free_lookup [OF h1(1), of "t_key (c_thr s t)" a k] h1(2) w(1) by simp
  have hi: "ht_inv tab" unfolding tab by (rule ht_free_inv [OF h1(1) ha])
  have hs: "hashed tab b \<longleftrightarrow> b \<noteq> a \<and> hashed (c_tab s) b" for b
    unfolding tab using hashed_free [OF h1(1) ha] by simp
  have na: "h_nodes tab b = (if b = a then None else node_at s b)" for b by (simp add: tab)
  have key: "b \<noteq> a \<longleftrightarrow> k \<noteq> t_key (c_thr s t)" if "node_for s k = Some b" for k b
    using node_for_inj [OF i w(1), of k] that w(1) by auto
  have lk: "c_lock s = Some t" using cache_invD(1) [OF i] pc by (simp add: lock_ok_def holds_lock_def)
  have sole: "t_new (c_thr s t') \<noteq> Some a" if "t' \<noteq> t" for t'
    using cache_invD(11) [OF i] w(2) that by (auto simp: new_inj_def)
  show ?thesis
  proof (rule cache_invI, goal_cases)
    case 1
    show ?case using cache_invD(1) [OF i] lk by (auto simp: lock_ok_def holds_lock_def [of "Finish _"])
  next
    case 2
    show ?case using cache_invD(2) [OF i] hi by (auto simp: mem_ok_def na)
  next
    case 3
    show ?case using cache_invD(11) [OF i] unfolding new_inj_def by (simp add: fun_upd_def)
  next
    case (4 k b)
    then have k: "node_for s k = Some b" "k \<noteq> t_key (c_thr s t)" by (auto simp: nf split: if_splits)
    then show ?case
      using cache_invD(4) [OF i, of k b] key [OF k(1)] pc
        ex_thr_upd_other [of works_on ?x "Some b" "wakeup a (c_thr s)" t] by (auto simp: node_ok_def na)
  next
    case (5 t')
    show ?case using cache_invD(5) [OF i, of t'] sole by (cases "t' = t") (auto simp: new_ok_def na hs)
  next
    case (6 t')
    have "b \<noteq> a \<and> t_key (c_thr s t') \<noteq> t_key (c_thr s t)"
      if "t' \<noteq> t" "works_on (t_pc (c_thr s t')) = Some b" for b
      using cache_invD(6) [OF i, of t'] sole [of t'] key [of "t_key (c_thr s t')"] that
      by (auto simp: work_ok_def)
    then show ?case using cache_invD(6) [OF i, of t']
      by (cases "t' = t") (auto simp: work_ok_def na nf)
  next
    case (7 t')
    show ?case using cache_invD(7) [OF i, of t'] key [of "t_key (c_thr s t')"]
      by (cases "t' = t") (auto simp: sleep_ok_def na nf)
  next
    case (8 t')
    show ?case using cache_invD(8) [OF i, of t'] n key [of "t_key (c_thr s t')"]
      by (cases "t' = t") (auto simp: vid_ok_def na nf)
  next
    case (9 t')
    show ?case using cache_invD(9) [OF i, of t'] n key [of "t_key (c_thr s t')"]
      by (cases "t' = t") (auto simp: result_ok_def na nf)
  next
    case (10 u)
    have new: "ht_lookup k tab = Some (c_vnode s u) \<and> c_vnode s u \<noteq> a"
      if "node_for s k = Some (c_vnode s u)" "attached s (c_vnode s u) u" for k
      using that n key [OF that(1)] by (auto simp: attached_def nf)
    show ?case
      by (rule vnode_ok_frame [OF cache_invD(10) [OF i, of u]])
         (use pc in \<open>auto simp: attached_def na dest!: new [unfolded attached_def]\<close>)
  qed
qed

lemma inv_attach:
  assumes i: "cache_inv s" and pc: "t_pc (c_thr s t) = Attach a r"
  shows "cache_inv (find_attach t a r s)"
proof -
  obtain n where n: "node_at s a = Some n" using cache_invD(6) [OF i, of t] pc by (auto simp: work_ok_def)
  show ?thesis
  proof (cases r)
    case (Inl e)
    show ?thesis using inv_attach_fail [OF i pc [unfolded Inl] refl] n Inl attach_thr [OF i n]
      by (simp add: find_attach_def thr_defs)
  next
    case (Inr v)
    show ?thesis using inv_attach_ok [OF i pc [unfolded Inr] refl] n Inr attach_thr [OF i n]
      by (simp add: find_attach_def thr_defs)
  qed
qed


lemma inv_free_unused:
  assumes i: "cache_inv s" and un: "\<not> hashed (c_tab s) b" and new: "\<And>t. t_new (c_thr s t) \<noteq> Some b"
  shows "cache_inv (s\<lparr> c_tab := ht_set b None (c_tab s) \<rparr>)"
proof -
  note h = cache_invD(3) [OF i]
  have nf: "ht_lookup k (ht_set b None (c_tab s)) = node_for s k" for k by (rule ht_set_inv(2) [OF h un])
  have hi: "ht_inv (ht_set b None (c_tab s))" by (rule ht_set_inv(1) [OF h un])
  have other: "a \<noteq> b" if "node_for s k = Some a" for k a using node_for_node(1) [OF i that] un by auto
  show ?thesis
  proof (rule cache_invI, goal_cases)
    case 1
    show ?case using cache_invD(1) [OF i] by (simp add: lock_ok_def)
  next
    case 2
    show ?case using cache_invD(2) [OF i] hi by (auto simp: mem_ok_def)
  next
    case 3
    show ?case using cache_invD(11) [OF i] by (simp add: new_inj_def)
  next
    case (4 k a)
    then show ?case using cache_invD(4) [OF i, of k a] other [of k a] by (simp add: node_ok_def nf)
  next
    case (5 t)
    show ?case using cache_invD(5) [OF i, of t] new [of t] by (auto simp: new_ok_def)
  next
    case (6 t)
    show ?case using cache_invD(6) [OF i, of t] other [of "t_key (c_thr s t)"] by (auto simp: work_ok_def nf)
  next
    case (7 t)
    show ?case using cache_invD(7) [OF i, of t] other [of "t_key (c_thr s t)"] by (auto simp: sleep_ok_def nf)
  next
    case (8 t)
    show ?case using cache_invD(8) [OF i, of t] other [of "t_key (c_thr s t)"] by (auto simp: vid_ok_def nf)
  next
    case (9 t)
    show ?case using cache_invD(9) [OF i, of t] other [of "t_key (c_thr s t)"] by (auto simp: result_ok_def nf)
  next
    case (10 v)
    show ?case by (rule vnode_ok_frame [OF cache_invD(10) [OF i, of v]])
        (use other in \<open>auto simp: attached_def nf\<close>)
  qed
qed

lemma inv_finish:
  assumes i: "cache_inv s" and pc: "t_pc (c_thr s t) = Finish r"
  shows "cache_inv (find_finish t r s)"
proof -
  let ?x = "(c_thr s t)\<lparr> t_pc := Returned r, t_new := None \<rparr>"
  let ?s = "(set_thr t ?x s)\<lparr> c_lock := c_lock s \<rparr>"
  have res: "result_of (Returned r) = result_of (Finish r)" by (cases r) simp_all
  have ret: "cache_inv ?s"
    by (rule inv_set_thr [OF i]) (simp_all add: pc holds_lock_def res)
  show ?thesis
  proof (cases "\<exists>b. t_new (c_thr s t) = Some b \<and> Some b \<noteq> (case r of Inl e \<Rightarrow> None | Inr (a, v) \<Rightarrow> Some a)")
    case True
    then obtain b where b: "t_new (c_thr s t) = Some b" "Some b \<noteq> (case r of Inl e \<Rightarrow> None | Inr (a, v) \<Rightarrow> Some a)"
      by blast
    have "\<not> hashed (c_tab s) b"
      using cache_invD(5) [OF i, of t] b pc by (auto simp: new_ok_def)
    moreover have "t_new (c_thr ?s t') \<noteq> Some b" for t'
      using cache_invD(11) [OF i] b by (auto simp: new_inj_def thr_defs)
    ultimately have "cache_inv (?s\<lparr> c_tab := ht_set b None (c_tab ?s) \<rparr>)"
      by (intro inv_free_unused [OF ret]) (auto simp: thr_defs)
    moreover have "find_finish t r s = ?s\<lparr> c_tab := ht_set b None (c_tab ?s) \<rparr>"
      using b by (cases s) (simp add: find_finish_def thr_defs)
    ultimately show ?thesis by simp
  next
    case False
    then have "find_finish t r s = ?s"
      by (cases r; cases "t_new (c_thr s t)")
         (auto simp: find_finish_def thr_defs Let_def split: prod.splits)
    then show ?thesis using ret by simp
  qed
qed

lemma inv_put:
  assumes i: "cache_inv s" and pc: "t_pc (c_thr s t) = Returned r"
  shows "cache_inv (find_put t r s)"
proof (cases r)
  case (Inl e)
  have "cache_inv ((set_thr t ((c_thr s t)\<lparr> t_pc := Idle \<rparr>) s)\<lparr> c_lock := c_lock s \<rparr>)"
    by (rule inv_set_thr [OF i]) (simp_all add: pc holds_lock_def Inl)
  then show ?thesis using Inl by (simp add: find_put_def thr_defs)
next
  case (Inr p)
  obtain a v where p: "p = (a, v)" by (cases p)
  let ?x = "(c_thr s t)\<lparr> t_pc := Idle \<rparr>"
  have pc': "t_pc (c_thr s t) = Returned (Inr (a, v))" using pc Inr p by simp
  have d: "distinct (c_io s v)" using cache_invD(10) [OF i, of v] by (auto simp: vnode_ok_def)
  have at: "c_vst s v = V_live" "node_for s (t_key (c_thr s t)) = Some a" "attached s a v"
    using cache_invD(9) [OF i, of t] pc' by (auto simp: result_ok_def attached_def)
  have "cache_inv (s\<lparr> c_io := (c_io s)(v := remove1 t (c_io s v)), c_thr := (c_thr s)(t := ?x) \<rparr>)"
  proof (rule cache_invI, goal_cases)
    case 1
    show ?case using cache_invD(1) [OF i] pc by (auto simp: lock_ok_def holds_lock_def)
  next
    case 2
    show ?case using cache_invD(2) [OF i] by (auto simp: mem_ok_def)
  next
    case 3
    show ?case by (rule new_inj_upd [OF cache_invD(11) [OF i]]) auto
  next
    case (4 k b)
    then show ?case
      using cache_invD(4) [OF i, of k b] ex_thr_upd [of works_on ?x "c_thr s" t] pc by (auto simp: node_ok_def)
  next
    case (5 t')
    show ?case using cache_invD(5) [OF i, of t'] pc by (auto simp: new_ok_def)
  next
    case (6 t')
    show ?case using cache_invD(6) [OF i, of t'] pc by (cases "t' = t") (auto simp: work_ok_def)
  next
    case (7 t')
    show ?case using cache_invD(7) [OF i, of t'] by (auto simp: sleep_ok_def)
  next
    case (8 t')
    show ?case using cache_invD(8) [OF i, of t'] by (auto simp: vid_ok_def)
  next
    case (9 t')
    show ?case using cache_invD(9) [OF i, of t'] by (cases "t' = t") (auto simp: result_ok_def)
  next
    case (10 w)
    show ?case
    proof (cases "w = v")
      case False
      show ?thesis by (rule vnode_ok_frame [OF cache_invD(10) [OF i, of w]])
          (use pc' False in \<open>auto simp: attached_def\<close>)
    next
      case True
      have "c_vnode s v = a" using cache_invD(4) [OF i at(2)] at(3) by (auto simp: node_ok_def attached_def)
      then show ?thesis
        by (intro vnode_okI [where key = "t_key (c_thr s t)"])
           (use True cache_invD(10) [OF i, of v] at d in \<open>auto simp: vnode_ok_def attached_def\<close>)
    qed
  qed
  then show ?thesis using Inr p by (simp add: find_put_def thr_defs)
qed

lemma inv_condemn:
  assumes i: "cache_inv s" and v: "c_vst s v = V_live" "c_io s v = []"
  shows "cache_inv (vnode_condemn v s)"
proof (rule cache_invI, goal_cases)
  case 1
  show ?case using cache_invD(1) [OF i] by (simp add: lock_ok_def vnode_condemn_def)
next
  case 2
  show ?case using cache_invD(2) [OF i] by (simp add: mem_ok_def vnode_condemn_def)
next
  case 3
  show ?case using cache_invD(11) [OF i] by (simp add: new_inj_def vnode_condemn_def)
next
  case (4 k a)
  then show ?case using cache_invD(4) [OF i, of k a] by (auto simp: node_ok_def vnode_condemn_def vn_used_def)
next
  case (5 t)
  show ?case using cache_invD(5) [OF i, of t] by (simp add: new_ok_def vnode_condemn_def)
next
  case (6 t)
  show ?case using cache_invD(6) [OF i, of t] v by (auto simp: work_ok_def vnode_condemn_def)
next
  case (7 t)
  show ?case using cache_invD(7) [OF i, of t] by (simp add: sleep_ok_def vnode_condemn_def)
next
  case (8 t)
  show ?case using cache_invD(8) [OF i, of t] v by (auto simp: vid_ok_def vnode_condemn_def vn_used_def)
next
  case (9 t)
  show ?case using cache_invD(9) [OF i, of t] v by (auto simp: result_ok_def vnode_condemn_def)
next
  case (10 w)
  show ?case using cache_invD(10) [OF i, of w] v by (auto simp: vnode_ok_def vnode_condemn_def vn_used_def)
qed

lemma inv_reclaim:
  assumes i: "cache_inv s" and v: "c_vst s v = V_dying"
  shows "cache_inv (procfs_vnop_reclaim v s)"
proof -
  define a where "a = c_vnode s v"
  define tab where "tab = procfsnode_free_node a (c_tab s)"
  note h = cache_invD(3) [OF i]
  have "brings (t_pc (c_thr s t)) \<noteq> Some v" for t using cache_invD(6) [OF i, of t] v by (auto simp: work_ok_def)
  then obtain key n where k: "node_for s key = Some a" and n: "node_at s a = Some n"
    "\<not> node_attaching_vnode n" "node_vnode n = Some v"
    using cache_invD(10) [OF i, of v] v unfolding vnode_ok_def vn_used_def a_def by blast
  have ha: "hashed (c_tab s) a" by (rule node_for_node(1) [OF i k])
  have nf: "ht_lookup k' tab = (if k' = key then None else node_for s k')" for k'
    unfolding tab_def by (rule ht_free_lookup [OF h k])
  have hi: "ht_inv tab" unfolding tab_def by (rule ht_free_inv [OF h ha])
  have hs: "hashed tab b \<longleftrightarrow> b \<noteq> a \<and> hashed (c_tab s) b" for b
    unfolding tab_def using hashed_free [OF h ha] by simp
  have na: "h_nodes tab b = (if b = a then None else node_at s b)" for b by (simp add: tab_def)
  have inj: "b \<noteq> a \<longleftrightarrow> k' \<noteq> key" if "node_for s k' = Some b" for k' b
    using node_for_inj [OF i k, of k'] that k by auto
  have io: "t \<notin> set (c_io s v)" for t
    using cache_invD(10) [OF i, of v] cache_invD(6) [OF i, of t] cache_invD(9) [OF i, of t] v
    by (auto simp: vnode_ok_def work_ok_def result_ok_def)
  have quiet: "works_on (t_pc (c_thr s t)) \<noteq> Some a" "result_of (t_pc (c_thr s t)) \<noteq> Some (a, u)"
    "t_pc (c_thr s t) \<noteq> Sleeping a" for t u
    using cache_invD(6) [OF i, of t] cache_invD(7) [OF i, of t] cache_invD(9) [OF i, of t] n v
    by (auto simp: work_ok_def sleep_ok_def result_ok_def)
  have new: "t_new (c_thr s t) \<noteq> Some a" for t
    using cache_invD(5) [OF i, of t] quiet [of t] ha by (force simp: new_ok_def)
  have "cache_inv (s\<lparr> c_tab := tab, c_vst := (c_vst s)(v := V_dead) \<rparr>)"
  proof (rule cache_invI, goal_cases)
    case 1
    show ?case using cache_invD(1) [OF i] by (simp add: lock_ok_def)
  next
    case 2
    show ?case using cache_invD(2) [OF i] hi by (auto simp: mem_ok_def na)
  next
    case 3
    show ?case using cache_invD(11) [OF i] by (simp add: new_inj_def)
  next
    case (4 k' b)
    then have "node_for s k' = Some b" "k' \<noteq> key" by (auto simp: nf split: if_splits)
    then show ?case using cache_invD(4) [OF i, of k' b] inj [of k' b] by (auto simp: node_ok_def na a_def)
  next
    case (5 t)
    show ?case using cache_invD(5) [OF i, of t] new [of t] by (auto simp: new_ok_def na hs)
  next
    case (6 t)
    have "b \<noteq> a \<and> t_key (c_thr s t) \<noteq> key" if "works_on (t_pc (c_thr s t)) = Some b" for b
      using cache_invD(6) [OF i, of t] quiet(1) [of t] inj [of "t_key (c_thr s t)"] that
      by (auto simp: work_ok_def)
    then show ?case using cache_invD(6) [OF i, of t] v by (auto simp: work_ok_def na nf)
  next
    case (7 t)
    show ?case using cache_invD(7) [OF i, of t] quiet [of t] inj [of "t_key (c_thr s t)"]
      by (auto simp: sleep_ok_def na nf)
  next
    case (8 t)
    show ?case using cache_invD(8) [OF i, of t] n inj [of "t_key (c_thr s t)"]
      by (auto simp: vid_ok_def na nf vn_used_def)
  next
    case (9 t)
    have "b \<noteq> a \<and> t_key (c_thr s t) \<noteq> key" if "result_of (t_pc (c_thr s t)) = Some (b, u)" for b u
      using cache_invD(9) [OF i, of t] quiet(2) [of t] inj [of "t_key (c_thr s t)"] that
      by (auto simp: result_ok_def)
    then show ?case using cache_invD(9) [OF i, of t] v by (auto simp: result_ok_def na nf)
  next
    case (10 u)
    show ?case
    proof (cases "u = v")
      case True
      then show ?thesis using cache_invD(10) [OF i, of v] io by (simp add: vnode_ok_def vn_used_def)
    next
      case False
      have keep: "ht_lookup k' tab = Some (c_vnode s u) \<and> c_vnode s u \<noteq> a"
        if "node_for s k' = Some (c_vnode s u)" "attached s (c_vnode s u) u" for k'
        using that n inj [OF that(1)] False by (auto simp: attached_def nf)
      show ?thesis
        by (rule vnode_ok_frame [OF cache_invD(10) [OF i, of u]])
           (use False in \<open>auto simp: attached_def na dest!: keep [unfolded attached_def]\<close>)
    qed
  qed
  then show ?thesis by (simp add: procfs_vnop_reclaim_def tab_def a_def)
qed

section \<open>All interleavings\<close>

lemma inv_lock:
  assumes i: "cache_inv s" and l: "c_lock s = None"
  shows "t_pc (c_thr s t) = WantTop \<Longrightarrow> cache_inv (set_pc t Top (s\<lparr> c_lock := Some t \<rparr>))"
    and "t_pc (c_thr s t) = WantAttach a r \<Longrightarrow> cache_inv (set_pc t (Attach a r) (s\<lparr> c_lock := Some t \<rparr>))"
proof -
  have e: "set_pc t pc (s\<lparr> c_lock := Some t \<rparr>) = (set_thr t ((c_thr s t)\<lparr> t_pc := pc \<rparr>) s)\<lparr> c_lock := Some t \<rparr>" for pc
    by (cases s) (simp add: thr_defs)
  show "cache_inv (set_pc t Top (s\<lparr> c_lock := Some t \<rparr>))" if "t_pc (c_thr s t) = WantTop"
    unfolding e by (rule inv_set_thr [OF i]) (simp_all add: that holds_lock_def l)
  have b: "brings (Attach a r) = brings (WantAttach a r)" by (cases r) simp_all
  show "cache_inv (set_pc t (Attach a r) (s\<lparr> c_lock := Some t \<rparr>))" if "t_pc (c_thr s t) = WantAttach a r"
    unfolding e by (rule inv_set_thr [OF i]) (simp_all add: that holds_lock_def l b)
qed

lemma inv_call:
  assumes i: "cache_inv s" and pc: "t_pc (c_thr s t) = Idle"
  shows "cache_inv (set_thr t \<lparr> t_pc = WantTop, t_key = key, t_snode = snode, t_new = None \<rparr> s)"
proof -
  have "cache_inv ((set_thr t \<lparr> t_pc = WantTop, t_key = key, t_snode = snode, t_new = None \<rparr> s)\<lparr> c_lock := c_lock s \<rparr>)"
    by (rule inv_set_thr [OF i]) (simp_all add: pc holds_lock_def)
  then show ?thesis by (simp add: thr_defs)
qed

lemma inv_event: "cache_inv s \<Longrightarrow> find_event e t s = Some s' \<Longrightarrow> cache_inv s'"
  by (cases e)
     (auto simp: inv_call inv_top inv_alloc inv_getvid inv_created inv_attach inv_finish inv_put inv_lock
       split: if_splits fpc.splits)

lemma inv_step: "cache_step s s' \<Longrightarrow> cache_inv s \<Longrightarrow> cache_inv s'"
  by (induction rule: cache_step.induct) (auto intro: inv_event inv_condemn inv_reclaim)

lemma reach_inv: "cache_reach s \<Longrightarrow> cache_inv s"
  by (induction rule: cache_reach.induct) (auto intro: cache_inv_init inv_step)

text \<open>A run of thread events from a state.\<close>

fun run_events :: "(nat \<times> event) list \<Rightarrow> cache \<Rightarrow> cache option" where
  "run_events [] s = Some s"
| "run_events ((t, e) # es) s = (case find_event e t s of None \<Rightarrow> None | Some s \<Rightarrow> run_events es s)"

lemma run_events_reach: "cache_reach s \<Longrightarrow> run_events es s = Some s' \<Longrightarrow> cache_reach s'"
  by (induction es s rule: run_events.induct) (auto split: option.splits intro: reach_step thread_step)

section \<open>Properties\<close>

text \<open>
  C1: in every interleaving, there is at most one node in the hash table for a
  mount id and node id.
\<close>

theorem procfsnode_unique:
  assumes "cache_reach s" "hashed (c_tab s) a" "hashed (c_tab s) b"
    and "h_nodes (c_tab s) a = Some n" "h_nodes (c_tab s) b = Some m"
    and "node_mnt_id n = node_mnt_id m" "node_id n = node_id m"
  shows "a = b"
  using ht_inv_unique [OF cache_invD(3) [OF reach_inv [OF assms(1)]] assms(2-5)] assms(6,7)
  by (simp add: node_key_def)

text \<open>
  C3: in every interleaving, a call that returns success returns the node in
  the hash table for the mount id and node id it was given, and its vnode, which
  is alive, attached to that node and held by the caller.
\<close>

theorem procfsnode_find_result:
  assumes "cache_reach s" "t_pc (c_thr s t) = Returned (Inr (a, v))"
  shows "ht_lookup (t_key (c_thr s t)) (c_tab s) = Some a \<and> c_vst s v = V_live \<and> t \<in> set (c_io s v) \<and>
    (\<exists>n. h_nodes (c_tab s) a = Some n \<and> node_vnode n = Some v \<and> node_key n = t_key (c_thr s t))"
  using cache_invD(9) [OF reach_inv [OF assms(1)], of t] node_for_node(2) [OF reach_inv [OF assms(1)]] assms(2)
  by (fastforce simp: result_ok_def)


lemma sleeper_has_worker:
  assumes "cache_inv s" "t_pc (c_thr s t) = Sleeping a"
  shows "\<exists>t'. works_on (t_pc (c_thr s t')) = Some a"
  using cache_invD(7) [OF assms(1), of t] assms(2) cache_invD(4) [OF assms(1)]
  by (fastforce simp: sleep_ok_def node_ok_def)

lemma runnable:
  assumes i: "cache_inv s" and l: "c_lock s = None \<or> c_lock s = Some t"
    and pc: "t_pc (c_thr s t) \<noteq> Idle" "\<And>a. t_pc (c_thr s t) \<noteq> Sleeping a"
  shows "\<exists>e s'. find_event e t s = Some s'"
proof (cases "t_pc (c_thr s t)")
  case WantTop
  then have "c_lock s = None" using l cache_invD(1) [OF i] by (auto simp: lock_ok_def holds_lock_def)
  then show ?thesis using WantTop by (intro exI [of _ Ev_lock]) simp
next
  case (WantAttach a r)
  then have "c_lock s = None" using l cache_invD(1) [OF i] by (auto simp: lock_ok_def holds_lock_def)
  then show ?thesis using WantAttach by (intro exI [of _ Ev_lock]) simp
next
  case Top
  then show ?thesis by (intro exI [of _ Ev_top]) simp
next
  case Alloc
  then show ?thesis by (intro exI [of _ "Ev_alloc True"]) simp
next
  case (GetVid a v)
  then show ?thesis by (intro exI [of _ "Ev_getvid False"]) simp
next
  case (Creating a)
  then show ?thesis by (intro exI [of _ "Ev_created (Inl ENOMEM)"]) simp
next
  case (Attach a r)
  then show ?thesis by (intro exI [of _ Ev_attach]) simp
next
  case (Finish r)
  then show ?thesis by (intro exI [of _ Ev_finish]) simp
next
  case (Returned r)
  then show ?thesis by (intro exI [of _ Ev_put]) simp
qed (use pc in auto)


section \<open>Concrete runs\<close>

definition ex_key :: nkey where "ex_key = (1, PROCFS_ROOT_NODE_ID)"

lemmas run_simps = thr_defs find_top_def find_use_def find_alloc_def find_getvid_def find_created_def
  find_attach_def find_finish_def find_put_def new_node_def blank_node_def wakeup_def ht_lookup_def
  ht_insert_def ht_update_def ht_set_def htab0_def node_matches_key node_key_def cache0_def idle_thread_def
  Let_def

text \<open>One thread creates the node: up to the callback, and to the end.\<close>

definition create_run :: "(nat \<times> event) list" where
  "create_run = [(0, Ev_call ex_key 0), (0, Ev_lock), (0, Ev_top), (0, Ev_alloc True), (0, Ev_lock), (0, Ev_top)]"

definition solo_run :: "(nat \<times> event) list" where
  "solo_run = [(0, Ev_call ex_key 0), (0, Ev_lock), (0, Ev_top), (0, Ev_alloc True), (0, Ev_lock), (0, Ev_top),
     (0, Ev_created (Inr 7)), (0, Ev_lock), (0, Ev_attach), (0, Ev_finish)]"

lemma create_run_ok: "\<exists>s. run_events create_run cache0 = Some s \<and> t_pc (c_thr s 0) = Creating 0"
  by (simp add: create_run_def run_simps)

lemma solo_run_ok:
  "\<exists>s n. run_events solo_run cache0 = Some s \<and> t_pc (c_thr s 0) = Returned (Inr (0, 7)) \<and>
     t_key (c_thr s 0) = ex_key \<and> h_nodes (c_tab s) 0 = Some n \<and> node_key n = ex_key"
  by (simp add: solo_run_def run_simps)

lemma solo_state:
  obtains s n where "cache_reach s" "t_pc (c_thr s 0) = Returned (Inr (0, 7))" "t_key (c_thr s 0) = ex_key"
    "h_nodes (c_tab s) 0 = Some n" "node_key n = ex_key" "hashed (c_tab s) 0"
proof -
  obtain s n where s: "run_events solo_run cache0 = Some s" "t_pc (c_thr s 0) = Returned (Inr (0, 7))"
    "t_key (c_thr s 0) = ex_key" "h_nodes (c_tab s) 0 = Some n" "node_key n = ex_key"
    using solo_run_ok by blast
  have r: "cache_reach s" by (rule run_events_reach [OF reach_init s(1)])
  then have "node_for s ex_key = Some 0"
    using cache_invD(9) [OF reach_inv [OF r], of 0] s by (auto simp: result_ok_def)
  then show ?thesis using that r s node_for_node(1) [OF reach_inv [OF r]] by blast
qed

theorem procfsnode_unique_witness:
  "\<exists>s. cache_reach s \<and> {a. hashed (c_tab s) a \<and> map_option node_key (h_nodes (c_tab s) a) = Some ex_key} = {0}"
proof -
  obtain s n where s: "cache_reach s" "h_nodes (c_tab s) 0 = Some n" "node_key n = ex_key" "hashed (c_tab s) 0"
    using solo_state by metis
  have "a = 0" if "hashed (c_tab s) a" "h_nodes (c_tab s) a = Some m" "node_key m = ex_key" for a m
    using procfsnode_unique [OF s(1) that(1) s(4) that(2) s(2)] that(3) s(3) by (simp add: node_key_def prod_eq_iff)
  then show ?thesis using s by (intro exI [of _ s]) auto
qed

theorem procfsnode_find_result_witness:
  "\<exists>s. cache_reach s \<and> ht_lookup ex_key (c_tab s) = Some 0 \<and> c_vst s 7 = V_live \<and> 0 \<in> set (c_io s 7)"
proof -
  obtain s n where s: "cache_reach s" "t_pc (c_thr s 0) = Returned (Inr (0, 7))" "t_key (c_thr s 0) = ex_key"
    using solo_state by metis
  then show ?thesis using procfsnode_find_result [OF s(1,2)] by (intro exI [of _ s]) simp
qed



text \<open>
  Thread 0 allocates a node, thread 1 creates the same node and returns it, thread
  0 then finds it; the vnode is condemned before thread 0 gets an iocount.
\<close>

definition leak_run :: "(nat \<times> event) list" where
  "leak_run = [(0, Ev_call ex_key 0), (0, Ev_lock), (0, Ev_top), (0, Ev_alloc True),
     (1, Ev_call ex_key 0), (1, Ev_lock), (1, Ev_top), (1, Ev_alloc True), (1, Ev_lock), (1, Ev_top),
     (1, Ev_created (Inr 7)), (1, Ev_lock), (1, Ev_attach), (1, Ev_finish), (1, Ev_put),
     (0, Ev_lock), (0, Ev_top)]"

lemma leak_run_ok:
  "\<exists>s. run_events leak_run cache0 = Some s \<and> t_pc (c_thr s 0) = GetVid 1 7 \<and> c_vst s 7 = V_live \<and>
     c_io s 7 = [] \<and> h_nodes (c_tab s) 0 \<noteq> None \<and> t_new (c_thr s 0) = Some 0"
  by (simp add: leak_run_def run_simps)

text \<open>
  When \<^verbatim>\<open>vnode_getwithvid\<close> fails, the local pointer to the node allocated by
  this call is cleared without freeing it: there is an interleaving after which
  an allocated node is in no bucket and known to no thread.
\<close>

lemma procfsnode_find_leaks:
  "\<exists>s a. cache_reach s \<and> h_nodes (c_tab s) a \<noteq> None \<and> \<not> hashed (c_tab s) a \<and>
     (\<forall>t. t_new (c_thr s t) \<noteq> Some a) \<and> (\<forall>t. works_on (t_pc (c_thr s t)) \<noteq> Some a)"
proof -
  obtain s where s: "run_events leak_run cache0 = Some s" "t_pc (c_thr s 0) = GetVid 1 7" "c_vst s 7 = V_live"
    "c_io s 7 = []" "h_nodes (c_tab s) 0 \<noteq> None" "t_new (c_thr s 0) = Some 0"
    using leak_run_ok by blast
  have r: "cache_reach s" by (rule run_events_reach [OF reach_init s(1)])
  have un: "\<not> hashed (c_tab s) 0" using cache_invD(5) [OF reach_inv [OF r], of 0] s by (auto simp: new_ok_def)
  define u where "u = vnode_condemn 7 s"
  define w where "w = find_getvid False 0 1 7 u"
  have ru: "cache_reach u" unfolding u_def by (rule reach_step [OF r condemn_step [OF s(3,4)]])
  have "find_event (Ev_getvid False) 0 u = Some w" using s by (simp add: u_def w_def vnode_condemn_def)
  then have rw: "cache_reach w" using reach_step [OF ru thread_step] by blast
  have tab: "c_tab w = c_tab s" by (simp add: w_def u_def find_getvid_def vnode_condemn_def thr_defs)
  have new: "t_new (c_thr w t) \<noteq> Some 0" for t
    using cache_invD(11) [OF reach_inv [OF r]] s(6)
    by (auto simp: w_def u_def find_getvid_def vnode_condemn_def thr_defs new_inj_def)
  have "works_on (t_pc (c_thr w t)) \<noteq> Some 0" for t
    using cache_invD(6) [OF reach_inv [OF rw], of t] new [of t] by (auto simp: work_ok_def)
  then show ?thesis using rw tab s(5) un new by (intro exI [of _ w] exI [of _ 0]) simp
qed

end
