(* ===== verification/Lookup.thy ===== *)
theory Lookup
imports Status Sysctl NodeFind
begin

text \<open>
  Vnode operations of \<^verbatim>\<open>kext/procfs_vnops.c\<close> other than directory listing and data
  reads: lookup, attributes, symbolic links and vnode creation. A lookup decides
  which node is meant; finding or making its vnode is \<open>procfsnode_find\<close>. Proved: a
  lookup gives back every reference; what each kind of name resolves to; a process
  is found by its id exactly when it exists and the caller may see it; and the
  attributes a node reports.
\<close>

section \<open>Context of an operation\<close>

text \<open>
  The kernel, the layout, the sysctl tree, the mount, the caller's credential and
  whether \<^verbatim>\<open>vfs_context_suser\<close> grants it.
\<close>

record vop =
  vo_k :: kenv
  vo_ss :: sstate
  vo_se :: sysctl_env
  vo_mnt :: pfsmount
  vo_cred :: cred
  vo_suser :: bool

definition check_access :: "vop \<Rightarrow> bool" where
  "check_access vo \<longleftrightarrow> \<not> vo_suser vo \<and> procfs_should_access_check (vo_mnt vo)"

definition procfs_vnop_open :: err where "procfs_vnop_open = None"
definition procfs_vnop_access :: err where "procfs_vnop_access = None"
definition procfs_vnop_close :: err where "procfs_vnop_close = None"
definition procfs_vnop_inactive :: err where "procfs_vnop_inactive = None"
definition procfs_vnop_default :: err where "procfs_vnop_default = None"
definition procfs_vnop_getattrlistbulk :: err where "procfs_vnop_getattrlistbulk = Some ENOTSUP"

definition PAD_SIZE :: nat where "PAD_SIZE = 8"
definition PID_SIZE :: nat where "PID_SIZE = 16"
definition PROCESS_NAME_SIZE :: nat where "PROCESS_NAME_SIZE = MAXCOMLEN + PID_SIZE + PAD_SIZE"
definition NAME_MAX :: nat where "NAME_MAX = 255"

definition procfs_construct_process_dir_name :: "kenv \<Rightarrow> proc \<Rightarrow> string" where
  "procfs_construct_process_dir_name k p =
     strlcpy PROCESS_NAME_SIZE (fmt_d (p_pid p) @ '' '') @ strlcpy (MAXCOMLEN + 1) (proc_name_k k (p_pid p))"

section \<open>Lookup\<close>

text \<open>
  What a directory's children say about a name: an error, no match, or the
  structure node and the node id. The second component is the process still held.
\<close>

datatype lmatch = M_error errno | M_none | M_node saddr pfsid

definition match_fd :: "vop \<Rightarrow> pfsnode \<Rightarrow> string \<Rightarrow> saddr \<Rightarrow> pfssnode \<Rightarrow> kst \<Rightarrow> (lmatch \<times> int option) \<times> kst" where
  "match_fd vo dir name a sn st =
     (let num = fst (procfs_atoi name); pid = nodeid_pid (node_id dir);
          hit = M_node a \<lparr> nodeid_pid = pid, nodeid_objectid = word_of_int num, nodeid_base_id = psn_base_node_id sn \<rparr>
      in if num \<noteq> - 1 then
           (case proc_find (vo_k vo) pid st of
              (None, st) \<Rightarrow> ((M_error ENOENT, None), st)
            | (Some p, st) \<Rightarrow>
                (case procfs_get_fd_list (vo_k vo) (Some p) st of
                   ((error, fdlist), st) \<Rightarrow>
                     (let valid = (error = None \<and> num \<in> fst ` set (fd_list_of fdlist));
                          st = procfs_release_fd_list fdlist st
                      in ((if valid then hit else M_error ENOENT, Some pid), st))))
         else ((M_error ENOENT, None), st))"

definition match_thread :: "vop \<Rightarrow> proc \<Rightarrow> pfsid \<Rightarrow> int option \<Rightarrow> kst \<Rightarrow> bool \<times> int option \<times> kst" where
  "match_thread vo p nid g st =
     (case procfs_get_thread_ids_for_task (vo_k vo) (Some p) g st of
        ((kr, ids), g, st) \<Rightarrow>
          if kr = KERN_SUCCESS
          then (\<exists>x \<in> set (case ids of None \<Rightarrow> [] | Some l \<Rightarrow> l). word_of_int x = nodeid_objectid nid,
                g, procfs_release_thread_ids (ids_count ids) st)
          else (False, g, st))"

text \<open>A process, thread or name entry once the name has a number, \<open>num\<close>.\<close>

definition numeric_id :: "pfsnode \<Rightarrow> pfssnode \<Rightarrow> int \<Rightarrow> pfsid" where
  "numeric_id dir sn num =
     (let t = psn_node_type sn
      in \<lparr> nodeid_pid = (if t = PFSproc \<or> t = PFSprocnamedir then num else nodeid_pid (node_id dir)),
           nodeid_objectid = (if t = PFSthread then word_of_int num else nodeid_objectid (node_id dir)),
           nodeid_base_id = psn_base_node_id sn \<rparr>)"

definition match_numeric ::
  "vop \<Rightarrow> pfsnode \<Rightarrow> string \<Rightarrow> saddr \<Rightarrow> pfssnode \<Rightarrow> int \<Rightarrow> int option \<Rightarrow> kst \<Rightarrow> (lmatch \<times> int option) \<times> int option \<times> kst" where
  "match_numeric vo dir name a sn num g st =
     (let t = psn_node_type sn;
          nid = numeric_id dir sn num
      in case proc_find (vo_k vo) (nodeid_pid nid) st of
           (None, st) \<Rightarrow> ((M_error ENOENT, None), g, st)
         | (Some p, st) \<Rightarrow>
             (let tgt = Some (nodeid_pid nid) in
              if t = PFSprocnamedir \<and> name \<noteq> procfs_construct_process_dir_name (vo_k vo) p
              then ((M_error ENOENT, tgt), g, st)
              else case (if check_access vo then procfs_check_can_access_process (vo_cred vo) p st else (None, st)) of
                     (Some _, st) \<Rightarrow> ((M_error ENOENT, tgt), g, st)
                   | (None, st) \<Rightarrow>
                       if t = PFSthread
                       then (case match_thread vo p nid g st of
                               (found, g, st) \<Rightarrow> ((if found then M_node a nid else M_error ENOENT, tgt), g, st))
                       else ((M_node a nid, tgt), g, st)))"

fun match_children ::
  "vop \<Rightarrow> pfsnode \<Rightarrow> string \<Rightarrow> saddr list \<Rightarrow> int option \<Rightarrow> kst \<Rightarrow> (lmatch \<times> int option) \<times> int option \<times> kst" where
  "match_children vo dir name [] g st = ((M_none, None), g, st)"
| "match_children vo dir name (a # as) g st =
     (case snode_at (vo_ss vo) a of
        None \<Rightarrow> match_children vo dir name as g st
      | Some sn \<Rightarrow>
          if name = psn_name sn
          then ((M_node a \<lparr> nodeid_pid = nodeid_pid (node_id dir), nodeid_objectid = nodeid_objectid (node_id dir),
                            nodeid_base_id = psn_base_node_id sn \<rparr>, None), g, st)
          else if psn_node_type sn = PFSfd
          then (case match_fd vo dir name a sn st of (r, st) \<Rightarrow> (r, g, st))
          else if psn_node_type sn \<in> {PFSproc, PFSprocnamedir, PFSthread}
          then (case procfs_atoi name of
                  (num, endp) \<Rightarrow>
                    if psn_node_type sn \<noteq> PFSprocnamedir \<and> endp \<noteq> [] then match_children vo dir name as g st
                    else if num \<noteq> - 1 then match_numeric vo dir name a sn num g st
                    else match_children vo dir name as g st)
          else match_children vo dir name as g st)"

definition match_sysctl :: "vop \<Rightarrow> pfsnode \<Rightarrow> string \<Rightarrow> pfssnode \<Rightarrow> lmatch" where
  "match_sysctl vo dir name sn =
     (case procfs_sysctl_find (vo_se vo) (nodeid_objectid (node_id dir)) name of
        None \<Rightarrow> M_none
      | Some child \<Rightarrow>
          M_node (node_structure_node dir)
            \<lparr> nodeid_pid = PRNODE_NO_PID, nodeid_objectid = child, nodeid_base_id = psn_base_node_id sn \<rparr>)"

text \<open>
  The outcome: an error, the directory itself with an extra iocount, or a call of
  \<open>procfsnode_find\<close> with the node id, the structure node and whether the parent vnode
  for a new vnode is the directory (else NULLVP). \<open>dvp\<close> is the directory vnode with
  its type and node, \<open>None\<close> the NULL pointer.
\<close>

datatype lresult = L_error errno | L_self | L_find pfsid "saddr option" bool

definition finish_match :: "lmatch \<Rightarrow> lresult" where
  "finish_match r =
     (case r of M_error e \<Rightarrow> L_error e | M_none \<Rightarrow> L_error ENOENT | M_node a nid \<Rightarrow> L_find nid (Some a) True)"

definition release_target :: "int option \<Rightarrow> kst \<Rightarrow> kst" where
  "release_target tgt st = (case tgt of None \<Rightarrow> st | Some pid \<Rightarrow> proc_rele pid st)"

definition procfs_vnop_lookup ::
  "vop \<Rightarrow> (vnode \<times> vtype \<times> pfsnode option) option \<Rightarrow> string \<Rightarrow> bool \<Rightarrow> int option \<Rightarrow> kst \<Rightarrow> lresult \<times> int option \<times> kst" where
  "procfs_vnop_lookup vo dvp cname isdotdot g st =
     (case dvp of
        None \<Rightarrow> (L_error EINVAL, g, st)
      | Some (v, t, pnp) \<Rightarrow>
          if t \<noteq> VDIR \<or> length cname < 1 then (L_error EINVAL, g, st)
          else case pnp of
            None \<Rightarrow> (L_error EINVAL, g, st)
          | Some dir \<Rightarrow>
              (let name = strlcpy (min (NAME_MAX + 1) (length cname + 1)) cname in
               case snode_at (vo_ss vo) (node_structure_node dir) of
                 None \<Rightarrow> (L_error EINVAL, g, st)
               | Some dsn \<Rightarrow>
                   if isdotdot
                   then (case procfs_get_parent_node_id (vo_ss vo) dir of
                           None \<Rightarrow> (L_error EINVAL, g, st)
                         | Some nid \<Rightarrow> (L_find nid (psn_parent dsn) False, g, st))
                   else if length cname = 1 \<and> name = ''.''
                   then (case vnode_get (vo_k vo) v st of
                           (None, st) \<Rightarrow> (L_self, g, st)
                         | (Some e, st) \<Rightarrow> (L_error e, g, st))
                   else if psn_node_type dsn = PFSsysctl
                   then (finish_match (match_sysctl vo dir name dsn), g, st)
                   else (case match_children vo dir name (psn_children dsn) g st of
                           ((r, tgt), g, st) \<Rightarrow> (finish_match r, g, release_target tgt st))))"

text \<open>The call of \<open>procfsnode_find\<close> a lookup makes, as an event of the node cache.\<close>

definition lookup_event :: "vop \<Rightarrow> lresult \<Rightarrow> event option" where
  "lookup_event vo r =
     (case r of L_find nid (Some a) _ \<Rightarrow> Some (Ev_call (pmnt_id (vo_mnt vo), nid) a) | _ \<Rightarrow> None)"

section \<open>Vnode creation\<close>

definition node_vtype :: "vop \<Rightarrow> pfstype \<Rightarrow> pfsid \<Rightarrow> vtype" where
  "node_vtype vo t nid =
     (if t = PFSsysctl then (if procfs_sysctl_is_node (vo_se vo) (nodeid_objectid nid) then VDIR else VREG)
      else procfs_allocvp t)"

record vnode_fsparam =
  vnfs_mp :: "nat option"
  vnfs_vtype :: vtype
  vnfs_dvp :: "vnode option"
  vnfs_markroot :: bool

text \<open>\<^verbatim>\<open>vnode_mount(NULLVP)\<close> is \<open>None\<close>; \<open>create\<close> is the kernel's \<^verbatim>\<open>vnode_create\<close>.\<close>

definition create_params :: "vop \<Rightarrow> vnode option \<Rightarrow> pfsnode \<Rightarrow> vnode_fsparam" where
  "create_params vo parent pnp =
     \<lparr> vnfs_mp = map_option (vnode_mount_k (vo_k vo)) parent,
       vnfs_vtype = (case snode_at (vo_ss vo) (node_structure_node pnp) of
                       None \<Rightarrow> VNON | Some sn \<Rightarrow> node_vtype vo (psn_node_type sn) (node_id pnp)),
       vnfs_dvp = parent, vnfs_markroot = False \<rparr>"

definition procfs_create_vnode ::
  "vop \<Rightarrow> (vnode_fsparam \<Rightarrow> errno + vnode) \<Rightarrow> vnode option \<Rightarrow> pfsnode \<Rightarrow> errno + vnode" where
  "procfs_create_vnode vo create parent pnp = create (create_params vo parent pnp)"

section \<open>Attributes\<close>

definition READ_EXECUTE_ALL :: int where "READ_EXECUTE_ALL = 0x16D"
definition RWX_OWNER_RX_ALL :: int where "RWX_OWNER_RX_ALL = 0x1ED"
definition ALL_ACCESS_OWNER_GROUP_ONLY :: int where "ALL_ACCESS_OWNER_GROUP_ONLY = 0x1F8"
definition ALL_ACCESS_ALL :: int where "ALL_ACCESS_ALL = 0x1FF"

record vattr =
  va_mode :: int
  va_type :: vtype
  va_fsid :: int
  va_fileid :: "64 word"
  va_data_size :: nat
  va_time :: "int \<times> int"
  va_uid :: int
  va_gid :: int

definition no_process_type :: "pfstype \<Rightarrow> bool" where
  "no_process_type t \<longleftrightarrow>
     t \<in> {PFScpuinfo, PFSloadavg, PFSpartitions, PFSversion, PFSmeminfo, PFSmtab, PFSstat, PFSvmstat, PFSuptime,
          PFSswaps, PFSfilesystems, PFSsysctl}"

definition node_mode :: "pfsmount \<Rightarrow> pfstype \<Rightarrow> int" where
  "node_mode pmp t =
     (let modemask = (if pmnt_flags pmp AND PROCFS_MOPT_NOPROCPERMS \<noteq> 0 then RWX_OWNER_RX_ALL else ALL_ACCESS_OWNER_GROUP_ONLY)
      in if t = PFSroot \<or> t = PFSfd then READ_EXECUTE_ALL
         else if t \<in> {PFScurproc, PFSprocnamedir, PFSproclink} then ALL_ACCESS_ALL
         else READ_EXECUTE_ALL AND modemask)"

definition base_of :: "sstate \<Rightarrow> saddr \<Rightarrow> pfsbaseid" where
  "base_of ss a = (case snode_at ss a of None \<Rightarrow> 0 | Some sn \<Rightarrow> psn_base_node_id sn)"

text \<open>
  The credential of the calling process is taken and dropped within; \<open>None\<close> for the
  size is the failed assertion of \<open>procfs_get_node_size_attr\<close>.
\<close>

definition fill_attr :: "vop \<Rightarrow> pfsnode \<Rightarrow> pfstype \<Rightarrow> proc option \<Rightarrow> nat \<Rightarrow> vattr" where
  "fill_attr vo pnp t p sz =
     \<lparr> va_mode = node_mode (vo_mnt vo) t,
       va_type = node_vtype vo t (node_id pnp),
       va_fsid = pmnt_id (vo_mnt vo),
       va_fileid = procfs_get_node_fileid (base_of (vo_ss vo)) pnp,
       va_data_size = sz,
       va_time = (case p of Some p \<Rightarrow> (p_start_sec p, p_start_usec p * 1000) | None \<Rightarrow> pmnt_mount_time (vo_mnt vo)),
       va_uid = (case current_proc (vo_k vo) of
                   None \<Rightarrow> 0
                 | Some c \<Rightarrow> if p = None then cr_ruid (p_cred c) else cr_uid (p_cred c)),
       va_gid = (case current_proc (vo_k vo) of None \<Rightarrow> 0 | Some c \<Rightarrow> cr_gid (p_cred c)) \<rparr>"

definition procfs_vnop_getattr ::
  "vop \<Rightarrow> pfsnode \<Rightarrow> int option \<Rightarrow> kst \<Rightarrow> (errno + vattr) option \<times> int option \<times> kst" where
  "procfs_vnop_getattr vo pnp g st =
     (case snode_at (vo_ss vo) (node_structure_node pnp) of
        None \<Rightarrow> (None, g, st)
      | Some sn \<Rightarrow>
          (let t = psn_node_type sn in
           case (if no_process_type t then (Inr (0, None), st) else procfs_get_process_info (vo_k vo) t pnp st) of
             (Inl e, st) \<Rightarrow> (Some (Inl e), g, st)
           | (Inr (pid, p), st) \<Rightarrow>
               (case procfs_get_node_size_attr (vo_k vo) (vo_ss vo) pnp g st of
                  (None, g, st) \<Rightarrow> (None, g, st)
                | (Some sz, g, st) \<Rightarrow>
                    (let st = cred_ref st;
                         st = (if p \<noteq> None then proc_rele pid st else st);
                         st = cred_unref st
                     in (Some (Inr (fill_attr vo pnp t p sz)), g, st)))))"

section \<open>Symbolic links\<close>

definition uiomove_text :: "uiomove_fn \<Rightarrow> nat \<Rightarrow> string \<Rightarrow> uio \<Rightarrow> err \<times> uio" where
  "uiomove_text um sz s uio = um (strlcpy sz s @ [CHR 0x00], 0) (int (length (strlcpy sz s))) uio"

definition procfs_vnop_readlink :: "vop \<Rightarrow> uiomove_fn \<Rightarrow> pfsnode \<Rightarrow> uio \<Rightarrow> kst \<Rightarrow> (err \<times> uio) \<times> kst" where
  "procfs_vnop_readlink vo um pnp uio st =
     (case snode_at (vo_ss vo) (node_structure_node pnp) of
        None \<Rightarrow> ((Some EINVAL, uio), st)
      | Some sn \<Rightarrow>
          if psn_node_type sn = PFScurproc
          then (uiomove_text um PROCESS_NAME_SIZE (fmt_d (case current_proc (vo_k vo) of None \<Rightarrow> - 1 | Some p \<Rightarrow> p_pid p)) uio, st)
          else if psn_node_type sn = PFSprocnamedir
          then (uiomove_text um PROCESS_NAME_SIZE (''../'' @ fmt_d (nodeid_pid (node_id pnp))) uio, st)
          else if psn_node_type sn = PFSproclink
          then (case procfs_proclink_path (vo_k vo) (nodeid_pid (node_id pnp)) (psn_name sn) st of
                  (Inr path, st) \<Rightarrow> (um (path @ [CHR 0x00], 0) (int (length path)) uio, st)
                | (Inl e, st) \<Rightarrow> ((Some e, uio), st))
          else ((Some EINVAL, uio), st))"

section \<open>Balance\<close>

lemma get_fd_list_state:
  "procfs_get_fd_list k (Some p) st = (r, st') \<Longrightarrow> procfs_release_fd_list (snd r) st' = st"
  by (auto simp: get_fd_list_eq procfs_release_fd_list_def free_k_def split: if_splits)

lemma match_fd_state: "match_fd vo dir name a sn st = ((r, tgt), st') \<Longrightarrow> release_target tgt st' = st"
proof (cases "proc_find_k (vo_k vo) (nodeid_pid (node_id dir))")
  case (Some p)
  assume m: "match_fd vo dir name a sn st = ((r, tgt), st')"
  let ?h = "proc_hold (nodeid_pid (node_id dir)) st"
  obtain e l s where f: "procfs_get_fd_list (vo_k vo) (Some p) ?h = ((e, l), s)" by (metis prod.collapse)
  have "proc_rele (nodeid_pid (node_id dir)) (procfs_release_fd_list l s) = st" using get_fd_list_state [OF f] by simp
  then show ?thesis using m Some f
    by (auto simp: match_fd_def release_target_def Let_def split: if_splits)
qed (auto simp: match_fd_def release_target_def Let_def split: if_splits)

lemma match_fd_os: "match_fd vo dir name a sn st = ((r, tgt), st') \<Longrightarrow> os_only st (release_target tgt st')"
  using match_fd_state by fastforce

lemma match_thread_os: "match_thread vo p nid g st = (f, g', st') \<Longrightarrow> os_only st st'"
  by (auto simp: match_thread_def procfs_get_thread_ids_for_task_def procfs_release_thread_ids_def OSMalloc_def OSFree_def
      os_only_def Let_def split: option.splits if_splits)

lemma match_numeric_os: "match_numeric vo dir name a sn n g st = ((r, tgt), g', st') \<Longrightarrow> os_only st (release_target tgt st')"
proof -
  assume m: "match_numeric vo dir name a sn n g st = ((r, tgt), g', st')"
  define nid where "nid = numeric_id dir sn n"
  show ?thesis
  proof (cases "proc_find_k (vo_k vo) (nodeid_pid nid)")
    case None
    then show ?thesis using m by (auto simp: match_numeric_def nid_def [symmetric] release_target_def Let_def)
  next
    case (Some p)
    obtain f g2 s2 where t: "match_thread vo p nid g (proc_hold (nodeid_pid nid) st) = (f, g2, s2)" by (metis prod.collapse)
    have "os_only st (proc_rele (nodeid_pid nid) s2)" by (rule os_only_rele [OF match_thread_os [OF t]])
    then show ?thesis using m Some t
      by (auto simp: match_numeric_def nid_def [symmetric] release_target_def Let_def split: if_splits)
  qed
qed

lemma match_children_os:
  "match_children vo dir name as g st = ((r, tgt), g', st') \<Longrightarrow> os_only st (release_target tgt st')"
proof (induction as)
  case Nil
  then show ?case by (auto simp: release_target_def)
next
  case (Cons a as)
  then show ?case
    using match_fd_os [of vo dir name a _ st r tgt st'] match_numeric_os [of vo dir name a _ _ g st r tgt g' st']
    by (auto simp: release_target_def split: option.splits if_splits prod.splits)
qed


section \<open>What names resolve to\<close>

text \<open>The first child that decides about a name: one with this name, or one that stands for many.\<close>

fun first_entry :: "sstate \<Rightarrow> string \<Rightarrow> saddr list \<Rightarrow> (saddr \<times> pfssnode) option" where
  "first_entry ss name [] = None"
| "first_entry ss name (a # as) =
     (case snode_at ss a of
        None \<Rightarrow> first_entry ss name as
      | Some sn \<Rightarrow> if psn_name sn = name \<or> expands (psn_node_type sn) then Some (a, sn) else first_entry ss name as)"

lemma match_skip:
  "(\<And>y. snode_at (vo_ss vo) x = Some y \<Longrightarrow> psn_name y \<noteq> name \<and> \<not> expands (psn_node_type y)) \<Longrightarrow>
    match_children vo dir name (x # xs) g st = match_children vo dir name xs g st"
  by (auto simp: expands_def split: option.split)

lemma match_first:
  assumes "first_entry (vo_ss vo) name as = Some (a, sn)"
  shows "\<exists>bs. match_children vo dir name as g st = match_children vo dir name (a # bs) g st \<and> snode_at (vo_ss vo) a = Some sn"
  using assms
proof (induction as)
  case (Cons x xs)
  show ?case
  proof (cases "\<exists>y. snode_at (vo_ss vo) x = Some y \<and> (psn_name y = name \<or> expands (psn_node_type y))")
    case True
    then show ?thesis using Cons.prems by (intro exI [of _ xs]) auto
  next
    case False
    then have "match_children vo dir name (x # xs) g st = match_children vo dir name xs g st"
      by (intro match_skip) blast
    moreover have "first_entry (vo_ss vo) name xs = Some (a, sn)"
      using False Cons.prems by (auto split: option.splits)
    ultimately show ?thesis using Cons.IH by presburger
  qed
qed simp

definition child_id :: "pfsnode \<Rightarrow> pfssnode \<Rightarrow> pfsid" where
  "child_id dir sn = \<lparr> nodeid_pid = nodeid_pid (node_id dir), nodeid_objectid = nodeid_objectid (node_id dir),
     nodeid_base_id = psn_base_node_id sn \<rparr>"

text \<open>A directory of the static tree, and a name that is neither dot nor dot-dot.\<close>

definition plain_dir :: "vop \<Rightarrow> pfsnode \<Rightarrow> pfssnode \<Rightarrow> bool" where
  "plain_dir vo dir dsn \<longleftrightarrow> snode_at (vo_ss vo) (node_structure_node dir) = Some dsn \<and> psn_node_type dsn \<noteq> PFSsysctl"

definition plain_name :: "string \<Rightarrow> bool" where
  "plain_name name \<longleftrightarrow> 0 < length name \<and> length name \<le> NAME_MAX \<and> name \<noteq> ''.''"

lemma lookup_plain:
  assumes "plain_dir vo dir dsn" "plain_name name"
  shows "procfs_vnop_lookup vo (Some (v, VDIR, Some dir)) name False g st =
    (case match_children vo dir name (psn_children dsn) g st of ((r, tgt), g, st) \<Rightarrow> (finish_match r, g, release_target tgt st))"
proof -
  have "strlcpy (min (NAME_MAX + 1) (length name + 1)) name = name"
    using assms(2) by (intro strlcpy_id) (auto simp: plain_name_def)
  then show ?thesis using assms by (simp add: procfs_vnop_lookup_def plain_dir_def plain_name_def Let_def)
qed

lemma lookup_static:
  assumes "plain_dir vo dir dsn" "plain_name name" "first_entry (vo_ss vo) name (psn_children dsn) = Some (a, sn)" "psn_name sn = name"
  shows "procfs_vnop_lookup vo (Some (v, VDIR, Some dir)) name False g st = (L_find (child_id dir sn) (Some a) True, g, st)"
proof -
  obtain bs where "match_children vo dir name (psn_children dsn) g st = match_children vo dir name (a # bs) g st"
      "snode_at (vo_ss vo) a = Some sn"
    using match_first [OF assms(3)] by blast
  then show ?thesis using lookup_plain [OF assms(1,2)] assms(4) by (simp add: finish_match_def release_target_def child_id_def)
qed

definition may_see :: "vop \<Rightarrow> proc \<Rightarrow> bool" where
  "may_see vo p \<longleftrightarrow> \<not> check_access vo \<or> may_access (vo_cred vo) p"

text \<open>
  C21: in a directory of processes a number leads to the process with this id, with its
  pid in the node id, exactly when the process exists and the caller may see it;
  otherwise the name does not exist. A refusal is not told from an absent process.
\<close>

theorem lookup_process_number:
  assumes "plain_dir vo dir dsn" "plain_name name" "first_entry (vo_ss vo) name (psn_children dsn) = Some (a, sn)"
    and "psn_node_type sn = PFSproc" "psn_name sn \<noteq> name" "procfs_atoi name = (pid, [])" "pid \<noteq> - 1"
  shows "procfs_vnop_lookup vo (Some (v, VDIR, Some dir)) name False g st =
    ((case proc_find_k (vo_k vo) pid of
        Some p \<Rightarrow> if may_see vo p then L_find ((child_id dir sn)\<lparr> nodeid_pid := pid \<rparr>) (Some a) True else L_error ENOENT
      | None \<Rightarrow> L_error ENOENT), g, st)"
proof -
  obtain bs where "match_children vo dir name (psn_children dsn) g st = match_children vo dir name (a # bs) g st"
      "snode_at (vo_ss vo) a = Some sn"
    using match_first [OF assms(3)] by blast
  then show ?thesis using lookup_plain [OF assms(1,2)] assms(4-7)
    by (auto simp: match_numeric_def numeric_id_def finish_match_def release_target_def child_id_def may_see_def Let_def split: option.split)
qed

text \<open>The layout of the first mount and a caller of group 0 in it.\<close>

definition first_layout :: sstate where
  "first_layout = procfs_structure_init sstate_init"

definition demo_vop :: vop where
  "demo_vop = \<lparr> vo_k = kenv0\<lparr> proc_find_k := (\<lambda>pid. if pid = 7 then Some (proc0\<lparr> p_pid := 7 \<rparr>) else None) \<rparr>,
     vo_ss = first_layout, vo_se = \<lparr> sysctl_children_k = [], oid_at = (\<lambda>_. \<lparr> oid_name = None, oid_kind = 0, oid_arg1 = None, oid_fmt = None \<rparr>),
       sysctlbyname_k = (\<lambda>_. None) \<rparr>,
     vo_mnt = \<lparr> pmnt_id = 1, pmnt_flags = 0, pmnt_mount_time = (0, 0) \<rparr>, vo_cred = cred0, vo_suser = False \<rparr>"

definition root_numbers :: "string \<Rightarrow> bool" where
  "root_numbers name \<longleftrightarrow>
     (case snode_at first_layout 0 of
        None \<Rightarrow> False
      | Some dsn \<Rightarrow>
          psn_node_type dsn = PFSroot \<and>
          (case first_entry first_layout name (psn_children dsn) of
             None \<Rightarrow> False
           | Some (a, sn) \<Rightarrow> psn_node_type sn = PFSproc \<and> psn_name sn \<noteq> name \<and> psn_base_node_id sn = 25))"

lemma root_numbers_7: "root_numbers ''7''"
  by code_simp

theorem lookup_process_number_witness:
  "\<exists>a. procfs_vnop_lookup demo_vop (Some (0, VDIR, Some node_ex)) ''7'' False None kst0 =
     (L_find \<lparr> nodeid_pid = 7, nodeid_objectid = 0, nodeid_base_id = 25 \<rparr> (Some a) True, None, kst0)"
proof -
  obtain dsn a sn where d: "snode_at first_layout 0 = Some dsn" "psn_node_type dsn = PFSroot"
      "first_entry first_layout ''7'' (psn_children dsn) = Some (a, sn)" "psn_node_type sn = PFSproc"
      "psn_name sn \<noteq> ''7''" "psn_base_node_id sn = 25"
    using root_numbers_7 by (auto simp: root_numbers_def split: option.splits)
  have p: "plain_dir demo_vop node_ex dsn" "plain_name ''7''" "first_entry (vo_ss demo_vop) ''7'' (psn_children dsn) = Some (a, sn)"
    using d by (simp_all add: plain_dir_def plain_name_def demo_vop_def node_ex_def NAME_MAX_def)
  have t: "procfs_atoi ''7'' = (7, [])" by code_simp
  show ?thesis
    using lookup_process_number [OF p d(4,5) t, of 0 None kst0] d(6)
    by (simp add: demo_vop_def may_see_def may_access_def proc0_def cred0_def child_id_def node_ex_def PROCFS_ROOT_NODE_ID_def
        PRNODE_NO_PID_def PRNODE_NO_OBJECTID_def)
qed

text \<open>
  A descriptor name may have anything after its digits: \<^verbatim>\<open>fd/3abc\<close> is descriptor 3.
\<close>

lemma fd_name_suffix_ignored:
  "match_fd vo dir ''3abc'' a sn st = match_fd vo dir ''3'' a sn st"
proof -
  have "fst (procfs_atoi ''3abc'') = 3" "fst (procfs_atoi ''3'') = 3" by code_simp+
  then show ?thesis by (simp add: match_fd_def)
qed

text \<open>A number is read modulo \<open>2 ^ 32\<close>: the name 4294967297 is read as 1.\<close>

lemma pid_name_wraps: "procfs_atoi ''4294967297'' = procfs_atoi ''1''"
  by code_simp

text \<open>The place holder of the processes is itself a name in the root directory: a process directory without a process.\<close>

definition placeholder_found :: bool where
  "placeholder_found \<longleftrightarrow>
     (case snode_at first_layout 0 of
        None \<Rightarrow> False
      | Some dsn \<Rightarrow>
          (case first_entry first_layout ''__Process__'' (psn_children dsn) of
             None \<Rightarrow> False
           | Some (a, sn) \<Rightarrow> psn_name sn = ''__Process__'' \<and> psn_node_type sn = PFSproc \<and> psn_base_node_id sn = 25))"

lemma placeholder_found_layout: "placeholder_found"
  by code_simp

lemma placeholder_lookup:
  "\<exists>a. procfs_vnop_lookup demo_vop (Some (0, VDIR, Some node_ex)) ''__Process__'' False None kst0 =
     (L_find \<lparr> nodeid_pid = - 1, nodeid_objectid = 0, nodeid_base_id = 25 \<rparr> (Some a) True, None, kst0)"
proof -
  obtain dsn a sn where d: "snode_at first_layout 0 = Some dsn"
      "first_entry first_layout ''__Process__'' (psn_children dsn) = Some (a, sn)" "psn_name sn = ''__Process__''" "psn_base_node_id sn = 25"
    using placeholder_found_layout by (auto simp: placeholder_found_def split: option.splits)
  have r: "psn_node_type dsn \<noteq> PFSsysctl" using root_numbers_7 d(1) by (auto simp: root_numbers_def)
  have p: "plain_dir demo_vop node_ex dsn" "plain_name ''__Process__''"
      "first_entry (vo_ss demo_vop) ''__Process__'' (psn_children dsn) = Some (a, sn)"
    using d r by (simp_all add: plain_dir_def plain_name_def demo_vop_def node_ex_def NAME_MAX_def)
  show ?thesis
    using lookup_static [OF p d(3)] d(4)
    by (simp add: child_id_def node_ex_def PROCFS_ROOT_NODE_ID_def PRNODE_NO_PID_def PRNODE_NO_OBJECTID_def)
qed

text \<open>
  Dot-dot asks for a vnode without a parent, whose mount is that of NULLVP: if the
  parent's vnode is not cached, the new one is created without a mount.
\<close>

lemma dotdot_no_mount:
  assumes "procfs_vnop_lookup vo dvp cname True g st = (L_find nid a b, g', st')"
  shows "b = False" "vnfs_mp (create_params vo None pnp) = None"
  using assms by (auto simp: procfs_vnop_lookup_def create_params_def Let_def split: option.splits if_splits)

text \<open>
  Dot-dot in a directory below \<^verbatim>\<open>/proc/sys\<close> leads to the parent of \<^verbatim>\<open>/proc/sys\<close> itself,
  at any depth: the parent id does not depend on the sysctl node.
\<close>

lemma sysctl_dotdot_same:
  assumes "node_structure_node d1 = node_structure_node d2" "snode_at ss (node_structure_node d1) = Some sn" "psn_parent sn = Some p"
    "snode_at ss p = Some par" "psn_flags par AND PSN_FLAG_PROCESS = 0" "psn_flags par AND PSN_FLAG_THREAD = 0"
  shows "procfs_get_parent_node_id ss d1 = procfs_get_parent_node_id ss d2"
  using assms by (simp add: procfs_get_parent_node_id_def Let_def)

text \<open>
  The owner a node reports is the calling process whatever process the node belongs
  to, although the attributes are described as those of the node's process.
\<close>

lemma getattr_owner_is_caller:
  assumes "current_proc (vo_k vo) = Some c"
  shows "va_uid (fill_attr vo pnp t (Some p) n) = cr_uid (p_cred c)" "va_gid (fill_attr vo pnp t (Some p) n) = cr_gid (p_cred c)"
  using assms by (simp_all add: fill_attr_def)

lemma process_info_state:
  "procfs_get_process_info k t pnp st = (Inr (pid, p), st') \<Longrightarrow> (if p = None then st' = st else st' = proc_hold pid st)"
  "procfs_get_process_info k t pnp st = (Inl e, st') \<Longrightarrow> st' = st"
  by (auto simp: procfs_get_process_info_def proc_find_def Let_def split: if_splits option.splits)

lemma process_info_error:
  "procfs_get_process_info k t pnp st = (Inl e, st') \<Longrightarrow> e = ENOENT \<and> procfs_node_type_has_pid t"
  by (auto simp: procfs_get_process_info_def Let_def split: if_splits prod.splits)

lemma cred_ref_rele: "cred_unref (proc_rele pid (cred_ref st)) = proc_rele pid st"
  by (simp add: cred_ref_def cred_unref_def proc_rele_def)

text \<open>
  Reading attributes gives back the process and credential references, and a node that
  belongs to no process or to an existing one gets attributes: its own file id, the
  type its vnode was created with, and no permission for others unless the mount
  says so.
\<close>

lemma getattr_attributes:
  assumes "procfs_vnop_getattr vo pnp g st = (Some r, g', st')" "snode_at (vo_ss vo) (node_structure_node pnp) = Some sn"
  shows "os_only st st' \<and>
    (case r of
       Inl e \<Rightarrow> e = ENOENT \<and> procfs_node_type_has_pid (psn_node_type sn)
     | Inr va \<Rightarrow> va_fileid va = procfs_get_node_fileid (base_of (vo_ss vo)) pnp \<and>
         va_type va = vnfs_vtype (create_params vo parent pnp) \<and>
         (psn_node_type sn \<in> {PFSroot, PFSfd, PFScurproc, PFSprocnamedir, PFSproclink} \<or>
          pmnt_flags (vo_mnt vo) AND PROCFS_MOPT_NOPROCPERMS \<noteq> 0 \<or> va_mode va AND 7 = 0))"
proof -
  define t where "t = psn_node_type sn"
  define i where "i = (if no_process_type t then (Inr (0, None), st) else procfs_get_process_info (vo_k vo) t pnp st)"
  show ?thesis
  proof (cases "fst i")
    case (Inl e)
    then have x: "procfs_get_process_info (vo_k vo) t pnp st = (Inl e, snd i)" "\<not> no_process_type t"
      by (auto simp: i_def split: if_splits) (metis prod.collapse)
    then have "snd i = st" "e = ENOENT" "procfs_node_type_has_pid t"
      using process_info_state(2) [OF x(1)] process_info_error [OF x(1)] by auto
    moreover have "r = Inl e" "st' = snd i"
      using assms x by (simp_all add: procfs_vnop_getattr_def t_def [symmetric] Let_def)
    ultimately show ?thesis by (simp add: t_def)
  next
    case (Inr pp)
    obtain pid p where pp: "pp = (pid, p)" by (cases pp)
    define s1 where "s1 = snd i"
    have i: "i = (Inr (pid, p), s1)" using Inr pp by (simp add: s1_def prod_eq_iff)
    then have s1: "if p = None then s1 = st else s1 = proc_hold pid st"
      using process_info_state(1) [of "vo_k vo" t pnp st pid p s1] by (auto simp: i_def split: if_splits)
    obtain sz g2 s2 where z: "procfs_get_node_size_attr (vo_k vo) (vo_ss vo) pnp g s1 = (sz, g2, s2)" by (metis prod.collapse)
    have o2: "os_only s1 s2" using node_size_os [of s1 "vo_k vo" "vo_ss vo" pnp g] z by simp
    obtain n where n: "sz = Some n" "r = Inr (fill_attr vo pnp t p n)" "st' = cred_unref (if p \<noteq> None then proc_rele pid (cred_ref s2) else cred_ref s2)"
      using assms i z by (cases sz) (auto simp: procfs_vnop_getattr_def i_def [symmetric] t_def [symmetric] Let_def)
    have "os_only st st'"
      using o2 s1 n(3) os_only_rele [of pid st s2] by (cases p) (auto simp: cred_ref_rele)
    moreover have "t \<in> {PFSroot, PFSfd, PFScurproc, PFSprocnamedir, PFSproclink} \<or>
        pmnt_flags (vo_mnt vo) AND PROCFS_MOPT_NOPROCPERMS \<noteq> 0 \<or> node_mode (vo_mnt vo) t AND 7 = 0"
      by (auto simp: node_mode_def READ_EXECUTE_ALL_def ALL_ACCESS_OWNER_GROUP_ONLY_def)
    ultimately show ?thesis
      using n(2) assms(2) by (simp add: fill_attr_def create_params_def t_def)
  qed
qed

definition demo_file :: pfssnode where
  "demo_file = \<lparr> psn_node_type = PFSversion, psn_name = ''version'', psn_base_node_id = 12, psn_flags = 0, psn_parent = Some 0,
     psn_children = [], psn_node_size = 5, psn_getsize_fn = None, psn_read_data_fn = Some RF_doversion \<rparr>"

definition demo_attr_vop :: vop where
  "demo_attr_vop = demo_vop\<lparr> vo_ss := \<lparr> snodes = [Some demo_file], next_node_id = 13, root_node = None \<rparr> \<rparr>"

lemma demo_getattr:
  "procfs_vnop_getattr demo_attr_vop node_ex None kst0 =
     (Some (Inr (fill_attr demo_attr_vop node_ex PFSversion None 5)), None, kst0)"
  by (simp add: procfs_vnop_getattr_def demo_attr_vop_def demo_file_def node_ex_def snode_at_def no_process_type_def
      procfs_get_node_size_attr_def size_snode_def procfs_is_directory_type_def)

theorem getattr_attributes_witness:
  "va_fileid (fill_attr demo_attr_vop node_ex PFSversion None 5) = 12 \<and>
   va_mode (fill_attr demo_attr_vop node_ex PFSversion None 5) AND 7 = 0"
  using getattr_attributes [OF demo_getattr, of demo_file None]
  by (simp add: demo_attr_vop_def demo_vop_def demo_file_def node_ex_def snode_at_def procfs_get_node_fileid_def procfs_get_fileid_def
      PROCFS_ROOT_NODE_ID_def PRNODE_NO_PID_def PRNODE_NO_OBJECTID_def base_of_def)

end
