(* ===== verification/Readdir.thy ===== *)
theory Readdir
imports Lookup
begin

text \<open>
  Directory listing: \<^verbatim>\<open>procfs_vnop_readdir\<close>, \<^verbatim>\<open>procfs_sysctl_readdir\<close> and the packing of
  entries in \<^verbatim>\<open>kext/procfs_vnops.c\<close>. The abstract directory is a list of entries.
  Proved: a call that starts at an entry boundary delivers the longest run of
  whole entries that fits, and a sequence of calls delivers every entry exactly
  once; and a name that is listed is found by lookup, with the listed file id.
\<close>

section \<open>Entries\<close>

text \<open>
  A packed \<^verbatim>\<open>struct direntry\<close>: file id, seek offset, record length, name length and
  type, then the name from byte 21 on. The fixed part counts 24 bytes, the size of
  the structure without the name array.
\<close>

definition DT_DIR :: int where "DT_DIR = 4"
definition DT_REG :: int where "DT_REG = 8"
definition DT_LNK :: int where "DT_LNK = 10"

fun vtype_num :: "vtype \<Rightarrow> int" where
  "vtype_num VNON = 0" | "vtype_num VREG = 1" | "vtype_num VDIR = 2" | "vtype_num VLNK = 5"

definition procfs_calc_dirent_size :: "string \<Rightarrow> int" where
  "procfs_calc_dirent_size name = 24 + (int (length name) + 1 + 7) div 8 * 8"

definition dirent :: "int \<Rightarrow> 64 word \<Rightarrow> string \<Rightarrow> int \<Rightarrow> int \<Rightarrow> bytes" where
  "dirent type file_id name sz seekoff =
     (let b = le_bytes 8 (uint file_id) @ le_bytes 8 seekoff @ le_bytes 2 sz @ le_bytes 2 (int (length name)) @
              le_bytes 1 type @ name
      in take (nat sz) (b @ replicate (nat sz - length b) (CHR 0x00)))"

text \<open>The error, the request afterwards and the size, 0 if there was no room.\<close>

definition procfs_copyout_dirent ::
  "uiomove_fn \<Rightarrow> int \<Rightarrow> 64 word \<Rightarrow> string \<Rightarrow> uio \<Rightarrow> int \<Rightarrow> int \<Rightarrow> (err \<times> uio) \<times> int" where
  "procfs_copyout_dirent um type file_id name uio sz seekoff =
     (if sz \<le> uio_resid uio
      then (um (dirent type file_id name sz seekoff, 0) sz uio, sz)
      else ((None, uio), 0))"

type_synonym dentry = "int \<times> 64 word \<times> string"

record rdstate =
  r_next :: int
  r_num :: nat
  r_err :: err
  r_uio :: uio

text \<open>One entry: skipped below the start position; \<open>True\<close> when the listing stops here.\<close>

definition emit :: "uiomove_fn \<Rightarrow> int \<Rightarrow> dentry \<Rightarrow> rdstate \<Rightarrow> bool \<times> rdstate" where
  "emit um startpos e s =
     (case e of (type, file_id, name) \<Rightarrow>
        (let sz = procfs_calc_dirent_size name
         in if r_next s \<ge> startpos
            then (case procfs_copyout_dirent um type file_id name (r_uio s) sz (r_next s + sz) of
                    ((error, u), sz) \<Rightarrow>
                      if error \<noteq> None \<or> sz = 0 then (True, s\<lparr> r_err := error, r_uio := u \<rparr>)
                      else (False, s\<lparr> r_err := error, r_uio := u, r_num := r_num s + 1, r_next := r_next s + sz \<rparr>))
            else (False, s\<lparr> r_next := r_next s + sz \<rparr>)))"

fun emit_list :: "uiomove_fn \<Rightarrow> int \<Rightarrow> dentry list \<Rightarrow> rdstate \<Rightarrow> bool \<times> rdstate" where
  "emit_list um startpos [] s = (False, s)"
| "emit_list um startpos (e # es) s =
     (case emit um startpos e s of
        (True, s) \<Rightarrow> (True, s)
      | (False, s) \<Rightarrow> emit_list um startpos es s)"

section \<open>Listing a directory of the layout\<close>

text \<open>The type and node id of an entry that stands for one node.\<close>

definition static_type :: "pfstype \<Rightarrow> int" where
  "static_type t =
     (if t \<in> {PFSdir, PFSsysctl, PFSdirthis, PFSdirparent} then DT_DIR
      else if t \<in> {PFScurproc, PFSproclink} then DT_LNK else DT_REG)"

definition static_id :: "vop \<Rightarrow> pfsnode \<Rightarrow> pfssnode \<Rightarrow> pfsid option" where
  "static_id vo dir sn =
     (if psn_node_type sn = PFSdirthis then Some (node_id dir)
      else if psn_node_type sn = PFSdirparent then procfs_get_parent_node_id (vo_ss vo) dir
      else Some (child_id dir sn))"

definition fileid_of :: "pfsid \<Rightarrow> 64 word" where
  "fileid_of i = procfs_get_fileid (nodeid_pid i) (nodeid_objectid i) (nodeid_base_id i)"

fun pid_loop :: "vop \<Rightarrow> uiomove_fn \<Rightarrow> int \<Rightarrow> bool \<Rightarrow> pfsbaseid \<Rightarrow> int list \<Rightarrow> rdstate \<Rightarrow> kst \<Rightarrow> (bool \<times> rdstate) \<times> kst" where
  "pid_loop vo um startpos procdir base [] s st = ((False, s), st)"
| "pid_loop vo um startpos procdir base (pid # plist) s st =
     (let go = (\<lambda>name st.
            case emit um startpos (vtype_num VDIR, procfs_get_fileid pid PRNODE_NO_OBJECTID base, name) s of
              (True, s) \<Rightarrow> ((True, s), st)
            | (False, s) \<Rightarrow> pid_loop vo um startpos procdir base plist s st)
      in if procdir then go (strlcpy PROCESS_NAME_SIZE (fmt_d pid)) st
         else case proc_find (vo_k vo) pid st of
                (None, st) \<Rightarrow> pid_loop vo um startpos procdir base plist s st
              | (Some p, st) \<Rightarrow> go (procfs_construct_process_dir_name (vo_k vo) p) (proc_rele pid st))"

fun kr_code :: "kern_return \<Rightarrow> int" where
  "kr_code KERN_SUCCESS = 0" | "kr_code KERN_NOT_SUPPORTED = 46" | "kr_code KERN_RESOURCE_SHORTAGE = 6"

definition thread_entries :: "int \<Rightarrow> pfsbaseid \<Rightarrow> int list \<Rightarrow> dentry list" where
  "thread_entries pid base ids =
     map (\<lambda>x. (vtype_num VDIR, procfs_get_fileid pid (word_of_int x) base, strlcpy PROCESS_NAME_SIZE (fmt_d (to_int64 x)))) ids"

definition fd_entries :: "int \<Rightarrow> pfsbaseid \<Rightarrow> (int \<times> int) list \<Rightarrow> dentry list" where
  "fd_entries pid base fds =
     map (\<lambda>x. (vtype_num VDIR, procfs_get_fileid pid (word_of_int (fst x)) base, strlcpy PROCESS_NAME_SIZE (fmt_d (fst x)))) fds"

definition list_procs :: "vop \<Rightarrow> uiomove_fn \<Rightarrow> int \<Rightarrow> pfssnode \<Rightarrow> rdstate \<Rightarrow> kst \<Rightarrow> (bool \<times> rdstate) \<times> kst" where
  "list_procs vo um startpos sn s st =
     (case procfs_get_pids (vo_k vo) (if check_access vo then Some (vo_cred vo) else None) st of
        ((plist, sz), st) \<Rightarrow>
          (case pid_loop vo um startpos (psn_node_type sn = PFSproc) (psn_base_node_id sn)
                  (case plist of None \<Rightarrow> [] | Some l \<Rightarrow> l) s st of
             (r, st) \<Rightarrow> (r, procfs_release_pids sz st)))"

definition list_threads ::
  "vop \<Rightarrow> uiomove_fn \<Rightarrow> int \<Rightarrow> pfsnode \<Rightarrow> pfssnode \<Rightarrow> rdstate \<Rightarrow> int option \<Rightarrow> kst \<Rightarrow> rdstate \<times> int option \<times> kst" where
  "list_threads vo um startpos dir sn s g st =
     (let pid = nodeid_pid (node_id dir) in
      case proc_find (vo_k vo) pid st of
        (None, st) \<Rightarrow> (s\<lparr> r_err := Some ENOENT \<rparr>, g, st)
      | (Some p, st) \<Rightarrow>
          (case procfs_get_thread_ids_for_task (vo_k vo) (Some p) g st of
             ((kr, ids), g, st) \<Rightarrow>
               if kr = KERN_SUCCESS
               then (snd (emit_list um startpos (thread_entries pid (psn_base_node_id sn) (case ids of None \<Rightarrow> [] | Some l \<Rightarrow> l))
                            (s\<lparr> r_err := None \<rparr>)),
                     g, proc_rele pid (procfs_release_thread_ids (ids_count ids) st))
               else (s\<lparr> r_err := err_of (kr_code kr) \<rparr>, g, proc_rele pid st)))"

definition list_fds :: "vop \<Rightarrow> uiomove_fn \<Rightarrow> int \<Rightarrow> pfsnode \<Rightarrow> pfssnode \<Rightarrow> rdstate \<Rightarrow> kst \<Rightarrow> rdstate \<times> kst" where
  "list_fds vo um startpos dir sn s st =
     (let pid = nodeid_pid (node_id dir) in
      case proc_find (vo_k vo) pid st of
        (None, st) \<Rightarrow> (s\<lparr> r_err := Some ENOENT \<rparr>, st)
      | (Some p, st) \<Rightarrow>
          (case procfs_get_fd_list (vo_k vo) (Some p) st of
             ((_, fdlist), st) \<Rightarrow>
               (snd (emit_list um startpos (fd_entries pid (psn_base_node_id sn) (fd_list_of fdlist)) s),
                proc_rele pid (procfs_release_fd_list fdlist st))))"

text \<open>
  The loop over the children. The result is the children not passed yet, the state
  and the resources; \<open>None\<close> stands for the child of type \<open>PFSroot\<close> at which the loop
  never moves on, and for a child that is not in memory.
\<close>

fun readdir_loop ::
  "vop \<Rightarrow> uiomove_fn \<Rightarrow> int \<Rightarrow> pfsnode \<Rightarrow> saddr list \<Rightarrow> rdstate \<Rightarrow> int option \<Rightarrow> kst \<Rightarrow>
   (saddr list \<times> rdstate \<times> int option \<times> kst) option" where
  "readdir_loop vo um startpos dir [] s g st = Some ([], s, g, st)"
| "readdir_loop vo um startpos dir (a # as) s g st =
     (if uio_resid (r_uio s) \<le> 0 then Some (a # as, s, g, st)
      else let pid = nodeid_pid (node_id dir) in
      case snode_at (vo_ss vo) a of
        None \<Rightarrow> None
      | Some sn \<Rightarrow>
          (case (if pid = PRNODE_NO_PID \<or> \<not> check_access vo then (None, st)
                 else procfs_check_can_access_proc_pid (vo_k vo) (vo_cred vo) pid st) of
             (Some _, st) \<Rightarrow> readdir_loop vo um startpos dir as s g st
           | (None, st) \<Rightarrow>
               if psn_node_type sn = PFSroot then None
               else if psn_node_type sn = PFSproc \<or> psn_node_type sn = PFSprocnamedir
               then (case list_procs vo um startpos sn s st of
                       ((stop, s), st) \<Rightarrow> Some (if stop then a # as else as, s, g, st))
               else if psn_node_type sn = PFSthread
               then (case list_threads vo um startpos dir sn s g st of (s, g, st) \<Rightarrow> Some (a # as, s, g, st))
               else if psn_node_type sn = PFSfd
               then (case list_fds vo um startpos dir sn s st of (s, st) \<Rightarrow> Some (a # as, s, g, st))
               else (case static_id vo dir sn of
                       None \<Rightarrow> None
                     | Some i \<Rightarrow>
                         (case emit um startpos (static_type (psn_node_type sn), fileid_of i, psn_name sn) s of
                            (True, s) \<Rightarrow> Some (a # as, s, g, st)
                          | (False, s) \<Rightarrow> readdir_loop vo um startpos dir as s g st))))"

section \<open>Listing a sysctl directory\<close>

lemma nth_child_index: "nth_child e index i l = Some x \<Longrightarrow> index < i + length l"
proof (induction l arbitrary: i)
  case (Cons a l)
  then show ?case using Cons.IH [of i] Cons.IH [of "i + 1"]
    by (fastforce split: option.splits if_splits)
qed simp

definition sysctl_count :: "sysctl_env \<Rightarrow> oid_addr \<Rightarrow> nat" where
  "sysctl_count e d = (case procfs_sysctl_children e d of None \<Rightarrow> 0 | Some l \<Rightarrow> length l)"

lemma child_at_index: "procfs_sysctl_child_at e d index = Some x \<Longrightarrow> index < sysctl_count e d"
  using nth_child_index [of e index 0] by (auto simp: procfs_sysctl_child_at_def sysctl_count_def split: option.splits)

text \<open>The second component is \<^verbatim>\<open>more\<close>.\<close>

function sysctl_loop ::
  "sysctl_env \<Rightarrow> uiomove_fn \<Rightarrow> int \<Rightarrow> oid_addr \<Rightarrow> pfsbaseid \<Rightarrow> nat \<Rightarrow> rdstate \<Rightarrow> rdstate \<times> bool" where
  "sysctl_loop e um startpos d base index s =
     (if r_err s = None \<and> uio_resid (r_uio s) > 0
      then case procfs_sysctl_child_at e d index of
             None \<Rightarrow> (s, False)
           | Some (name, is_node, objid) \<Rightarrow>
               (case emit um startpos (if is_node then DT_DIR else DT_REG, procfs_get_fileid PRNODE_NO_PID objid base, name) s of
                  (True, s) \<Rightarrow> (s, True)
                | (False, s) \<Rightarrow> sysctl_loop e um startpos d base (index + 1) s)
      else (s, True))"
  by pat_completeness auto
termination
  by (relation "measure (\<lambda>(e, um, sp, d, base, index, s). sysctl_count e d - index)") (auto dest: child_at_index)

declare sysctl_loop.simps [simp del]

record rdresult =
  rd_error :: err
  rd_uio :: uio
  rd_eof :: bool
  rd_count :: nat

definition finish_readdir :: "rdstate \<Rightarrow> bool \<Rightarrow> rdresult" where
  "finish_readdir s eof =
     \<lparr> rd_error = r_err s, rd_uio = (r_uio s)\<lparr> uio_offset := r_next s \<rparr>, rd_eof = eof, rd_count = r_num s \<rparr>"

definition start_readdir :: "uio \<Rightarrow> rdstate" where
  "start_readdir uio = \<lparr> r_next = 0, r_num = 0, r_err = None, r_uio = uio \<rparr>"

definition procfs_sysctl_readdir :: "vop \<Rightarrow> uiomove_fn \<Rightarrow> pfsnode \<Rightarrow> uio \<Rightarrow> rdresult" where
  "procfs_sysctl_readdir vo um dir uio =
     (let startpos = uio_offset uio;
          base = base_of (vo_ss vo) (node_structure_node dir);
          self_fileid = procfs_get_node_fileid (base_of (vo_ss vo)) dir
      in case emit_list um startpos [(DT_DIR, self_fileid, ''.''), (DT_DIR, self_fileid, ''..'')] (start_readdir uio) of
           (True, s) \<Rightarrow> finish_readdir s False
         | (False, s) \<Rightarrow>
             (case sysctl_loop (vo_se vo) um startpos (nodeid_objectid (node_id dir)) base 0 s of
                (s, mr) \<Rightarrow> finish_readdir s (r_err s = None \<and> \<not> mr)))"

definition procfs_vnop_readdir ::
  "vop \<Rightarrow> uiomove_fn \<Rightarrow> vtype \<Rightarrow> pfsnode \<Rightarrow> uio \<Rightarrow> int option \<Rightarrow> kst \<Rightarrow> (errno + rdresult) option \<times> int option \<times> kst" where
  "procfs_vnop_readdir vo um t dir uio g st =
     (if t \<noteq> VDIR then (Some (Inl ENOTDIR), g, st)
      else case snode_at (vo_ss vo) (node_structure_node dir) of
             None \<Rightarrow> (None, g, st)
           | Some dsn \<Rightarrow>
               if psn_node_type dsn = PFSsysctl then (Some (Inr (procfs_sysctl_readdir vo um dir uio)), g, st)
               else case readdir_loop vo um (uio_offset uio) dir (psn_children dsn) (start_readdir uio) g st of
                      None \<Rightarrow> (None, g, st)
                    | Some (rest, s, g, st) \<Rightarrow> (Some (Inr (finish_readdir s (rest = []))), g, st))"

section \<open>Packing and walking entries\<close>

definition esize :: "dentry \<Rightarrow> int" where
  "esize e = procfs_calc_dirent_size (snd (snd e))"

definition espan :: "dentry list \<Rightarrow> int" where
  "espan es = (\<Sum>e \<leftarrow> es. esize e)"

fun ebytes :: "int \<Rightarrow> dentry list \<Rightarrow> bytes" where
  "ebytes pos [] = []"
| "ebytes pos (e # es) =
     dirent (fst e) (fst (snd e)) (snd (snd e)) (esize e) (pos + esize e) @ ebytes (pos + esize e) es"

text \<open>The longest run of whole entries in a buffer of \<open>r\<close> bytes.\<close>

fun fit :: "int \<Rightarrow> dentry list \<Rightarrow> dentry list" where
  "fit r [] = []"
| "fit r (e # es) = (if esize e \<le> r then e # fit (r - esize e) es else [])"

lemma esize_pos: "0 < esize e"
  by (simp add: esize_def procfs_calc_dirent_size_def)

lemma esize_nonneg [simp]: "0 \<le> esize e"
  using esize_pos by (rule order_less_imp_le)

lemma esize_name: "int (length (snd (snd e))) + 21 \<le> esize e"
proof -
  define m where "m = int (length (snd (snd e)))"
  have "(m + 1 + 7) div 8 * 8 = m + 8 - (m + 8) mod 8" by (simp add: minus_mod_eq_div_mult [symmetric])
  moreover have "(m + 8) mod 8 < 8" by simp
  ultimately show ?thesis by (simp add: esize_def procfs_calc_dirent_size_def m_def [symmetric])
qed

lemma esize_le: "esize e \<le> 32 + int (length (snd (snd e)))"
proof -
  define m where "m = int (length (snd (snd e)))"
  have "(m + 1 + 7) div 8 * 8 = m + 8 - (m + 8) mod 8" by (simp add: minus_mod_eq_div_mult [symmetric])
  moreover have "0 \<le> (m + 8) mod 8" by simp
  ultimately show ?thesis by (simp add: esize_def procfs_calc_dirent_size_def m_def [symmetric])
qed

lemma espan_simps [simp]: "espan [] = 0" "espan (e # es) = esize e + espan es" "espan (es @ fs) = espan es + espan fs"
  by (simp_all add: espan_def)

lemma espan_nonneg [simp]: "0 \<le> espan es"
  by (induction es) simp_all

lemma length_fill: "length (take n (b @ replicate (n - length b) c)) = n"
  by simp

lemma length_dirent [simp]: "length (dirent t f n sz sk) = nat sz"
  unfolding dirent_def Let_def by (rule length_fill)

lemma length_ebytes [simp]: "int (length (ebytes pos es)) = espan es"
  by (induction es arbitrary: pos) simp_all

lemma fit_prefix: "\<exists>post. es = fit r es @ post"
  by (induction r es rule: fit.induct) auto

lemma espan_fit: "0 \<le> r \<Longrightarrow> espan (fit r es) \<le> r"
  by (induction r es rule: fit.induct) auto

text \<open>A program that walks a buffer of entries by their record lengths.\<close>

function walk_dirents :: "bytes \<Rightarrow> dentry list" where
  "walk_dirents b =
     (let reclen = nat (le_value (take 2 (drop 16 b))); namlen = nat (le_value (take 2 (drop 18 b)))
      in if length b < 21 \<or> reclen = 0 then []
         else (le_value (take 1 (drop 20 b)), word_of_int (le_value (take 8 b)), take namlen (drop 21 b)) #
              walk_dirents (drop reclen b))"
  by pat_completeness auto
termination
  by (relation "measure length") auto

declare walk_dirents.simps [simp del]

text \<open>The type fits a byte and the record length its 16 bits.\<close>

definition entry_ok :: "dentry \<Rightarrow> bool" where
  "entry_ok e \<longleftrightarrow> 0 \<le> fst e \<and> fst e < 256 \<and> length (snd (snd e)) < 1024"

lemma dirent_fields:
  fixes sk :: int
  assumes "entry_ok e"
  defines "b \<equiv> dirent (fst e) (fst (snd e)) (snd (snd e)) (esize e) sk"
  shows "take 8 (b @ r) = le_bytes 8 (uint (fst (snd e)))" "take 2 (drop 16 (b @ r)) = le_bytes 2 (esize e)"
    "take 2 (drop 18 (b @ r)) = le_bytes 2 (int (length (snd (snd e))))" "take 1 (drop 20 (b @ r)) = le_bytes 1 (fst e)"
    "take (length (snd (snd e))) (drop 21 (b @ r)) = snd (snd e)" "21 \<le> length b" "drop (nat (esize e)) (b @ r) = r"
proof -
  define h where "h = le_bytes 8 (uint (fst (snd e))) @ le_bytes 8 sk @ le_bytes 2 (esize e) @ le_bytes 2 (int (length (snd (snd e)))) @
    le_bytes 1 (fst e) @ snd (snd e)"
  have lh: "length h = 21 + length (snd (snd e))" by (simp add: h_def)
  have n: "length h \<le> nat (esize e)" using esize_name [of e] by (simp add: lh)
  have b: "b = h @ replicate (nat (esize e) - length h) (CHR 0x00)"
    using n by (simp add: b_def dirent_def Let_def h_def)
  show "take 8 (b @ r) = le_bytes 8 (uint (fst (snd e)))" "take 2 (drop 16 (b @ r)) = le_bytes 2 (esize e)"
    "take 2 (drop 18 (b @ r)) = le_bytes 2 (int (length (snd (snd e))))" "take 1 (drop 20 (b @ r)) = le_bytes 1 (fst e)"
    "take (length (snd (snd e))) (drop 21 (b @ r)) = snd (snd e)" "21 \<le> length b"
    unfolding b by (simp_all add: h_def del: le_bytes.simps)
  show "drop (nat (esize e)) (b @ r) = r" using n by (simp add: b)
qed

lemma walk_ebytes: "\<forall>e \<in> set es. entry_ok e \<Longrightarrow> walk_dirents (ebytes pos es) = es"
proof (induction es arbitrary: pos)
  case Nil
  then show ?case by (simp add: walk_dirents.simps)
next
  case (Cons e es)
  have ok: "entry_ok e" using Cons.prems by simp
  have s: "esize e < 65536" "0 < esize e" using esize_le [of e] esize_pos [of e] ok by (auto simp: entry_ok_def)
  have v: "nat (le_value (le_bytes 2 (esize e))) = nat (esize e)"
    "nat (le_value (le_bytes 2 (int (length (snd (snd e)))))) = length (snd (snd e))"
    "le_value (le_bytes 1 (fst e)) = fst e" "word_of_int (le_value (le_bytes 8 (uint (fst (snd e))))) = fst (snd e)"
    using s ok uint_bounded [of "fst (snd e)"] uint_ge_0 [of "fst (snd e)"] by (simp_all add: le_value_bytes entry_ok_def del: le_bytes.simps)
  define b where "b = dirent (fst e) (fst (snd e)) (snd (snd e)) (esize e) (pos + esize e)"
  define r where "r = ebytes (pos + esize e) es"
  note f = dirent_fields [OF ok, of "pos + esize e", folded b_def]
  have "\<not> length (b @ r) < 21" using f(6) by simp
  then have "walk_dirents (b @ r) = (fst e, fst (snd e), snd (snd e)) # walk_dirents r"
    using s unfolding walk_dirents.simps [of "b @ r"] f(1-5) v f(7) Let_def by (simp add: f(5))
  then show ?case using Cons.IH [of "pos + esize e"] Cons.prems by (simp add: b_def r_def)
qed

section \<open>One call\<close>

lemma copyout_fits:
  assumes "uiomove_ok um" "esize e \<le> uio_resid u"
  shows "procfs_copyout_dirent um (fst e) (fst (snd e)) (snd (snd e)) u (esize e) sk =
    ((None, uio_put (dirent (fst e) (fst (snd e)) (snd (snd e)) (esize e) sk) u), esize e)"
proof -
  define b where "b = dirent (fst e) (fst (snd e)) (snd (snd e)) (esize e) sk"
  have l: "length b = nat (esize e)" by (simp add: b_def)
  have r: "0 \<le> uio_resid u" using assms(2) esize_nonneg order_trans by blast
  have "um (b, 0) (esize e) u = (None, uio_put b u)"
    using uiomove_okD [OF assms(1), of "(b, 0)" "esize e" u] r assms(2) l
    by (simp add: in_buffer_def uiomove_ref_def min_absorb1)
  then show ?thesis using assms(2) by (simp add: procfs_copyout_dirent_def b_def)
qed

lemma emit_eq:
  "emit um startpos e s =
     (if r_next s \<ge> startpos
      then (case procfs_copyout_dirent um (fst e) (fst (snd e)) (snd (snd e)) (r_uio s) (esize e) (r_next s + esize e) of
              ((error, u), sz) \<Rightarrow>
                if error \<noteq> None \<or> sz = 0 then (True, s\<lparr> r_err := error, r_uio := u \<rparr>)
                else (False, s\<lparr> r_err := error, r_uio := u, r_num := r_num s + 1, r_next := r_next s + sz \<rparr>))
      else (False, s\<lparr> r_next := r_next s + esize e \<rparr>))"
  by (cases e) (simp add: emit_def esize_def Let_def)

lemma emit_skip: "r_next s < startpos \<Longrightarrow> emit um startpos e s = (False, s\<lparr> r_next := r_next s + esize e \<rparr>)"
  by (simp add: emit_eq)

lemma emit_fits:
  assumes "uiomove_ok um" "startpos \<le> r_next s" "esize e \<le> uio_resid (r_uio s)"
  shows "emit um startpos e s =
    (False, s\<lparr> r_err := None, r_num := r_num s + 1, r_next := r_next s + esize e,
      r_uio := uio_put (ebytes (r_next s) [e]) (r_uio s) \<rparr>)"
  using assms copyout_fits [OF assms(1,3)] esize_pos [of e] by (simp add: emit_eq)

lemma emit_full:
  assumes "startpos \<le> r_next s" "uio_resid (r_uio s) < esize e" "r_err s = None"
  shows "emit um startpos e s = (True, s)"
  using assms by (simp add: emit_eq procfs_copyout_dirent_def)

text \<open>What a run of entries does to a state at or after the start position.\<close>

definition deliver :: "dentry list \<Rightarrow> rdstate \<Rightarrow> rdstate" where
  "deliver es s =
     (let run = fit (uio_resid (r_uio s)) es
      in s\<lparr> r_next := r_next s + espan run, r_num := r_num s + length run, r_uio := uio_put (ebytes (r_next s) run) (r_uio s) \<rparr>)"

lemma emit_list_deliver:
  assumes "uiomove_ok um"
  shows "startpos \<le> r_next s \<Longrightarrow> r_err s = None \<Longrightarrow>
    emit_list um startpos es s = (fit (uio_resid (r_uio s)) es \<noteq> es, deliver es s)"
proof (induction es arbitrary: s)
  case Nil
  then show ?case by (simp add: deliver_def)
next
  case (Cons e es)
  show ?case
  proof (cases "esize e \<le> uio_resid (r_uio s)")
    case True
    let ?s = "s\<lparr> r_err := None, r_num := r_num s + 1, r_next := r_next s + esize e,
      r_uio := uio_put (ebytes (r_next s) [e]) (r_uio s) \<rparr>"
    have "startpos \<le> r_next ?s" using Cons.prems(1) esize_pos [of e] by simp
    from Cons.IH [OF this] show ?thesis
      using True Cons.prems emit_fits [OF assms Cons.prems(1) True] by (simp add: deliver_def Let_def add.assoc)
  qed (use Cons.prems emit_full [OF Cons.prems(1) _ Cons.prems(2)] in \<open>simp add: deliver_def\<close>)
qed

lemma emit_list_skip:
  "r_next s + espan pre = startpos \<Longrightarrow> emit_list um startpos (pre @ post) s = emit_list um startpos post (s\<lparr> r_next := startpos \<rparr>)"
proof (induction pre arbitrary: s)
  case (Cons e pre)
  have "r_next s < startpos" using Cons.prems esize_pos [of e] espan_nonneg [of pre] unfolding espan_simps by linarith
  then show ?case using Cons.IH [of "s\<lparr> r_next := r_next s + esize e \<rparr>"] Cons.prems by (simp add: emit_skip)
qed auto

lemma emit_list_append:
  "emit_list um startpos (es @ fs) s =
     (case emit_list um startpos es s of (True, s) \<Rightarrow> (True, s) | (False, s) \<Rightarrow> emit_list um startpos fs s)"
  by (induction es arbitrary: s) (auto split: prod.split bool.split)

text \<open>A full buffer: nothing more can be delivered.\<close>

lemma emit_list_full:
  assumes "startpos \<le> r_next s" "uio_resid (r_uio s) = 0" "r_err s = None"
  shows "emit_list um startpos es s = (es \<noteq> [], s)"
  using assms emit_full [of startpos s _ um] esize_pos by (cases es) simp_all

section \<open>The entries of a directory\<close>

text \<open>The threads a listing shows; \<open>None\<close> when the list cannot be made.\<close>

definition task_threads :: "kenv \<Rightarrow> proc \<Rightarrow> int option \<Rightarrow> int list option" where
  "task_threads k p g =
     (case procfs_thread_size_init k g of
        None \<Rightarrow> None
      | Some sz \<Rightarrow>
          (let count = count_uthreads k (p_uthlist p) 0
           in if count = 0 then Some []
              else if malloc_ok k (int count * 8) then Some (collect_tids k sz count (p_uthlist p) [])
              else None))"

definition seen_fds :: "kenv \<Rightarrow> proc \<Rightarrow> (int \<times> int) list" where
  "seen_fds k p = (if procfs_fd_layout_ok (p_fd p) \<and> malloc_ok k (fd_afterlast (p_fd p) * 8) then open_fds p else [])"

definition seen_pids :: "vop \<Rightarrow> int list" where
  "seen_pids vo =
     (if malloc_ok (vo_k vo) 4096
      then take PROCFS_MAX_PROCS (filter (visible (vo_k vo) (if check_access vo then Some (vo_cred vo) else None)) [0..PROCFS_MAX_PID])
      else [])"

definition pid_entries :: "vop \<Rightarrow> bool \<Rightarrow> pfsbaseid \<Rightarrow> int list \<Rightarrow> dentry list" where
  "pid_entries vo procdir base ids =
     List.map_filter
       (\<lambda>pid. map_option (\<lambda>name. (vtype_num VDIR, procfs_get_fileid pid PRNODE_NO_OBJECTID base, name))
          (if procdir then Some (strlcpy PROCESS_NAME_SIZE (fmt_d pid))
           else map_option (procfs_construct_process_dir_name (vo_k vo)) (proc_find_k (vo_k vo) pid))) ids"

definition dir_visible :: "vop \<Rightarrow> pfsnode \<Rightarrow> bool" where
  "dir_visible vo dir \<longleftrightarrow>
     nodeid_pid (node_id dir) = PRNODE_NO_PID \<or> \<not> check_access vo \<or>
     (case proc_find_k (vo_k vo) (nodeid_pid (node_id dir)) of None \<Rightarrow> False | Some p \<Rightarrow> may_access (vo_cred vo) p)"

definition static_entry :: "vop \<Rightarrow> pfsnode \<Rightarrow> pfssnode \<Rightarrow> dentry" where
  "static_entry vo dir sn = (static_type (psn_node_type sn), fileid_of (the (static_id vo dir sn)), psn_name sn)"

text \<open>What a child that stands for many entries contributes.\<close>

definition expand_child :: "vop \<Rightarrow> pfsnode \<Rightarrow> int option \<Rightarrow> pfssnode \<Rightarrow> dentry list" where
  "expand_child vo dir g sn =
     (let t = psn_node_type sn; pid = nodeid_pid (node_id dir); base = psn_base_node_id sn
      in if t = PFSproc \<or> t = PFSprocnamedir then pid_entries vo (t = PFSproc) base (seen_pids vo)
         else case proc_find_k (vo_k vo) pid of
                None \<Rightarrow> []
              | Some p \<Rightarrow>
                  if t = PFSthread then thread_entries pid base (case task_threads (vo_k vo) p g of None \<Rightarrow> [] | Some l \<Rightarrow> l)
                  else fd_entries pid base (seen_fds (vo_k vo) p))"

fun child_entries :: "vop \<Rightarrow> pfsnode \<Rightarrow> int option \<Rightarrow> saddr list \<Rightarrow> dentry list" where
  "child_entries vo dir g [] = []"
| "child_entries vo dir g (a # as) =
     (case snode_at (vo_ss vo) a of
        None \<Rightarrow> []
      | Some sn \<Rightarrow>
          if expands (psn_node_type sn) then expand_child vo dir g sn
          else static_entry vo dir sn # child_entries vo dir g as)"

text \<open>A sysctl directory: the two dots and the nodes with a name.\<close>

definition named_oids :: "sysctl_env \<Rightarrow> oid_addr \<Rightarrow> oid_addr list" where
  "named_oids e d = filter (\<lambda>a. oid_name (oid_at e a) \<noteq> None) (case procfs_sysctl_children e d of None \<Rightarrow> [] | Some l \<Rightarrow> l)"

definition oid_entry :: "sysctl_env \<Rightarrow> pfsbaseid \<Rightarrow> oid_addr \<Rightarrow> dentry" where
  "oid_entry e base a =
     (if oid_is_node (oid_at e a) then DT_DIR else DT_REG, procfs_get_fileid PRNODE_NO_PID a base, the (oid_name (oid_at e a)))"

definition sysctl_entries :: "vop \<Rightarrow> pfsnode \<Rightarrow> dentry list" where
  "sysctl_entries vo dir =
     map (\<lambda>name. (DT_DIR, procfs_get_node_fileid (base_of (vo_ss vo)) dir, name)) [''.'', ''..''] @
     map (oid_entry (vo_se vo) (base_of (vo_ss vo) (node_structure_node dir))) (named_oids (vo_se vo) (nodeid_objectid (node_id dir)))"

definition dir_entries :: "vop \<Rightarrow> pfsnode \<Rightarrow> int option \<Rightarrow> dentry list" where
  "dir_entries vo dir g =
     (case snode_at (vo_ss vo) (node_structure_node dir) of
        Some dsn \<Rightarrow>
          if psn_node_type dsn = PFSsysctl then sysctl_entries vo dir
          else if dir_visible vo dir then child_entries vo dir g (psn_children dsn) else []
      | None \<Rightarrow> [])"

text \<open>
  A directory that can be listed: its children are in memory and none is a root, and
  a directory of threads or descriptors belongs to a process that is there; the
  names in a sysctl directory are at most 56 bytes long.
\<close>

definition child_ok :: "vop \<Rightarrow> pfsnode \<Rightarrow> int option \<Rightarrow> pfssnode \<Rightarrow> bool" where
  "child_ok vo dir g sn \<longleftrightarrow>
     psn_node_type sn \<noteq> PFSroot \<and> static_id vo dir sn \<noteq> None \<and> length (psn_name sn) < MAX_STRUCT_NODE_NAME_LEN \<and>
     (psn_node_type sn \<in> {PFSthread, PFSfd} \<longrightarrow>
        (case proc_find_k (vo_k vo) (nodeid_pid (node_id dir)) of
           None \<Rightarrow> False
         | Some p \<Rightarrow> psn_node_type sn = PFSthread \<longrightarrow> task_threads (vo_k vo) p g \<noteq> None))"

definition children_ok :: "vop \<Rightarrow> pfsnode \<Rightarrow> int option \<Rightarrow> saddr list \<Rightarrow> bool" where
  "children_ok vo dir g as \<longleftrightarrow> (\<forall>a \<in> set as. case snode_at (vo_ss vo) a of None \<Rightarrow> False | Some sn \<Rightarrow> child_ok vo dir g sn)"

definition listable :: "vop \<Rightarrow> pfsnode \<Rightarrow> int option \<Rightarrow> bool" where
  "listable vo dir g \<longleftrightarrow>
     (case snode_at (vo_ss vo) (node_structure_node dir) of
        None \<Rightarrow> False
      | Some dsn \<Rightarrow>
          if psn_node_type dsn = PFSsysctl then \<forall>e \<in> set (sysctl_entries vo dir). length (snd (snd e)) < 57
          else children_ok vo dir g (psn_children dsn))"

lemma thread_ids_cases:
  obtains kr ids st' where
    "procfs_get_thread_ids_for_task k (Some p) g st = ((kr, ids), procfs_thread_size_init k g, st')"
    "task_threads k p g = (if kr = KERN_SUCCESS then Some (case ids of None \<Rightarrow> [] | Some l \<Rightarrow> l) else None)"
    "os_only st (if kr = KERN_SUCCESS then procfs_release_thread_ids (ids_count ids) st' else st')"
proof -
  obtain kr ids g' st' where r: "procfs_get_thread_ids_for_task k (Some p) g st = ((kr, ids), g', st')" by (metis prod.collapse)
  have "g' = procfs_thread_size_init k g"
    "task_threads k p g = (if kr = KERN_SUCCESS then Some (case ids of None \<Rightarrow> [] | Some l \<Rightarrow> l) else None)"
    using r by (auto simp: procfs_get_thread_ids_for_task_def task_threads_def OSMalloc_def Let_def split: option.splits if_splits)
  moreover have "os_only st (if kr = KERN_SUCCESS then procfs_release_thread_ids (ids_count ids) st' else st')"
    using r by (auto simp: procfs_get_thread_ids_for_task_def OSMalloc_def procfs_release_thread_ids_def OSFree_def os_only_def Let_def
        split: option.splits if_splits)
  ultimately show ?thesis using that r by blast
qed

lemma thread_size_init_idem [simp]: "procfs_thread_size_init k (procfs_thread_size_init k g) = procfs_thread_size_init k g"
  by (cases g) (simp_all add: procfs_thread_size_init_def split: option.split)

lemma task_threads_init [simp]: "task_threads k p (procfs_thread_size_init k g) = task_threads k p g"
  by (simp add: task_threads_def)

lemma pid_loop_eq:
  "pid_loop vo um startpos procdir base ids s st = (emit_list um startpos (pid_entries vo procdir base ids) s, st)"
proof (induction ids arbitrary: s)
  case (Cons pid ids)
  then show ?case
    by (cases "proc_find_k (vo_k vo) pid")
       (auto simp: pid_entries_def map_filter_Cons Let_def split: prod.split bool.split)
qed (simp add: pid_entries_def List.map_filter_def)

lemma list_procs_eq:
  "list_procs vo um startpos sn s st =
     (emit_list um startpos (pid_entries vo (psn_node_type sn = PFSproc) (psn_base_node_id sn) (seen_pids vo)) s, st)"
  by (simp add: list_procs_def get_pids_state pid_loop_eq seen_pids_def procfs_release_pids_def OSMalloc_def OSFree_def)

lemma list_threads_eq:
  assumes "proc_find_k (vo_k vo) (nodeid_pid (node_id dir)) = Some p" "task_threads (vo_k vo) p g = Some l" "r_err s = None"
  shows "\<exists>st'. list_threads vo um startpos dir sn s g st =
    (snd (emit_list um startpos (thread_entries (nodeid_pid (node_id dir)) (psn_base_node_id sn) l) s),
     procfs_thread_size_init (vo_k vo) g, st') \<and> os_only st st'"
proof -
  define h where "h = proc_hold (nodeid_pid (node_id dir)) st"
  obtain kr ids st' where r: "procfs_get_thread_ids_for_task (vo_k vo) (Some p) g h = ((kr, ids), procfs_thread_size_init (vo_k vo) g, st')"
      "task_threads (vo_k vo) p g = (if kr = KERN_SUCCESS then Some (case ids of None \<Rightarrow> [] | Some l \<Rightarrow> l) else None)"
      "os_only h (if kr = KERN_SUCCESS then procfs_release_thread_ids (ids_count ids) st' else st')"
    by (rule thread_ids_cases)
  have k: "kr = KERN_SUCCESS" "l = (case ids of None \<Rightarrow> [] | Some l \<Rightarrow> l)" using r(2) assms(2) by (auto split: if_splits)
  have e: "s\<lparr> r_err := None \<rparr> = s" using assms(3) by simp
  show ?thesis
    using os_only_rele [of "nodeid_pid (node_id dir)" st] r(1,3) k assms(1) e
    by (simp add: list_threads_def h_def [symmetric] Let_def)
qed

lemma list_fds_eq:
  assumes "proc_find_k (vo_k vo) (nodeid_pid (node_id dir)) = Some p"
  shows "list_fds vo um startpos dir sn s st =
    (snd (emit_list um startpos (fd_entries (nodeid_pid (node_id dir)) (psn_base_node_id sn) (seen_fds (vo_k vo) p)) s), st)"
  using assms
  by (auto simp: list_fds_def get_fd_list_eq seen_fds_def fd_list_of_def open_fds_empty procfs_release_fd_list_def free_k_def
      proc_hold_def proc_rele_def Let_def)

lemma access_visible:
  "\<exists>e. (if nodeid_pid (node_id dir) = PRNODE_NO_PID \<or> \<not> check_access vo then (None, st)
        else procfs_check_can_access_proc_pid (vo_k vo) (vo_cred vo) (nodeid_pid (node_id dir)) st) = (e, st) \<and>
       (e = None \<longleftrightarrow> dir_visible vo dir)"
  by (cases "proc_find_k (vo_k vo) (nodeid_pid (node_id dir))") (simp_all add: procfs_check_can_access_proc_pid_def dir_visible_def)

text \<open>A request with room left, or already past the start position.\<close>

definition running :: "int \<Rightarrow> rdstate \<Rightarrow> bool" where
  "running startpos s \<longleftrightarrow> r_err s = None \<and> 0 \<le> uio_resid (r_uio s) \<and> (0 < uio_resid (r_uio s) \<or> startpos \<le> r_next s)"

lemma running_emit:
  assumes "uiomove_ok um" "running startpos s" "emit um startpos e s = (x, s')"
  shows "running startpos s'"
proof -
  consider "r_next s < startpos" | "startpos \<le> r_next s" "esize e \<le> uio_resid (r_uio s)"
    | "startpos \<le> r_next s" "uio_resid (r_uio s) < esize e" by linarith
  then show ?thesis
  proof cases
    case 1
    then show ?thesis using assms emit_skip [OF 1] by (auto simp: running_def)
  next
    case 2
    have "int (length (ebytes (r_next s) [e])) = esize e" by (simp add: esize_nonneg)
    then show ?thesis using 2 assms emit_fits [OF assms(1) 2] esize_pos [of e] by (auto simp: running_def)
  next
    case 3
    then show ?thesis using assms emit_full [OF 3] by (auto simp: running_def)
  qed
qed

lemma running_emit_list:
  "uiomove_ok um \<Longrightarrow> running startpos s \<Longrightarrow> emit_list um startpos es s = (x, s') \<Longrightarrow> running startpos s'"
  by (induction es arbitrary: s) (auto split: prod.splits bool.splits dest: running_emit)

lemma loop_hidden:
  assumes "\<not> dir_visible vo dir" "children_ok vo dir g as" "0 < uio_resid (r_uio s)"
  shows "readdir_loop vo um startpos dir as s g st = Some ([], s, g, st)"
  using assms(2)
proof (induction as)
  case (Cons a as)
  obtain sn where sn: "snode_at (vo_ss vo) a = Some sn" "children_ok vo dir g as"
    using Cons.prems by (auto simp: children_ok_def split: option.splits)
  obtain e where acc: "(if nodeid_pid (node_id dir) = PRNODE_NO_PID \<or> \<not> check_access vo then (None, st)
        else procfs_check_can_access_proc_pid (vo_k vo) (vo_cred vo) (nodeid_pid (node_id dir)) st) = (Some e, st)"
    using access_visible [of dir vo st] assms(1) by auto
  show ?case using Cons.IH [OF sn(2)] assms(3) by (simp only: readdir_loop.simps Let_def acc sn(1)) simp
qed simp

lemma loop_full:
  "uio_resid (r_uio s) \<le> 0 \<Longrightarrow> readdir_loop vo um startpos dir as s g st = Some (as, s, g, st)"
  by (cases as) auto

lemma loop_step:
  assumes "dir_visible vo dir" "snode_at (vo_ss vo) a = Some sn" "child_ok vo dir g sn" "0 < uio_resid (r_uio s)" "r_err s = None"
  shows "if expands (psn_node_type sn)
     then \<exists>rest g' st'. readdir_loop vo um startpos dir (a # as) s g st =
            Some (rest, snd (emit_list um startpos (expand_child vo dir g sn) s), g', st') \<and>
          g' \<in> {g, procfs_thread_size_init (vo_k vo) g} \<and> os_only st st' \<and>
          (rest = [] \<longrightarrow> \<not> fst (emit_list um startpos (expand_child vo dir g sn) s))
     else readdir_loop vo um startpos dir (a # as) s g st =
       (case emit um startpos (static_entry vo dir sn) s of
          (True, s) \<Rightarrow> Some (a # as, s, g, st) | (False, s) \<Rightarrow> readdir_loop vo um startpos dir as s g st)"
proof -
  obtain i where i: "static_id vo dir sn = Some i" using assms(3) by (auto simp: child_ok_def)
  have acc: "(if nodeid_pid (node_id dir) = PRNODE_NO_PID \<or> \<not> check_access vo then (None, st)
        else procfs_check_can_access_proc_pid (vo_k vo) (vo_cred vo) (nodeid_pid (node_id dir)) st) = (None, st)"
    using access_visible [of dir vo st] assms(1) by auto
  note body = readdir_loop.simps(2) [of vo um startpos dir a as s g st, unfolded Let_def acc assms(2)]
  consider "psn_node_type sn = PFSproc \<or> psn_node_type sn = PFSprocnamedir" | "psn_node_type sn = PFSthread" | "psn_node_type sn = PFSfd"
    | "\<not> expands (psn_node_type sn)" by (auto simp: expands_def)
  then show ?thesis
  proof cases
    case 1
    then show ?thesis using assms(4) unfolding body
      by (auto simp: list_procs_eq expand_child_def expands_def Let_def split: prod.split)
  next
    case 2
    then obtain p l where p: "proc_find_k (vo_k vo) (nodeid_pid (node_id dir)) = Some p" "task_threads (vo_k vo) p g = Some l"
      using assms(3) by (auto simp: child_ok_def split: option.splits)
    show ?thesis using 2 assms(4) p list_threads_eq [OF p assms(5), of um startpos sn st] unfolding body
      by (auto simp: expand_child_def expands_def Let_def)
  next
    case 3
    then obtain p where p: "proc_find_k (vo_k vo) (nodeid_pid (node_id dir)) = Some p"
      using assms(3) by (auto simp: child_ok_def split: option.splits)
    show ?thesis using 3 assms(4) p unfolding body
      by (auto simp: list_fds_eq [OF p] expand_child_def expands_def Let_def)
  next
    case 4
    then show ?thesis using assms(3,4) i unfolding body by (auto simp: child_ok_def expands_def static_entry_def)
  qed
qed

lemma loop_entries:
  assumes "uiomove_ok um" "dir_visible vo dir"
  shows "children_ok vo dir g as \<Longrightarrow> running startpos s \<Longrightarrow>
    \<exists>rest g' st'. readdir_loop vo um startpos dir as s g st =
      Some (rest, snd (emit_list um startpos (child_entries vo dir g as) s), g', st') \<and>
      g' \<in> {g, procfs_thread_size_init (vo_k vo) g} \<and> os_only st st' \<and>
      (rest = [] \<longrightarrow> \<not> fst (emit_list um startpos (child_entries vo dir g as) s))"
proof (induction as arbitrary: s)
  case (Cons a as)
  then obtain sn where sn: "snode_at (vo_ss vo) a = Some sn" "child_ok vo dir g sn" "children_ok vo dir g as"
    by (auto simp: children_ok_def split: option.splits)
  show ?case
  proof (cases "0 < uio_resid (r_uio s)")
    case False
    then have "startpos \<le> r_next s" "uio_resid (r_uio s) = 0" "r_err s = None" using Cons.prems(2) by (auto simp: running_def)
    then show ?thesis using False by (simp add: loop_full emit_list_full del: child_entries.simps)
  next
    case True
    have e: "r_err s = None" using Cons.prems(2) by (simp add: running_def)
    note step = loop_step [OF assms(2) sn(1,2) True e, of um startpos as st]
    show ?thesis
    proof (cases "expands (psn_node_type sn)")
      case True
      then show ?thesis using step sn(1) by (simp del: readdir_loop.simps)
    next
      case False
      obtain x s' where em: "emit um startpos (static_entry vo dir sn) s = (x, s')" by (metis prod.collapse)
      show ?thesis
        using Cons.IH [OF sn(3) running_emit [OF assms(1) Cons.prems(2) em]] False step em sn(1)
        by (cases x) (simp_all del: readdir_loop.simps)
    qed
  qed
qed simp

lemma child_at_eq:
  "procfs_sysctl_child_at e d i =
     (if i < length (named_oids e d)
      then let a = named_oids e d ! i in Some (the (oid_name (oid_at e a)), oid_is_node (oid_at e a), a)
      else None)"
proof (cases "procfs_sysctl_children e d")
  case (Some l)
  have "length (child_names e l) = length (named_oids e d)"
    using Some by (auto simp: named_oids_def child_names_def List.map_filter_def)
  then show ?thesis using Some nth_child_all [of 0 i e l] by (simp add: procfs_sysctl_child_at_def named_oids_def Let_def)
qed (simp add: procfs_sysctl_child_at_def named_oids_def)

lemma sysctl_loop_entries:
  "uiomove_ok um \<Longrightarrow> running startpos s \<Longrightarrow> es = map (oid_entry e base) (drop i (named_oids e d)) \<Longrightarrow>
    \<exists>mr. sysctl_loop e um startpos d base i s = (snd (emit_list um startpos es s), mr) \<and>
      (\<not> mr \<longrightarrow> \<not> fst (emit_list um startpos es s))"
proof (induction e um startpos d base i s arbitrary: es rule: sysctl_loop.induct)
  case (1 e um startpos d base i s)
  have err: "r_err s = None" using 1(3) by (simp add: running_def)
  consider "\<not> 0 < uio_resid (r_uio s)" | "0 < uio_resid (r_uio s)" "length (named_oids e d) \<le> i"
    | "0 < uio_resid (r_uio s)" "i < length (named_oids e d)" by linarith
  then show ?case
  proof cases
    case 1
    then have "startpos \<le> r_next s" "uio_resid (r_uio s) = 0" using \<open>running startpos s\<close> by (auto simp: running_def)
    then show ?thesis using 1 err by (subst sysctl_loop.simps) (auto simp: emit_list_full)
  next
    case 2
    then show ?thesis using 1(4) err by (subst sysctl_loop.simps) (auto simp: child_at_eq)
  next
    case 3
    define a where "a = named_oids e d ! i"
    have es: "es = oid_entry e base a # map (oid_entry e base) (drop (i + 1) (named_oids e d))"
      using 1(4) 3(2) by (simp add: a_def Cons_nth_drop_Suc [symmetric])
    have c: "procfs_sysctl_child_at e d i = Some (the (oid_name (oid_at e a)), oid_is_node (oid_at e a), a)"
      using 3(2) by (simp add: child_at_eq a_def Let_def)
    obtain x s' where em: "emit um startpos (oid_entry e base a) s = (x, s')" by (metis prod.collapse)
    have r: "running startpos s'" by (rule running_emit [OF 1(2,3) em])
    have em': "emit um startpos (if oid_is_node (oid_at e a) then DT_DIR else DT_REG, procfs_get_fileid PRNODE_NO_PID a base,
        the (oid_name (oid_at e a))) s = (x, s')"
      using em by (simp add: oid_entry_def)
    have step: "sysctl_loop e um startpos d base i s = (if x then (s', True) else sysctl_loop e um startpos d base (i + 1) s')"
      using 3(1) err c em' by (subst sysctl_loop.simps) (simp split: bool.split)
    show ?thesis
    proof (cases x)
      case True
      then show ?thesis using step em es by auto
    next
      case False
      have "r_err s = None \<and> 0 < uio_resid (r_uio s)" using err 3(1) by simp
      from 1(1) [OF this c refl refl _ _ 1(2) r refl] em' False show ?thesis using step em es by simp
    qed
  qed
qed

text \<open>The state after a call at the boundary behind \<open>pre\<close>.\<close>

definition listed :: "dentry list \<Rightarrow> dentry list \<Rightarrow> uio \<Rightarrow> rdstate" where
  "listed pre post u = deliver post ((start_readdir u)\<lparr> r_next := espan pre \<rparr>)"

lemma start_entries:
  "uiomove_ok um \<Longrightarrow> emit_list um (espan pre) (pre @ post) (start_readdir u) = (fit (uio_resid u) post \<noteq> post, listed pre post u)"
  using emit_list_skip [of "start_readdir u" pre "espan pre" um post]
    emit_list_deliver [of um "espan pre" "(start_readdir u)\<lparr> r_next := espan pre \<rparr>" post]
  by (simp add: listed_def start_readdir_def)

lemma start_running: "0 < uio_resid u \<Longrightarrow> running startpos (start_readdir u)"
  by (simp add: start_readdir_def running_def)

text \<open>What a call at an entry boundary has to answer.\<close>

definition call_answers :: "dentry list \<Rightarrow> dentry list \<Rightarrow> uio \<Rightarrow> rdresult \<Rightarrow> bool" where
  "call_answers pre post u r \<longleftrightarrow>
     rd_error r = None \<and> rd_uio r = uio_put (ebytes (espan pre) (fit (uio_resid u) post)) u \<and>
     rd_count r = length (fit (uio_resid u) post) \<and> (rd_eof r \<longrightarrow> fit (uio_resid u) post = post)"

lemma finish_listed:
  assumes "uio_offset u = espan pre" "eof \<longrightarrow> fit (uio_resid u) post = post"
  shows "call_answers pre post u (finish_readdir (listed pre post u) eof)"
  using assms by (cases u) (simp add: call_answers_def finish_readdir_def listed_def deliver_def start_readdir_def Let_def uio_put_def)

lemma sysctl_call:
  assumes "uiomove_ok um" "sysctl_entries vo dir = pre @ post" "uio_offset u = espan pre" "0 < uio_resid u"
  shows "call_answers pre post u (procfs_sysctl_readdir vo um dir u)"
proof -
  define f where "f = procfs_get_node_fileid (base_of (vo_ss vo)) dir"
  define dots where "dots = [(DT_DIR, f, ''.''), (DT_DIR, f, ''..'')]"
  define es where "es = map (oid_entry (vo_se vo) (base_of (vo_ss vo) (node_structure_node dir))) (named_oids (vo_se vo) (nodeid_objectid (node_id dir)))"
  have all: "pre @ post = dots @ es" using assms(2) by (simp add: sysctl_entries_def dots_def es_def f_def)
  obtain x s where d: "emit_list um (espan pre) dots (start_readdir u) = (x, s)" by (metis prod.collapse)
  have r: "running (espan pre) s"
    using running_emit_list [OF assms(1) start_running [OF assms(4)] d] .
  have em: "emit_list um (espan pre) (dots @ es) (start_readdir u) = (fit (uio_resid u) post \<noteq> post, listed pre post u)"
    using start_entries [OF assms(1), of pre post u] all by simp
  show ?thesis
  proof (cases x)
    case True
    then have "s = listed pre post u" using em d by (simp add: emit_list_append)
    moreover have "procfs_sysctl_readdir vo um dir u = finish_readdir s False"
      using d True assms(3) by (simp add: procfs_sysctl_readdir_def dots_def f_def Let_def)
    ultimately show ?thesis using finish_listed [OF assms(3), of False post] by simp
  next
    case False
    then have es: "emit_list um (espan pre) es s = (fit (uio_resid u) post \<noteq> post, listed pre post u)"
      using em d by (simp add: emit_list_append)
    obtain mr where l: "sysctl_loop (vo_se vo) um (espan pre) (nodeid_objectid (node_id dir)) (base_of (vo_ss vo) (node_structure_node dir)) 0 s =
        (listed pre post u, mr)" "\<not> mr \<longrightarrow> fit (uio_resid u) post = post"
      using sysctl_loop_entries [OF assms(1) r, of es "vo_se vo" "base_of (vo_ss vo) (node_structure_node dir)" 0 "nodeid_objectid (node_id dir)"] es
      by (auto simp: es_def [symmetric])
    have "procfs_sysctl_readdir vo um dir u = finish_readdir (listed pre post u) (r_err (listed pre post u) = None \<and> \<not> mr)"
      using d False assms(3) l(1) by (simp add: procfs_sysctl_readdir_def dots_def f_def Let_def)
    then show ?thesis using finish_listed [OF assms(3)] l(2) by simp
  qed
qed

lemma plain_call:
  assumes "uiomove_ok um" "plain_dir vo dir dsn" "listable vo dir g" "dir_entries vo dir g = pre @ post" "uio_offset u = espan pre" "0 < uio_resid u"
  shows "\<exists>r g' st'. procfs_vnop_readdir vo um VDIR dir u g st = (Some (Inr r), g', st') \<and> call_answers pre post u r \<and>
    g' \<in> {g, procfs_thread_size_init (vo_k vo) g} \<and> os_only st st'"
proof -
  have d: "snode_at (vo_ss vo) (node_structure_node dir) = Some dsn" "psn_node_type dsn \<noteq> PFSsysctl"
      "children_ok vo dir g (psn_children dsn)"
    using assms(2,3) by (auto simp: plain_dir_def listable_def)
  have "\<exists>rest g' st'. readdir_loop vo um (espan pre) dir (psn_children dsn) (start_readdir u) g st = Some (rest, listed pre post u, g', st') \<and>
      g' \<in> {g, procfs_thread_size_init (vo_k vo) g} \<and> os_only st st' \<and> (rest = [] \<longrightarrow> fit (uio_resid u) post = post)"
  proof (cases "dir_visible vo dir")
    case True
    then have "child_entries vo dir g (psn_children dsn) = pre @ post" using assms(4) d(1,2) by (simp add: dir_entries_def)
    then show ?thesis
      using loop_entries [OF assms(1) True d(3) start_running [OF assms(6)], of "espan pre" st] start_entries [OF assms(1), of pre post u] by simp
  next
    case False
    then have "pre @ post = []" using assms(4) d(1,2) by (simp add: dir_entries_def)
    then show ?thesis using loop_hidden [OF False d(3), of "start_readdir u" um "espan pre" st] assms(6)
      by (auto simp: listed_def deliver_def start_readdir_def)
  qed
  then show ?thesis
    using d finish_listed [OF assms(5)] assms(5) by (fastforce simp: procfs_vnop_readdir_def)
qed

lemma readdir_call:
  assumes "uiomove_ok um" "listable vo dir g" "dir_entries vo dir g = pre @ post" "uio_offset u = espan pre" "0 < uio_resid u"
  shows "\<exists>r g' st'. procfs_vnop_readdir vo um VDIR dir u g st = (Some (Inr r), g', st') \<and> call_answers pre post u r \<and>
    g' \<in> {g, procfs_thread_size_init (vo_k vo) g} \<and> os_only st st'"
proof -
  obtain dsn where d: "snode_at (vo_ss vo) (node_structure_node dir) = Some dsn"
    using assms(2) by (auto simp: listable_def split: option.splits)
  show ?thesis
  proof (cases "psn_node_type dsn = PFSsysctl")
    case True
    then show ?thesis using sysctl_call [OF assms(1) _ assms(4,5), of vo dir post] assms(3) d
      by (simp add: dir_entries_def procfs_vnop_readdir_def)
  qed (use plain_call [OF assms(1) _ assms(2-5), of dsn] d in \<open>simp add: plain_dir_def\<close>)
qed

text \<open>Listing a directory in pieces, each call at the offset the last one left.\<close>

fun read_dir :: "vop \<Rightarrow> uiomove_fn \<Rightarrow> pfsnode \<Rightarrow> int list \<Rightarrow> int \<Rightarrow> int option \<Rightarrow> kst \<Rightarrow> dentry list option" where
  "read_dir vo um dir [] off g st = Some []"
| "read_dir vo um dir (n # ns) off g st =
     (case procfs_vnop_readdir vo um VDIR dir \<lparr> uio_offset = off, uio_resid = n, uio_out = [] \<rparr> g st of
        (Some (Inr r), g, st) \<Rightarrow>
          if rd_error r = None
          then map_option ((@) (walk_dirents (uio_out (rd_uio r)))) (read_dir vo um dir ns (uio_offset (rd_uio r)) g st)
          else None
      | _ \<Rightarrow> None)"

lemma listing_stable:
  assumes "g' \<in> {g, procfs_thread_size_init (vo_k vo) g}"
  shows "dir_entries vo dir g' = dir_entries vo dir g" "listable vo dir g' = listable vo dir g"
proof -
  have t: "task_threads (vo_k vo) p g' = task_threads (vo_k vo) p g" for p using assms by auto
  have e: "expand_child vo dir g' sn = expand_child vo dir g sn" for sn
    unfolding expand_child_def t ..
  have c: "child_entries vo dir g' as = child_entries vo dir g as" for as
    by (induction as) (simp_all add: e split: option.split)
  show "dir_entries vo dir g' = dir_entries vo dir g" unfolding dir_entries_def c ..
  have k: "child_ok vo dir g' sn = child_ok vo dir g sn" for sn
    unfolding child_ok_def t ..
  show "listable vo dir g' = listable vo dir g" unfolding listable_def children_ok_def k ..
qed

definition small_entry :: "dentry \<Rightarrow> bool" where
  "small_entry e \<longleftrightarrow> entry_ok e \<and> esize e \<le> 88"

lemma short_entry: "0 \<le> t \<Longrightarrow> t < 256 \<Longrightarrow> length n < 57 \<Longrightarrow> small_entry (t, f, n)"
  using esize_le [of "(t, f, n)"] by (simp add: small_entry_def entry_ok_def)

lemma dynamic_name_short: "length (strlcpy PROCESS_NAME_SIZE s) < 40" "length (procfs_construct_process_dir_name k p) < 57"
proof -
  have n: "length (strlcpy PROCESS_NAME_SIZE s) < 40" for s
    using length_strlcpy [of PROCESS_NAME_SIZE s] by (simp add: PROCESS_NAME_SIZE_def MAXCOMLEN_def PID_SIZE_def PAD_SIZE_def)
  then show "length (strlcpy PROCESS_NAME_SIZE s) < 40" .
  show "length (procfs_construct_process_dir_name k p) < 57"
    using n [of "fmt_d (p_pid p) @ '' ''"] length_strlcpy [of "MAXCOMLEN + 1" "proc_name_k k (p_pid p)"]
    by (simp add: procfs_construct_process_dir_name_def MAXCOMLEN_def)
qed

lemma expand_child_short: "e \<in> set (expand_child vo dir g sn) \<Longrightarrow> small_entry e"
  using dynamic_name_short(2) less_trans [OF dynamic_name_short(1), of 57]
  by (auto simp: expand_child_def pid_entries_def thread_entries_def fd_entries_def set_map_filter Let_def
      intro!: short_entry split: if_splits option.splits)

lemma static_entry_short: "child_ok vo dir g sn \<Longrightarrow> small_entry (static_entry vo dir sn)"
  unfolding static_entry_def
  by (rule short_entry) (auto simp: child_ok_def static_type_def DT_DIR_def DT_LNK_def DT_REG_def MAX_STRUCT_NODE_NAME_LEN_def)

lemma child_entries_short: "children_ok vo dir g as \<Longrightarrow> e \<in> set (child_entries vo dir g as) \<Longrightarrow> small_entry e"
proof (induction as)
  case (Cons a as)
  then obtain sn where sn: "snode_at (vo_ss vo) a = Some sn" "child_ok vo dir g sn" "children_ok vo dir g as"
    by (auto simp: children_ok_def split: option.splits)
  show ?case using Cons.IH [OF sn(3)] Cons.prems(2) sn(1) static_entry_short [OF sn(2)] expand_child_short
    by (cases "expands (psn_node_type sn)") auto
qed simp

lemma sysctl_entry_short: "e \<in> set (sysctl_entries vo dir) \<Longrightarrow> length (snd (snd e)) < 57 \<Longrightarrow> small_entry e"
  by (auto simp: sysctl_entries_def oid_entry_def DT_DIR_def DT_REG_def intro!: short_entry)

lemma entries_short: "listable vo dir g \<Longrightarrow> e \<in> set (dir_entries vo dir g) \<Longrightarrow> small_entry e"
  using sysctl_entry_short [of e vo dir]
  by (auto simp: listable_def dir_entries_def intro: child_entries_short split: option.splits if_splits)

lemma read_dir_from:
  assumes "uiomove_ok um" "\<forall>n \<in> set ns. 88 \<le> n" "listable vo dir g" "dir_entries vo dir g = pre @ post" "length post \<le> length ns"
  shows "read_dir vo um dir ns (espan pre) g st = Some post"
  using assms(2-5)
proof (induction ns arbitrary: pre post g st)
  case (Cons n ns)
  define u where "u = \<lparr> uio_offset = espan pre, uio_resid = n, uio_out = [] \<rparr>"
  obtain post' where p: "post = fit n post @ post'" using fit_prefix by blast
  have sh: "\<forall>e \<in> set (pre @ post). entry_ok e \<and> esize e \<le> 88" using entries_short [OF Cons.prems(2)] Cons.prems(3) by (simp add: small_entry_def)
  have n: "88 \<le> n" using Cons.prems(1) by simp
  have l: "length post' \<le> length ns"
  proof (cases post)
    case (Cons e es)
    then have "esize e \<le> n" using sh n by fastforce
    then have "fit n post \<noteq> []" using Cons by simp
    then have "length post' < length post" using arg_cong [OF p, of length] by simp
    then show ?thesis using Cons.prems(4) by simp
  qed (use p in simp)
  obtain r g' st' where c: "procfs_vnop_readdir vo um VDIR dir u g st = (Some (Inr r), g', st')" "rd_error r = None"
      "rd_uio r = uio_put (ebytes (espan pre) (fit n post)) u" "g' \<in> {g, procfs_thread_size_init (vo_k vo) g}"
    using readdir_call [OF assms(1) Cons.prems(2,3), of u st] n by (auto simp: u_def call_answers_def)
  have w: "walk_dirents (ebytes (espan pre) (fit n post)) = fit n post"
    by (rule walk_ebytes) (use sh p in \<open>metis UnCI set_append\<close>)
  have "read_dir vo um dir ns (espan (pre @ fit n post)) g' st' = Some post'"
    using Cons.IH [of g' "pre @ fit n post" post' st'] Cons.prems p l listing_stable [OF c(4), of dir] by simp
  then show ?case using c w p by (simp add: u_def [symmetric]) (simp add: u_def)
qed simp

section \<open>Listed names are found\<close>

text \<open>Conditions on the children of a directory: distinct names, none starting with a digit, the dots named so.\<close>

fun named_children :: "sstate \<Rightarrow> saddr list \<Rightarrow> bool" where
  "named_children ss [] = True"
| "named_children ss (a # as) \<longleftrightarrow>
     (case snode_at ss a of
        None \<Rightarrow> False
      | Some sn \<Rightarrow>
          psn_name sn \<noteq> [] \<and> \<not> isdigit (hd (psn_name sn)) \<and>
          (psn_node_type sn \<in> {PFSdirthis, PFSdirparent} \<longrightarrow> psn_name sn \<in> {''.'', ''..''}) \<and>
          (\<forall>b \<in> set as. case snode_at ss b of None \<Rightarrow> False | Some m \<Rightarrow> psn_name m \<noteq> psn_name sn)) \<and>
     named_children ss as"

text \<open>
  A directory of processes has no object id, and one of threads or descriptors has a
  process; thread ids fit 31 bits.
\<close>

definition dynamic_ok :: "vop \<Rightarrow> pfsnode \<Rightarrow> int option \<Rightarrow> pfssnode \<Rightarrow> bool" where
  "dynamic_ok vo dir g sn \<longleftrightarrow>
     (psn_node_type sn \<in> {PFSproc, PFSprocnamedir} \<longrightarrow> nodeid_objectid (node_id dir) = PRNODE_NO_OBJECTID) \<and>
     (psn_node_type sn \<in> {PFSthread, PFSfd} \<longrightarrow> nodeid_pid (node_id dir) \<noteq> PRNODE_NO_PID) \<and>
     (psn_node_type sn = PFSthread \<longrightarrow>
        (case proc_find_k (vo_k vo) (nodeid_pid (node_id dir)) of
           None \<Rightarrow> True
         | Some p \<Rightarrow> \<forall>x \<in> set (case task_threads (vo_k vo) p g of None \<Rightarrow> [] | Some l \<Rightarrow> l). 0 \<le> x \<and> x < 2 ^ 31))"

definition dynamics_ok :: "vop \<Rightarrow> pfsnode \<Rightarrow> int option \<Rightarrow> saddr list \<Rightarrow> bool" where
  "dynamics_ok vo dir g as \<longleftrightarrow>
     list_all (\<lambda>a. case snode_at (vo_ss vo) a of None \<Rightarrow> True | Some sn \<Rightarrow> dynamic_ok vo dir g sn) as"

definition finds_pid :: "kenv \<Rightarrow> bool" where
  "finds_pid k \<longleftrightarrow> (\<forall>pid p. proc_find_k k pid = Some p \<longrightarrow> p_pid p = pid)"

lemma number_name:
  assumes "0 \<le> n" "n < 2 ^ 31"
  shows "strlcpy PROCESS_NAME_SIZE (fmt_d n) = fmt_d n" "procfs_atoi (fmt_d n) = (n, [])" "isdigit (hd (fmt_d n))" "plain_name (fmt_d n)"
    "procfs_atoi (fmt_d n @ '' '' @ s) = (n, '' '' @ s)" "strlcpy PROCESS_NAME_SIZE (fmt_d n @ '' '') = fmt_d n @ '' ''"
proof -
  have f: "fmt_d n = nat_to_base 10 (nat n)" using assms(1) by (simp add: fmt_d_def fmt_u_def)
  have l: "length (fmt_d n) \<le> 11" using assms by (intro length_fmt_d32) simp_all
  show "strlcpy PROCESS_NAME_SIZE (fmt_d n) = fmt_d n" "strlcpy PROCESS_NAME_SIZE (fmt_d n @ '' '') = fmt_d n @ '' ''"
    using l by (auto intro!: strlcpy_id simp: PROCESS_NAME_SIZE_def MAXCOMLEN_def PID_SIZE_def PAD_SIZE_def)
  show "procfs_atoi (fmt_d n) = (n, [])" "procfs_atoi (fmt_d n @ '' '' @ s) = (n, '' '' @ s)"
    using atoi_print [OF assms, of "[]"] atoi_print [OF assms, of "'' '' @ s"] assms(1) by (simp_all add: fmt_d_def isdigit_def)
  show d: "isdigit (hd (fmt_d n))" unfolding f by (rule nat_to_base10_digits [of _ "nat n"]) simp
  then have "fmt_d n \<noteq> ''.''" by (auto simp: isdigit_def)
  then show "plain_name (fmt_d n)" using l by (auto simp: plain_name_def NAME_MAX_def f)
qed

lemma first_entry_digit:
  assumes "named_children ss as" "isdigit (hd name)"
  shows "first_entry ss name as =
    (case find (\<lambda>a. case snode_at ss a of None \<Rightarrow> False | Some sn \<Rightarrow> expands (psn_node_type sn)) as of
       None \<Rightarrow> None | Some a \<Rightarrow> map_option (Pair a) (snode_at ss a))"
  using assms(1)
proof (induction as)
  case (Cons a as)
  then obtain sn where "snode_at ss a = Some sn" "\<not> isdigit (hd (psn_name sn))" by (auto split: option.splits)
  then show ?case using Cons assms(2) by auto
qed simp

lemma entry_cases:
  assumes "named_children (vo_ss vo) as" "e \<in> set (child_entries vo dir g as)"
  obtains a sn where "first_entry (vo_ss vo) (snd (snd e)) as = Some (a, sn)" "\<not> expands (psn_node_type sn)" "e = static_entry vo dir sn"
  | a sn where "find (\<lambda>a. case snode_at (vo_ss vo) a of None \<Rightarrow> False | Some sn \<Rightarrow> expands (psn_node_type sn)) as = Some a"
      "snode_at (vo_ss vo) a = Some sn" "a \<in> set as" "expands (psn_node_type sn)" "e \<in> set (expand_child vo dir g sn)"
      "\<not> isdigit (hd (psn_name sn))"
  using assms
proof (induction as arbitrary: thesis)
  case (Cons a as)
  then obtain sn where sn: "snode_at (vo_ss vo) a = Some sn" "\<not> isdigit (hd (psn_name sn))" "named_children (vo_ss vo) as"
      "\<forall>b \<in> set as. case snode_at (vo_ss vo) b of None \<Rightarrow> False | Some m \<Rightarrow> psn_name m \<noteq> psn_name sn"
    by (auto split: option.splits)
  consider "expands (psn_node_type sn)" | "\<not> expands (psn_node_type sn)" "e = static_entry vo dir sn"
    | "\<not> expands (psn_node_type sn)" "e \<in> set (child_entries vo dir g as)" using Cons.prems(4) sn(1) by (auto split: if_splits)
  then show ?case
  proof cases
    case 1
    then show ?thesis using Cons.prems(2) [of a sn] Cons.prems(4) sn(1,2) by simp
  next
    case 2
    then show ?thesis using Cons.prems(1) [of a sn] sn(1) by (simp add: static_entry_def)
  next
    case 3
    show ?thesis
    proof (rule Cons.IH [OF _ _ sn(3) 3(2)])
      fix b m assume b: "first_entry (vo_ss vo) (snd (snd e)) as = Some (b, m)" "\<not> expands (psn_node_type m)" "e = static_entry vo dir m"
      then have "b \<in> set as \<and> snode_at (vo_ss vo) b = Some m" by (induction as) (auto split: option.splits if_splits)
      then have "psn_name m \<noteq> psn_name sn" using sn(4) by auto
      then show thesis using Cons.prems(1) [of b m] b sn(1) 3(1) by (simp add: static_entry_def)
    next
      fix b m assume "find (\<lambda>a. case snode_at (vo_ss vo) a of None \<Rightarrow> False | Some sn \<Rightarrow> expands (psn_node_type sn)) as = Some b"
        "snode_at (vo_ss vo) b = Some m" "b \<in> set as" "expands (psn_node_type m)" "e \<in> set (expand_child vo dir g m)"
        "\<not> isdigit (hd (psn_name m))"
      then show thesis using Cons.prems(2) [of b m] sn(1) 3(1) by simp
    qed
  qed
qed simp

lemma lookup_dynamic:
  assumes "plain_dir vo dir dsn" "plain_name name" "first_entry (vo_ss vo) name (psn_children dsn) = Some (a, sn)"
    "psn_name sn \<noteq> name" "expands (psn_node_type sn)" "procfs_atoi name = (num, endp)" "num \<noteq> - 1"
    "psn_node_type sn \<in> {PFSproc, PFSthread} \<longrightarrow> endp = []"
  shows "procfs_vnop_lookup vo (Some (v, VDIR, Some dir)) name False g st =
    (case (if psn_node_type sn = PFSfd then (case match_fd vo dir name a sn st of (r, st) \<Rightarrow> (r, g, st))
           else match_numeric vo dir name a sn num g st) of
       ((r, tgt), g, st) \<Rightarrow> (finish_match r, g, release_target tgt st))"
proof -
  obtain bs where "match_children vo dir name (psn_children dsn) g st = match_children vo dir name (a # bs) g st"
      "snode_at (vo_ss vo) a = Some sn"
    using match_first [OF assms(3)] by blast
  then show ?thesis using lookup_plain [OF assms(1,2)] assms(4-8) by (auto simp: expands_def)
qed

lemma seen_pid:
  assumes "pid \<in> set (seen_pids vo)"
  obtains p where "proc_find_k (vo_k vo) pid = Some p" "0 \<le> pid" "pid < 2 ^ 31" "may_see vo p"
proof -
  have "visible (vo_k vo) (if check_access vo then Some (vo_cred vo) else None) pid" "0 \<le> pid" "pid \<le> PROCFS_MAX_PID"
    using assms by (auto simp: seen_pids_def split: if_splits dest!: in_set_takeD)
  then show thesis using that by (auto simp: visible_def may_see_def PROCFS_MAX_PID_def split: option.splits if_splits)
qed

lemma match_numeric_found:
  assumes "proc_find_k (vo_k vo) (nodeid_pid (numeric_id dir sn num)) = Some p" "may_see vo p"
    "psn_node_type sn = PFSprocnamedir \<longrightarrow> name = procfs_construct_process_dir_name (vo_k vo) p"
    "psn_node_type sn = PFSthread \<longrightarrow>
       (\<exists>l. task_threads (vo_k vo) p g = Some l \<and> (\<exists>x \<in> set l. word_of_int x = nodeid_objectid (numeric_id dir sn num)))"
  shows "fst (fst (match_numeric vo dir name a sn num g st)) = M_node a (numeric_id dir sn num)"
proof -
  define nid where "nid = numeric_id dir sn num"
  define h where "h = proc_hold (nodeid_pid nid) st"
  have t: "fst (match_thread vo p nid g h)" if "psn_node_type sn = PFSthread"
  proof -
    obtain kr ids st' where r: "procfs_get_thread_ids_for_task (vo_k vo) (Some p) g h = ((kr, ids), procfs_thread_size_init (vo_k vo) g, st')"
        "task_threads (vo_k vo) p g = (if kr = KERN_SUCCESS then Some (case ids of None \<Rightarrow> [] | Some l \<Rightarrow> l) else None)"
      by (rule thread_ids_cases)
    then show ?thesis using assms(4) that by (auto simp: match_thread_def nid_def split: if_splits)
  qed
  show ?thesis
    using assms(1-3) t
    by (auto simp: match_numeric_def nid_def [symmetric] h_def [symmetric] may_see_def Let_def case_prod_beta)
qed

lemma match_fd_found:
  assumes "proc_find_k (vo_k vo) (nodeid_pid (node_id dir)) = Some p" "num \<in> fst ` set (seen_fds (vo_k vo) p)" "procfs_atoi name = (num, endp)"
    "num \<noteq> - 1"
  shows "fst (fst (match_fd vo dir name a sn st)) =
    M_node a \<lparr> nodeid_pid = nodeid_pid (node_id dir), nodeid_objectid = word_of_int num, nodeid_base_id = psn_base_node_id sn \<rparr>"
  using assms by (auto simp: match_fd_def get_fd_list_eq seen_fds_def fd_list_of_def open_fds_empty Let_def split: if_splits)

lemma seen_fd_range: "fd \<in> fst ` set (seen_fds k p) \<Longrightarrow> 0 \<le> fd \<and> fd < 2 ^ 31"
  by (auto simp: seen_fds_def open_fds_def set_map_filter fd_info_def procfs_fd_layout_ok_def PROCFS_FD_NFILES_MAX_def split: if_splits)

text \<open>The number a listed dynamic name carries, and the node it stands for.\<close>

lemma expanded_entry:
  assumes "e \<in> set (expand_child vo dir g sn)" "expands (psn_node_type sn)" "child_ok vo dir g sn" "dynamic_ok vo dir g sn"
    "dir_visible vo dir" "finds_pid (vo_k vo)"
  obtains num endp where "procfs_atoi (snd (snd e)) = (num, endp)" "0 \<le> num" "isdigit (hd (snd (snd e)))" "plain_name (snd (snd e))"
    "psn_node_type sn \<in> {PFSproc, PFSthread} \<longrightarrow> endp = []"
    "\<And>a st. (if psn_node_type sn = PFSfd then fst (fst (match_fd vo dir (snd (snd e)) a sn st))
             else fst (fst (match_numeric vo dir (snd (snd e)) a sn num g st))) =
       M_node a (if psn_node_type sn = PFSfd
                 then \<lparr> nodeid_pid = nodeid_pid (node_id dir), nodeid_objectid = word_of_int num, nodeid_base_id = psn_base_node_id sn \<rparr>
                 else numeric_id dir sn num)"
    "fst (snd e) = fileid_of (if psn_node_type sn = PFSfd
                 then \<lparr> nodeid_pid = nodeid_pid (node_id dir), nodeid_objectid = word_of_int num, nodeid_base_id = psn_base_node_id sn \<rparr>
                 else numeric_id dir sn num)"
proof -
  let ?pid = "nodeid_pid (node_id dir)"
  consider "psn_node_type sn = PFSproc" | "psn_node_type sn = PFSprocnamedir" | "psn_node_type sn = PFSthread" | "psn_node_type sn = PFSfd"
    using assms(2) by (auto simp: expands_def)
  then show thesis
  proof cases
    case 1
    then obtain pid where pid: "pid \<in> set (seen_pids vo)"
        "e = (vtype_num VDIR, procfs_get_fileid pid PRNODE_NO_OBJECTID (psn_base_node_id sn), strlcpy PROCESS_NAME_SIZE (fmt_d pid))"
      using assms(1) by (auto simp: expand_child_def pid_entries_def set_map_filter)
    obtain p where p: "proc_find_k (vo_k vo) pid = Some p" "0 \<le> pid" "pid < 2 ^ 31" "may_see vo p" using pid(1) by (rule seen_pid)
    have o: "nodeid_objectid (node_id dir) = PRNODE_NO_OBJECTID" using assms(4) 1 by (simp add: dynamic_ok_def)
    show thesis
      by (rule that [of pid "[]"])
         (use 1 pid(2) p o number_name [OF p(2,3)] match_numeric_found [of vo dir sn pid p]
          in \<open>simp_all add: numeric_id_def fileid_of_def\<close>)
  next
    case 2
    then obtain pid p' where pid: "pid \<in> set (seen_pids vo)" "proc_find_k (vo_k vo) pid = Some p'"
        "e = (vtype_num VDIR, procfs_get_fileid pid PRNODE_NO_OBJECTID (psn_base_node_id sn), procfs_construct_process_dir_name (vo_k vo) p')"
      using assms(1) by (auto simp: expand_child_def pid_entries_def set_map_filter)
    obtain p where p: "proc_find_k (vo_k vo) pid = Some p" "0 \<le> pid" "pid < 2 ^ 31" "may_see vo p" using pid(1) by (rule seen_pid)
    have o: "nodeid_objectid (node_id dir) = PRNODE_NO_OBJECTID" using assms(4) 2 by (simp add: dynamic_ok_def)
    define c where "c = strlcpy (MAXCOMLEN + 1) (proc_name_k (vo_k vo) pid)"
    have n: "procfs_construct_process_dir_name (vo_k vo) p = fmt_d pid @ '' '' @ c"
      using assms(6) p(1) number_name(6) [OF p(2,3)] by (auto simp: procfs_construct_process_dir_name_def finds_pid_def c_def)
    have h: "hd (fmt_d pid @ '' '' @ c) = hd (fmt_d pid)" using number_name(4) [OF p(2,3)] by (simp add: plain_name_def hd_append)
    have l: "plain_name (fmt_d pid @ '' '' @ c)"
      using dynamic_name_short(2) [of "vo_k vo" p] number_name(4) [OF p(2,3)] by (auto simp: n plain_name_def NAME_MAX_def append_eq_Cons_conv)
    show thesis
      by (rule that [of pid "'' '' @ c"])
         (use 2 pid p o h l n number_name [OF p(2,3)] match_numeric_found [of vo dir sn pid p "fmt_d pid @ '' '' @ c"]
          in \<open>simp_all add: numeric_id_def fileid_of_def\<close>)
  next
    case 3
    then obtain p l where p: "proc_find_k (vo_k vo) ?pid = Some p" "task_threads (vo_k vo) p g = Some l"
      using assms(3) by (auto simp: child_ok_def split: option.splits)
    then obtain x where x: "x \<in> set l"
        "e = (vtype_num VDIR, procfs_get_fileid ?pid (word_of_int x) (psn_base_node_id sn), strlcpy PROCESS_NAME_SIZE (fmt_d (to_int64 x)))"
      using assms(1) 3 by (auto simp: expand_child_def thread_entries_def)
    have r: "0 \<le> x" "x < 2 ^ 31" "?pid \<noteq> PRNODE_NO_PID" using assms(4) 3 p x(1) by (auto simp: dynamic_ok_def)
    have i: "to_int64 x = x" using r by (intro to_int64_id) simp_all
    have s: "may_see vo p" using assms(5) r(3) p(1) by (auto simp: dir_visible_def may_see_def)
    have m: "fst (fst (match_numeric vo dir name a sn x g st)) = M_node a (numeric_id dir sn x)" for name a st
      by (rule match_numeric_found [of _ _ _ _ p]) (use 3 x(1) p s in \<open>auto simp: numeric_id_def\<close>)
    show thesis
      by (rule that [of x "[]"]) (use 3 x i number_name [OF r(1,2)] r(1) m in \<open>simp_all add: numeric_id_def fileid_of_def\<close>)
  next
    case 4
    then obtain p where p: "proc_find_k (vo_k vo) ?pid = Some p"
      using assms(3) by (auto simp: child_ok_def split: option.splits)
    then obtain x where x: "x \<in> fst ` set (seen_fds (vo_k vo) p)"
        "e = (vtype_num VDIR, procfs_get_fileid ?pid (word_of_int x) (psn_base_node_id sn), strlcpy PROCESS_NAME_SIZE (fmt_d x))"
      using assms(1) 4 by (auto simp: expand_child_def fd_entries_def)
    have r: "0 \<le> x" "x < 2 ^ 31" using seen_fd_range [OF x(1)] by auto
    show thesis
      by (rule that [of x "[]"])
         (use 4 x p number_name [OF r] r match_fd_found [OF p x(1)] in \<open>simp_all add: fileid_of_def\<close>)
  qed
qed

lemma first_entry_in: "first_entry ss name as = Some (a, sn) \<Longrightarrow> a \<in> set as \<and> snode_at ss a = Some sn"
  by (induction as) (auto split: option.splits if_splits)

lemma named_child:
  "named_children ss as \<Longrightarrow> a \<in> set as \<Longrightarrow> snode_at ss a = Some sn \<Longrightarrow>
    psn_name sn \<noteq> [] \<and> (psn_node_type sn \<in> {PFSdirthis, PFSdirparent} \<longrightarrow> psn_name sn \<in> {''.'', ''..''})"
  by (induction as) (auto split: option.splits)

text \<open>
  C10: reading a directory in pieces, with room for at least one entry in each call
  and calling often enough, delivers every entry exactly once and in order: the
  program that walks the buffers by record length gets the entries of the
  directory. Every name is at most 56 bytes long, so 88 bytes are room for any entry.
\<close>

theorem readdir_complete:
  assumes "uiomove_ok um" "\<forall>n \<in> set ns. 88 \<le> n" "listable vo dir g" "length (dir_entries vo dir g) \<le> length ns"
  shows "read_dir vo um dir ns 0 g st = Some (dir_entries vo dir g)"
  using read_dir_from [OF assms(1-3), of "[]" "dir_entries vo dir g"] assms(4) by simp

text \<open>
  C13: every name a directory lists, other than dot and dot-dot, is found by lookup in
  that directory, and the node found has the file id that was listed: static names,
  process numbers, process names, threads and descriptors. Thread ids must fit 31
  bits, since names are read as \<^verbatim>\<open>int\<close>.
\<close>

theorem listed_name_found:
  assumes "plain_dir vo dir dsn" "listable vo dir g" "named_children (vo_ss vo) (psn_children dsn)"
    "dynamics_ok vo dir g (psn_children dsn)" "finds_pid (vo_k vo)"
    "e \<in> set (dir_entries vo dir g)" "snd (snd e) \<notin> {''.'', ''..''}"
  shows "\<exists>nid a. fst (procfs_vnop_lookup vo (Some (v, VDIR, Some dir)) (snd (snd e)) False g st) = L_find nid (Some a) True \<and>
    fileid_of nid = fst (snd e)"
proof -
  have d: "snode_at (vo_ss vo) (node_structure_node dir) = Some dsn" using assms(1) by (simp add: plain_dir_def)
  then have e: "e \<in> set (child_entries vo dir g (psn_children dsn))" "dir_visible vo dir" "children_ok vo dir g (psn_children dsn)"
    using assms(1,2,6) by (auto simp: plain_dir_def dir_entries_def listable_def split: if_splits)
  from assms(3) e(1) show ?thesis
  proof (cases rule: entry_cases)
    case (1 a sn)
    have s: "snode_at (vo_ss vo) a = Some sn" "a \<in> set (psn_children dsn)" using first_entry_in [OF 1(1)] by auto
    have c: "child_ok vo dir g sn" using e(3) s by (auto simp: children_ok_def split: option.splits)
    have n: "psn_name sn = snd (snd e)" using 1(3) by (simp add: static_entry_def)
    have "plain_name (snd (snd e))"
      using c n assms(7) named_child [OF assms(3) s(2,1)]
      by (auto simp: child_ok_def plain_name_def NAME_MAX_def MAX_STRUCT_NODE_NAME_LEN_def)
    moreover have "psn_node_type sn \<notin> {PFSdirthis, PFSdirparent}" using named_child [OF assms(3) s(2,1)] assms(7) n by auto
    then have "static_id vo dir sn = Some (child_id dir sn)" by (simp add: static_id_def)
    then have "fst (snd e) = fileid_of (child_id dir sn)" using 1(3) by (simp add: static_entry_def)
    ultimately show ?thesis using lookup_static [OF assms(1) _ 1(1) n, of v g st] by simp
  next
    case (2 a sn)
    have c: "child_ok vo dir g sn" using e(3) 2(2,3) by (auto simp: children_ok_def split: option.splits)
    have o: "dynamic_ok vo dir g sn" using assms(4) 2(2,3) by (auto simp: dynamics_ok_def list_all_iff split: option.splits)
    obtain num endp where x: "procfs_atoi (snd (snd e)) = (num, endp)" "0 \<le> num" "isdigit (hd (snd (snd e)))" "plain_name (snd (snd e))"
      "psn_node_type sn \<in> {PFSproc, PFSthread} \<longrightarrow> endp = []"
      "\<And>a st. (if psn_node_type sn = PFSfd then fst (fst (match_fd vo dir (snd (snd e)) a sn st))
             else fst (fst (match_numeric vo dir (snd (snd e)) a sn num g st))) =
       M_node a (if psn_node_type sn = PFSfd
                 then \<lparr> nodeid_pid = nodeid_pid (node_id dir), nodeid_objectid = word_of_int num, nodeid_base_id = psn_base_node_id sn \<rparr>
                 else numeric_id dir sn num)"
      "fst (snd e) = fileid_of (if psn_node_type sn = PFSfd
                 then \<lparr> nodeid_pid = nodeid_pid (node_id dir), nodeid_objectid = word_of_int num, nodeid_base_id = psn_base_node_id sn \<rparr>
                 else numeric_id dir sn num)"
      using expanded_entry [OF 2(5,4) c o e(2) assms(5)] by blast
    have f: "first_entry (vo_ss vo) (snd (snd e)) (psn_children dsn) = Some (a, sn)"
      using first_entry_digit [OF assms(3) x(3)] 2(1,2) by simp
    have n: "psn_name sn \<noteq> snd (snd e)" "num \<noteq> - 1" using x(2,3) 2(6) by auto
    show ?thesis
      using lookup_dynamic [OF assms(1) x(4) f n(1) 2(4) x(1) n(2) x(5), of v g st] x(6) [of a st] x(7)
      by (auto simp: finish_match_def case_prod_beta split: if_splits)
  qed
qed

text \<open>Descriptor 0 of process 7 in the layout of the first mount.\<close>

definition demo_fdtab :: filedesc where
  "demo_fdtab = \<lparr> fd_nfiles = 4, fd_afterlast = 1,
     fd_ofiles = [Some \<lparr> fp_flags = 0, fp_guard_attrs = 0, fp_glob = Some \<lparr> fg_flag = 1, fg_offset = 0, fg_type = 1, fg_count = 1, fg_data = None \<rparr> \<rparr>],
     fd_ofileflags = [0], fd_cdir = None, fd_rdir = None \<rparr>"

definition demo_fd_vop :: vop where
  "demo_fd_vop = demo_vop\<lparr> vo_k := kenv0\<lparr> proc_find_k := (\<lambda>pid. if pid = 7 then Some (proc0\<lparr> p_pid := 7, p_fd := demo_fdtab \<rparr>) else None) \<rparr> \<rparr>"

definition demo_fd_dir :: pfsnode where
  "demo_fd_dir = node_ex\<lparr> node_id := \<lparr> nodeid_pid = 7, nodeid_objectid = 0, nodeid_base_id = 28 \<rparr>, node_structure_node := 27 \<rparr>"

lemma demo_listing:
  "listable demo_fd_vop demo_fd_dir None"
  "map (snd \<circ> snd) (dir_entries demo_fd_vop demo_fd_dir None) = [''.'', ''..'', ''0'']"
  by code_simp+

definition demo_dir_ok :: bool where
  "demo_dir_ok \<longleftrightarrow>
     (case snode_at first_layout 27 of
        None \<Rightarrow> False
      | Some dsn \<Rightarrow> psn_node_type dsn \<noteq> PFSsysctl \<and> named_children first_layout (psn_children dsn) \<and>
          dynamics_ok demo_fd_vop demo_fd_dir None (psn_children dsn))"

lemma demo_dir: "demo_dir_ok"
  by code_simp

theorem readdir_complete_witness:
  "map_option (map (snd \<circ> snd)) (read_dir demo_fd_vop uiomove_ref demo_fd_dir [88, 100, 88] 0 None kst0) = Some [''.'', ''..'', ''0'']"
proof -
  have "length (dir_entries demo_fd_vop demo_fd_dir None) \<le> length [88 :: int, 100, 88]"
    using arg_cong [OF demo_listing(2), of length] by simp
  then have "read_dir demo_fd_vop uiomove_ref demo_fd_dir [88, 100, 88] 0 None kst0 = Some (dir_entries demo_fd_vop demo_fd_dir None)"
    using readdir_complete [OF uiomove_ok_ref _ demo_listing(1), of "[88, 100, 88]"] by simp
  then show ?thesis using demo_listing(2) by simp
qed

theorem listed_name_found_witness:
  "\<exists>e nid a. snd (snd e) = ''0'' \<and> e \<in> set (dir_entries demo_fd_vop demo_fd_dir None) \<and>
     fst (procfs_vnop_lookup demo_fd_vop (Some (0, VDIR, Some demo_fd_dir)) ''0'' False None kst0) = L_find nid (Some a) True \<and>
     fileid_of nid = fst (snd e)"
proof -
  obtain dsn where d: "snode_at first_layout 27 = Some dsn" "psn_node_type dsn \<noteq> PFSsysctl"
      "named_children first_layout (psn_children dsn)" "dynamics_ok demo_fd_vop demo_fd_dir None (psn_children dsn)"
    using demo_dir by (auto simp: demo_dir_ok_def split: option.splits)
  have ss: "vo_ss demo_fd_vop = first_layout" by (simp add: demo_fd_vop_def demo_vop_def)
  have p: "plain_dir demo_fd_vop demo_fd_dir dsn" using d by (simp add: plain_dir_def ss demo_fd_dir_def)
  have k: "finds_pid (vo_k demo_fd_vop)" by (simp add: finds_pid_def demo_fd_vop_def)
  have "''0'' \<in> set (map (snd \<circ> snd) (dir_entries demo_fd_vop demo_fd_dir None))" unfolding demo_listing(2) by simp
  then obtain e where e: "e \<in> set (dir_entries demo_fd_vop demo_fd_dir None)" "snd (snd e) = ''0''" by auto
  have "\<exists>nid a. fst (procfs_vnop_lookup demo_fd_vop (Some (0, VDIR, Some demo_fd_dir)) (snd (snd e)) False None kst0) = L_find nid (Some a) True \<and>
      fileid_of nid = fst (snd e)"
    by (rule listed_name_found [OF p demo_listing(1) _ d(4) k e(1)]) (use d(3) e(2) in \<open>simp_all add: ss\<close>)
  then obtain nid a where "fst (procfs_vnop_lookup demo_fd_vop (Some (0, VDIR, Some demo_fd_dir)) (snd (snd e)) False None kst0) = L_find nid (Some a) True"
      "fileid_of nid = fst (snd e)" by blast
  then show ?thesis using e by (intro exI [of _ e] exI [of _ nid] exI [of _ a]) simp
qed

section \<open>Types\<close>

fun dt_of :: "vtype \<Rightarrow> int" where
  "dt_of VDIR = DT_DIR" | "dt_of VREG = DT_REG" | "dt_of VLNK = DT_LNK" | "dt_of VNON = 0"

lemma static_entry_type:
  assumes "\<not> expands (psn_node_type sn)" "psn_node_type sn \<noteq> PFSroot" "nodeid_objectid nid = 0"
  shows "fst (static_entry vo dir sn) = dt_of (node_vtype vo (psn_node_type sn) nid)"
  using assms by (cases "psn_node_type sn") (simp_all add: static_entry_def static_type_def node_vtype_def expands_def procfs_sysctl_is_node_def)

lemma expanded_type: "e \<in> set (expand_child vo dir g sn) \<Longrightarrow> fst e = vtype_num VDIR"
  by (auto simp: expand_child_def pid_entries_def thread_entries_def fd_entries_def set_map_filter Let_def split: if_splits option.splits)

lemma child_entry_type:
  assumes "nodeid_objectid (node_id dir) = PRNODE_NO_OBJECTID" "children_ok vo dir g as" "e \<in> set (child_entries vo dir g as)"
  shows "\<exists>a sn. snode_at (vo_ss vo) a = Some sn \<and>
    (if expands (psn_node_type sn) then fst e = vtype_num VDIR
     else psn_name sn = snd (snd e) \<and> fst e = dt_of (node_vtype vo (psn_node_type sn) (child_id dir sn)))"
  using assms(2,3)
proof (induction as)
  case (Cons a as)
  then obtain sn where sn: "snode_at (vo_ss vo) a = Some sn" "child_ok vo dir g sn" "children_ok vo dir g as"
    by (auto simp: children_ok_def split: option.splits)
  have o: "nodeid_objectid (child_id dir sn) = 0" using assms(1) by (simp add: child_id_def PRNODE_NO_OBJECTID_def)
  consider "expands (psn_node_type sn)" "e \<in> set (expand_child vo dir g sn)" | "\<not> expands (psn_node_type sn)" "e = static_entry vo dir sn"
    | "e \<in> set (child_entries vo dir g as)" using Cons.prems(2) sn(1) by (auto split: if_splits)
  then show ?case
  proof cases
    case 1
    then show ?thesis using sn(1) expanded_type by (intro exI [of _ a] exI [of _ sn]) simp
  next
    case 2
    then show ?thesis using sn static_entry_type [OF 2(1) _ o, of vo dir]
      by (intro exI [of _ a] exI [of _ sn]) (simp add: child_ok_def, simp add: static_entry_def)
  next
    case 3
    then show ?thesis using Cons.IH sn(3) by blast
  qed
qed simp



text \<open>
  A call without room returns position 0 whatever position it was given, so that
  the next call starts again.
\<close>

lemma zero_room_rewinds:
  assumes "plain_dir vo dir dsn" "uio_resid u = 0"
  shows "\<exists>r g' st'. procfs_vnop_readdir vo um VDIR dir u g st = (Some (Inr r), g', st') \<and> rd_error r = None \<and> uio_offset (rd_uio r) = 0"
  using assms by (simp add: procfs_vnop_readdir_def plain_dir_def loop_full start_readdir_def finish_readdir_def)

text \<open>A directory of descriptors is never reported as finished.\<close>

lemma fd_dir_never_eof:
  assumes "snode_at (vo_ss vo) a = Some sn" "psn_node_type sn = PFSfd" "dir_visible vo dir" "child_ok vo dir g sn" "0 < uio_resid (r_uio s)"
  shows "\<exists>s' g' st'. readdir_loop vo um startpos dir [a] s g st = Some ([a], s', g', st')"
proof -
  have acc: "(if nodeid_pid (node_id dir) = PRNODE_NO_PID \<or> \<not> check_access vo then (None, st)
        else procfs_check_can_access_proc_pid (vo_k vo) (vo_cred vo) (nodeid_pid (node_id dir)) st) = (None, st)"
    using access_visible [of dir vo st] assms(3) by auto
  show ?thesis using assms unfolding readdir_loop.simps(2) Let_def acc by (simp split: prod.split)
qed

text \<open>A child of type root would keep the loop at the same child forever.\<close>

lemma root_child_hangs:
  assumes "snode_at (vo_ss vo) a = Some sn" "psn_node_type sn = PFSroot" "dir_visible vo dir" "0 < uio_resid (r_uio s)"
  shows "readdir_loop vo um startpos dir (a # as) s g st = None"
proof -
  have acc: "(if nodeid_pid (node_id dir) = PRNODE_NO_PID \<or> \<not> check_access vo then (None, st)
        else procfs_check_can_access_proc_pid (vo_k vo) (vo_cred vo) (nodeid_pid (node_id dir)) st) = (None, st)"
    using access_visible [of dir vo st] assms(3) by auto
  show ?thesis using assms unfolding readdir_loop.simps(2) Let_def acc by simp
qed

end
