(* ===== verification/Dispatch.thy ===== *)
theory Dispatch
imports Readdir
begin

text \<open>
  Reading a vnode, \<open>procfs_vnop_read\<close> of \<^verbatim>\<open>kext/procfs_vnops.c\<close>: the dispatch to the read
  functions the layout installs. In the layout a mount builds, the dispatch reaches a read function for every
  file, and no other node.
\<close>

section \<open>The dispatch\<close>

text \<open>
  \<open>rd\<close> stands for the read functions, which are modelled with their nodes; \<open>sysread\<close> for
  \<open>procfs_sysctl_read\<close>, by the object id.
\<close>

definition procfs_vnop_read ::
  "(64 word \<Rightarrow> uio \<Rightarrow> err \<times> uio) \<Rightarrow> (read_fn \<Rightarrow> pfsnode \<Rightarrow> uio \<Rightarrow> err \<times> uio) \<Rightarrow> pfssnode \<Rightarrow> pfsnode \<Rightarrow> uio \<Rightarrow> err \<times> uio" where
  "procfs_vnop_read sysread rd snode pnp uio =
     (if psn_node_type snode = PFSsysctl then sysread (nodeid_objectid (node_id pnp)) uio
      else if procfs_is_directory_type (psn_node_type snode) then (Some EISDIR, uio)
      else case psn_read_data_fn snode of
        Some f \<Rightarrow> rd f pnp uio
      | None \<Rightarrow> (Some EINVAL, uio))"

section \<open>The layout\<close>

text \<open>The types of nodes that are links.\<close>

definition is_link_type :: "pfstype \<Rightarrow> bool" where
  "is_link_type t \<longleftrightarrow> t = PFScurproc \<or> t = PFSproclink"

definition readable_ok :: "pfssnode \<Rightarrow> bool" where
  "readable_ok sn \<longleftrightarrow>
     psn_node_type sn = PFSsysctl \<or>
     (psn_read_data_fn sn \<noteq> None) = (\<not> procfs_is_directory_type (psn_node_type sn) \<and> \<not> is_link_type (psn_node_type sn))"

lemma layout_readable_all:
  "list_all (\<lambda>a. case snode_at first_layout a of None \<Rightarrow> True | Some sn \<Rightarrow> readable_ok sn) [0..<length (snodes first_layout)]"
  by code_simp

lemma layout_readable: "snode_at first_layout a = Some sn \<Longrightarrow> readable_ok sn"
  using layout_readable_all by (auto simp: list_all_iff snode_at_def split: if_splits option.splits)

text \<open>
  C30: reading any node of the layout a mount builds ends where it should: a sysctl node in the sysctl reader, a
  directory with \<^verbatim>\<open>EISDIR\<close>, a link with \<^verbatim>\<open>EINVAL\<close>, and every other node in a read function, which the layout has for it.
\<close>

theorem vnop_read_dispatch:
  assumes "snode_at first_layout a = Some sn"
  shows "if psn_node_type sn = PFSsysctl then procfs_vnop_read sysread rd sn pnp uio = sysread (nodeid_objectid (node_id pnp)) uio
    else if procfs_is_directory_type (psn_node_type sn) then procfs_vnop_read sysread rd sn pnp uio = (Some EISDIR, uio)
    else if is_link_type (psn_node_type sn) then procfs_vnop_read sysread rd sn pnp uio = (Some EINVAL, uio)
    else \<exists>f. psn_read_data_fn sn = Some f \<and> procfs_vnop_read sysread rd sn pnp uio = rd f pnp uio"
  using layout_readable [OF assms] by (auto simp: readable_ok_def procfs_vnop_read_def split: option.splits)

lemma layout_node_6: "\<exists>sn. snode_at first_layout 6 = Some sn \<and> \<not> procfs_is_directory_type (psn_node_type sn) \<and>
    \<not> is_link_type (psn_node_type sn) \<and> psn_node_type sn \<noteq> PFSsysctl"
proof -
  have "(case snode_at first_layout 6 of None \<Rightarrow> False | Some sn \<Rightarrow> \<not> procfs_is_directory_type (psn_node_type sn) \<and>
    \<not> is_link_type (psn_node_type sn) \<and> psn_node_type sn \<noteq> PFSsysctl)" by code_simp
  then show ?thesis by (cases "snode_at first_layout 6") auto
qed

theorem vnop_read_dispatch_witness:
  "\<exists>sn f. snode_at first_layout 6 = Some sn \<and> psn_read_data_fn sn = Some f \<and>
     procfs_vnop_read (\<lambda>_ u. (None, u)) (\<lambda>_ _ u. (None, uio_put ''x'' u)) sn node_ex \<lparr> uio_offset = 0, uio_resid = 1, uio_out = [] \<rparr> = (None, uio_put ''x'' \<lparr> uio_offset = 0, uio_resid = 1, uio_out = [] \<rparr>)"
proof -
  obtain sn where sn: "snode_at first_layout 6 = Some sn" "\<not> procfs_is_directory_type (psn_node_type sn)"
      "\<not> is_link_type (psn_node_type sn)" "psn_node_type sn \<noteq> PFSsysctl" using layout_node_6 by blast
  show ?thesis using vnop_read_dispatch [OF sn(1), of "\<lambda>_ u. (None, u)" "\<lambda>_ _ u. (None, uio_put ''x'' u)" node_ex "\<lparr> uio_offset = 0, uio_resid = 1, uio_out = [] \<rparr>"] sn by auto
qed

end
