(* ===== verification/Linux.thy ===== *)
theory Linux
imports Status
begin

text \<open>
  The nodes of \<^verbatim>\<open>kext/procfs_linux.c\<close> that describe the whole system: the sampler behind
  \<^verbatim>\<open>loadavg\<close>, and \<^verbatim>\<open>stat\<close>, \<^verbatim>\<open>vmstat\<close>, \<^verbatim>\<open>meminfo\<close>, \<^verbatim>\<open>partitions\<close>, \<^verbatim>\<open>mtab\<close>, \<^verbatim>\<open>version\<close>, \<^verbatim>\<open>uptime\<close>, \<^verbatim>\<open>swaps\<close> and
  \<^verbatim>\<open>filesystems\<close>. Proved: the load averages never leave the range of the
  machine while the tick counters grow; each sbuf node is a file that holds its
  whole text; \<^verbatim>\<open>filesystems\<close> lists each type once. The nodes that copy from the start
  of their buffer whatever the offset are shown not to be files.
\<close>

section \<open>What the kernel reports\<close>

text \<open>
  Results of \<^verbatim>\<open>sysctlbyname\<close> are \<open>None\<close> on error. \<open>le_cpu_load\<close> is \<^verbatim>\<open>processor_info\<close> of the
  processor of a cpu number, \<open>None\<close> if there is none or the call fails; \<open>le_mounts\<close> is
  what \<^verbatim>\<open>vfs_iterate\<close> visits, \<open>None\<close> for a mount without statfs data; \<open>le_iokit\<close> is
  \<^verbatim>\<open>procfs_iokit_get_partitions\<close>, and \<open>le_vm_size\<close>
  and \<open>le_vm\<close> are the size and the fields of a \<^verbatim>\<open>vm_statistics64\<close>.
\<close>

record cpu_ticks =
  tick_user :: int
  tick_system :: int
  tick_idle :: int
  tick_nice :: int

record vfsstatfs =
  f_bsize :: int
  f_iosize :: int
  f_blocks :: int
  f_fsid :: "int \<times> int"
  f_flags :: int
  f_fstypename :: string
  f_mntonname :: string
  f_mntfromname :: string

record procfs_partition =
  pp_major :: int
  pp_minor :: int
  pp_size :: int
  pp_name :: string

record vm_statistics64 =
  vm_free_count :: int
  vm_active_count :: int
  vm_inactive_count :: int
  vm_wire_count :: int
  vm_reactivations :: int
  vm_pageins :: int
  vm_pageouts :: int
  vm_faults :: int
  vm_cow_faults :: int
  vm_purgeable_count :: int
  vm_speculative_count :: int
  vm_decompressions :: int
  vm_compressions :: int
  vm_swapins :: int
  vm_swapouts :: int
  vm_compressor_page_count :: int
  vm_throttled_count :: int
  vm_external_page_count :: int
  vm_internal_page_count :: int

record lenv =
  le_logicalcpu :: "int option"
  le_boottime :: "int option"
  le_memsize :: "int option"
  le_swapusage :: "(int \<times> int) option"
  le_uptime :: "int \<times> int"
  le_version :: string
  le_cpu_load :: "int \<Rightarrow> cpu_ticks option"
  le_wire_count :: "int option"
  le_mounts :: "vfsstatfs option list"
  le_iokit :: "procfs_partition list option"
  le_vm_size :: nat
  le_vm :: "bytes \<Rightarrow> vm_statistics64"

section \<open>The load sampler\<close>

definition LA_SAMPLE_SECS :: int where "LA_SAMPLE_SECS = 5"
definition la_cexp :: "int list" where "la_cexp = [1884, 2014, 2037]"

text \<open>The statics of the sampler and \<^verbatim>\<open>averunnable\<close>; pointers as whether they are set.\<close>

record load_state =
  la_call :: bool
  la_cpu_to_processor :: bool
  la_ncpu :: int
  la_busy :: int
  la_idle :: int
  la_primed :: bool
  ldavg :: "int list"
  fscale :: int

definition load0 :: load_state where
  "load0 = \<lparr> la_call = False, la_cpu_to_processor = False, la_ncpu = 0, la_busy = 0, la_idle = 0, la_primed = False,
     ldavg = [0, 0, 0], fscale = FSCALE \<rparr>"

definition add_ticks :: "(int \<Rightarrow> cpu_ticks option) \<Rightarrow> int \<Rightarrow> int \<times> int \<Rightarrow> int \<times> int" where
  "add_ticks load i bi =
     (case load i of
        None \<Rightarrow> bi
      | Some t \<Rightarrow> (to_uint64 (fst bi + (tick_user t + tick_system t + tick_nice t)), to_uint64 (snd bi + tick_idle t)))"

definition la_sum :: "(int \<Rightarrow> cpu_ticks option) \<Rightarrow> int \<Rightarrow> int \<times> int" where
  "la_sum load ncpu = fold (add_ticks load) [0..ncpu - 1] (0, 0)"

definition la_nrun :: "int \<Rightarrow> int \<Rightarrow> int \<Rightarrow> int" where
  "la_nrun dbusy didle ncpu =
     (let total = to_uint64 (dbusy + didle)
      in if total > 0 then to_uint32 (to_uint64 (to_uint64 (dbusy * to_uint64 ncpu) * FSCALE) div total) else 0)"

definition la_step :: "int \<Rightarrow> int \<Rightarrow> int \<Rightarrow> int" where
  "la_step nrun c avg = to_uint32 (to_uint64 (c * avg + nrun * (FSCALE - c)) div 2 ^ FSHIFT)"

definition la_sample :: "(int \<Rightarrow> cpu_ticks option) \<Rightarrow> load_state \<Rightarrow> load_state" where
  "la_sample load s =
     (case la_sum load (la_ncpu s) of
        (busy, idle) \<Rightarrow>
          if \<not> la_primed s then s\<lparr> la_busy := busy, la_idle := idle, la_primed := True \<rparr>
          else let dbusy = to_uint64 (busy - la_busy s);
                   didle = to_uint64 (idle - la_idle s);
                   nrun = la_nrun dbusy didle (la_ncpu s)
               in s\<lparr> la_busy := busy, la_idle := idle, ldavg := map2 (la_step nrun) la_cexp (ldavg s), fscale := FSCALE \<rparr>)"

text \<open>The timer samples and arms itself again.\<close>

definition la_timer :: "lenv \<Rightarrow> load_state \<Rightarrow> load_state" where
  "la_timer le s = la_sample (le_cpu_load le) s"

definition logical_cpus :: "lenv \<Rightarrow> int" where
  "logical_cpus le = (case le_logicalcpu le of None \<Rightarrow> 1 | Some n \<Rightarrow> if n \<le> 0 then 1 else n)"

text \<open>\<open>resolved\<close> is whether \<^verbatim>\<open>cpu_to_processor\<close> was found, \<open>call_ok\<close> whether the thread call is allocated.\<close>

definition procfs_loadavg_start :: "lenv \<Rightarrow> bool \<Rightarrow> bool \<Rightarrow> load_state \<Rightarrow> load_state" where
  "procfs_loadavg_start le resolved call_ok s =
     (if la_call s \<or> \<not> resolved then s
      else let s = s\<lparr> la_cpu_to_processor := True, la_ncpu := logical_cpus le, fscale := FSCALE \<rparr>
           in if \<not> call_ok then s else la_sample (le_cpu_load le) (s\<lparr> la_call := True \<rparr>))"

definition procfs_loadavg_stop :: "load_state \<Rightarrow> load_state" where
  "procfs_loadavg_stop s = (if la_call s then s\<lparr> la_call := False \<rparr> else s)"

section \<open>Nodes that copy from the start of a buffer\<close>

definition LBFSZ :: nat where "LBFSZ = 8192"

text \<open>
  \<^verbatim>\<open>snprintf\<close> into the block, then a copy from its start of the length less the
  offset within the page. The block waits for memory, so the allocation does not
  fail.
\<close>

definition copy_page_text :: "int \<Rightarrow> uiomove_fn \<Rightarrow> string \<Rightarrow> uio \<Rightarrow> err \<times> uio" where
  "copy_page_text pg um txt uio =
     um (strlcpy LBFSZ txt @ [CHR 0x00], 0) (to_int32 (int (length txt) - uio_offset uio mod pg)) uio"

text \<open>\<^verbatim>\<open>%d.%02d\<close> of a number of hundredths.\<close>

definition c_div :: "int \<Rightarrow> int \<Rightarrow> int" where
  "c_div x y = (if x < 0 then - (- x div y) else x div y)"

definition fmt_hundredths :: "int \<Rightarrow> string" where
  "fmt_hundredths x = fmt_d (c_div x 100) @ ''.'' @ pad_left (CHR ''0'') 2 (fmt_d (x - c_div x 100 * 100))"

definition local_load :: "load_state \<Rightarrow> nat \<Rightarrow> int" where
  "local_load s i = to_int32 (to_uint64 (ldavg s ! i * 100) div (if fscale s > 0 then fscale s else FSCALE))"

definition loads :: "ctl_rq \<Rightarrow> load_state \<Rightarrow> int list" where
  "loads rq s =
     (case rq PROCFS_REQ_LOADAVG 0 0 12 of
        Inr b \<Rightarrow> if length b = 12 then map (\<lambda>i. to_int32 (le_value (take 4 (drop (4 * i) b)))) [0..<3] else map (local_load s) [0..<3]
      | Inl _ \<Rightarrow> map (local_load s) [0..<3])"

definition loadavg_text :: "int list \<Rightarrow> int \<Rightarrow> string" where
  "loadavg_text ls procs =
     concat (map (\<lambda>x. fmt_hundredths x @ '' '') ls) @ ''1/'' @ fmt_d procs @ '' 0'' @ nl"

definition procfs_doloadavg ::
  "kenv \<Rightarrow> int \<Rightarrow> ctl_rq \<Rightarrow> load_state \<Rightarrow> uiomove_fn \<Rightarrow> cred \<Rightarrow> uio \<Rightarrow> kst \<Rightarrow> (err \<times> uio) \<times> kst" where
  "procfs_doloadavg k pg rq s um cred uio st =
     (let st = st\<lparr> mallocs := mallocs st + 1 \<rparr>; ls = loads rq s in
      case procfs_get_process_count k cred st of
        (procs, st) \<Rightarrow> (copy_page_text pg um (loadavg_text ls procs) uio, free_k st))"

definition procfs_doversion :: "lenv \<Rightarrow> int \<Rightarrow> uiomove_fn \<Rightarrow> uio \<Rightarrow> kst \<Rightarrow> (err \<times> uio) \<times> kst" where
  "procfs_doversion le pg um uio st =
     (let st = st\<lparr> mallocs := mallocs st + 1 \<rparr> in (copy_page_text pg um (le_version le @ nl) uio, free_k st))"

section \<open>Nodes rendered into an sbuf\<close>

definition ticks_of :: "load_state \<Rightarrow> lenv \<Rightarrow> int \<Rightarrow> cpu_ticks" where
  "ticks_of s le i =
     (case (if la_cpu_to_processor s then le_cpu_load le i else None) of
        Some t \<Rightarrow> t
      | None \<Rightarrow> \<lparr> tick_user = 0, tick_system = 0, tick_idle = 0, tick_nice = 0 \<rparr>)"

definition cpu_line :: "string \<Rightarrow> int \<Rightarrow> int \<Rightarrow> int \<Rightarrow> int \<Rightarrow> string" where
  "cpu_line name us ni sy idl =
     name @ '' '' @ fmt_u us @ '' '' @ fmt_u ni @ '' '' @ fmt_u sy @ '' '' @ fmt_u idl @ '' 0 0 0 0 0 0'' @ nl"

definition sum_ticks :: "(cpu_ticks \<Rightarrow> int) \<Rightarrow> load_state \<Rightarrow> lenv \<Rightarrow> int" where
  "sum_ticks f s le = fold (\<lambda>i a. to_uint64 (a + f (ticks_of s le i))) [0..logical_cpus le - 1] 0"

definition stat_text :: "load_state \<Rightarrow> lenv \<Rightarrow> int \<Rightarrow> string list" where
  "stat_text s le procs =
     [cpu_line ''cpu '' (sum_ticks tick_user s le) (sum_ticks tick_nice s le) (sum_ticks tick_system s le) (sum_ticks tick_idle s le)] @
     map (\<lambda>i. let t = ticks_of s le i
              in cpu_line (''cpu'' @ fmt_d i) (tick_user t) (tick_nice t) (tick_system t) (tick_idle t)) [0..logical_cpus le - 1] @
     [''intr 0'' @ nl, ''ctxt 0'' @ nl, ''btime '' @ fmt_d (case le_boottime le of None \<Rightarrow> 0 | Some t \<Rightarrow> t) @ nl,
      ''processes '' @ fmt_d procs @ nl, ''procs_running 1'' @ nl, ''procs_blocked 0'' @ nl]"

text \<open>
  The array of the cpu lines is allocated after the sbuf and freed before it is
  finished; a failure of either is ENOMEM.
\<close>

definition procfs_dostat ::
  "kenv \<Rightarrow> int \<Rightarrow> load_state \<Rightarrow> lenv \<Rightarrow> uiomove_fn \<Rightarrow> cred \<Rightarrow> uio \<Rightarrow> kst \<Rightarrow> (err \<times> uio) \<times> kst" where
  "procfs_dostat k pg s le um cred uio st =
     (if malloc_ok k (logical_cpus le * 32)
      then case procfs_get_process_count k cred st of
             (procs, st) \<Rightarrow> text_node k pg um None 2048 SBUF_AUTOEXTEND (stat_text s le procs) uio st
      else ((Some ENOMEM, uio), st))"

definition vmstat_text :: "vm_statistics64 \<Rightarrow> string" where
  "vmstat_text vm =
     concat (map (\<lambda>(name, v). name @ '' '' @ fmt_u v @ nl)
       [(''nr_free_pages'', vm_free_count vm), (''nr_inactive_anon'', 0), (''nr_active_anon'', 0),
        (''nr_inactive_file'', vm_inactive_count vm), (''nr_active_file'', vm_active_count vm),
        (''nr_anon_pages'', vm_internal_page_count vm), (''nr_file_pages'', vm_external_page_count vm),
        (''nr_wired'', vm_wire_count vm), (''nr_purgeable'', vm_purgeable_count vm),
        (''nr_speculative'', vm_speculative_count vm), (''nr_throttled'', vm_throttled_count vm),
        (''nr_compressed'', vm_compressor_page_count vm), (''pgpgin'', vm_pageins vm), (''pgpgout'', vm_pageouts vm),
        (''pswpin'', vm_swapins vm), (''pswpout'', vm_swapouts vm), (''pgfault'', vm_faults vm), (''pgmajfault'', vm_pageins vm),
        (''pgreactivate'', vm_reactivations vm), (''cow_faults'', vm_cow_faults vm),
        (''decompressions'', vm_decompressions vm), (''compressions'', vm_compressions vm)])"

text \<open>The structure is zeroed before the request and a failed request leaves it so.\<close>

definition procfs_dovmstat :: "kenv \<Rightarrow> int \<Rightarrow> ctl_rq \<Rightarrow> lenv \<Rightarrow> uiomove_fn \<Rightarrow> uio \<Rightarrow> kst \<Rightarrow> (err \<times> uio) \<times> kst" where
  "procfs_dovmstat k pg rq le um uio st =
     (let b = (case rq PROCFS_REQ_VMSTAT 0 0 (le_vm_size le) of Inl _ \<Rightarrow> [] | Inr b \<Rightarrow> b);
          vm = le_vm le (b @ replicate ((le_vm_size le) - length b) (CHR 0x00))
      in text_node k pg um None 2048 SBUF_AUTOEXTEND [vmstat_text vm] uio st)"

definition kb_line :: "string \<Rightarrow> int \<Rightarrow> string" where
  "kb_line name b = name @ pad_left (CHR '' '') 9 (fmt_u (b div 2 ^ 10)) @ '' kB'' @ nl"

definition meminfo_text :: "int \<Rightarrow> lenv \<Rightarrow> string" where
  "meminfo_text pg le =
     (let memtotal = (case le_memsize le of None \<Rightarrow> 0 | Some m \<Rightarrow> m);
          memfree = (case le_wire_count le of
                       None \<Rightarrow> 0
                     | Some w \<Rightarrow> let wired = to_uint64 (w * pg) in if memtotal > wired then memtotal - wired else 0)
      in concat (map (\<lambda>(name, b). kb_line name b)
           [(''MemTotal: '', memtotal), (''MemFree:  '', memfree), (''MemShared:'', 0), (''Buffers:  '', 0), (''Cached:   '', 0),
            (''SwapTotal:'', 0), (''SwapFree: '', 0)]))"

definition procfs_domeminfo :: "kenv \<Rightarrow> int \<Rightarrow> lenv \<Rightarrow> uiomove_fn \<Rightarrow> uio \<Rightarrow> kst \<Rightarrow> (err \<times> uio) \<times> kst" where
  "procfs_domeminfo k pg le um uio st =
     text_node k pg um (Some (replicate 512 (CHR 0x00))) 512 SBUF_FIXEDLEN [meminfo_text pg le] uio st"

definition part_line :: "int \<Rightarrow> int \<Rightarrow> int \<Rightarrow> string \<Rightarrow> string" where
  "part_line maj mno blocks name =
     pad_left (CHR '' '') 4 (fmt_d maj) @ '' '' @ pad_left (CHR '' '') 7 (fmt_d mno) @ '' '' @
     pad_left (CHR '' '') 10 (fmt_u blocks) @ '' '' @ name @ nl"

definition procfs_partitions_cb :: "vfsstatfs option \<Rightarrow> string list" where
  "procfs_partitions_cb sf =
     (case sf of
        None \<Rightarrow> []
      | Some sf \<Rightarrow>
          if take 5 (f_mntfromname sf) \<noteq> ''/dev/'' then []
          else let dev = to_uint32 (fst (f_fsid sf))
               in [part_line (dev div 2 ^ 24 mod 256) (dev mod 2 ^ 24) (to_uint64 (f_blocks sf * f_bsize sf) div 2 ^ 10)
                     (drop 5 (f_mntfromname sf))])"

definition PROCFS_MAX_PARTS :: int where "PROCFS_MAX_PARTS = 128"

definition partitions_text :: "kenv \<Rightarrow> lenv \<Rightarrow> string list" where
  "partitions_text k le =
     [''major minor  #blocks  name'' @ nl @ nl] @
     (case (if malloc_ok k (PROCFS_MAX_PARTS * 80) then le_iokit le else None) of
        Some (p # ps) \<Rightarrow> map (\<lambda>p. part_line (pp_major p) (pp_minor p) (pp_size p div 1024) (pp_name p)) (p # ps)
      | _ \<Rightarrow> concat (map procfs_partitions_cb (le_mounts le)))"

text \<open>The array for IOKit is taken and given back within the frame.\<close>

definition procfs_dopartitions :: "kenv \<Rightarrow> int \<Rightarrow> lenv \<Rightarrow> uiomove_fn \<Rightarrow> uio \<Rightarrow> kst \<Rightarrow> (err \<times> uio) \<times> kst" where
  "procfs_dopartitions k pg le um uio st = text_node k pg um None 2048 SBUF_AUTOEXTEND (partitions_text k le) uio st"

definition MNT_RDONLY :: int where "MNT_RDONLY = 0x1"

definition mtab_tab :: "(int \<times> string) list" where
  "mtab_tab = [(0x8, '',nosuid''), (0x10, '',nodev''), (0x4, '',noexec''), (0x2, '',sync''), (0x40, '',async''),
     (0x10000000, '',noatime''), (0x20, '',union''), (0x800000, '',journaled''), (0x1000, '',local''), (0x100000, '',nobrowse'')]"

definition strlcat :: "nat \<Rightarrow> string \<Rightarrow> string \<Rightarrow> string" where
  "strlcat cap s t = (if length s < cap then take (cap - 1) (s @ t) else s)"

definition procfs_mtab_options :: "int \<Rightarrow> nat \<Rightarrow> string" where
  "procfs_mtab_options flags cap =
     fold (\<lambda>(flag, opt) out. if flags AND flag \<noteq> 0 then strlcat cap out opt else out) mtab_tab
       (strlcpy cap (if flags AND MNT_RDONLY \<noteq> 0 then ''ro'' else ''rw''))"

definition procfs_mtab_cb :: "vfsstatfs option \<Rightarrow> string list" where
  "procfs_mtab_cb sf =
     (case sf of
        None \<Rightarrow> []
      | Some sf \<Rightarrow>
          [f_mntfromname sf @ '' '' @ f_mntonname sf @ '' '' @ f_fstypename sf @ '' '' @
           procfs_mtab_options (f_flags sf) 160 @ '' 0 0'' @ nl])"

definition procfs_domtab :: "kenv \<Rightarrow> int \<Rightarrow> lenv \<Rightarrow> uiomove_fn \<Rightarrow> uio \<Rightarrow> kst \<Rightarrow> (err \<times> uio) \<times> kst" where
  "procfs_domtab k pg le um uio st =
     text_node k pg um None 4096 SBUF_AUTOEXTEND (concat (map procfs_mtab_cb (le_mounts le))) uio st"

definition uptime_text :: "lenv \<Rightarrow> string" where
  "uptime_text le = fmt_d (fst (le_uptime le)) @ ''.'' @ pad_left (CHR ''0'') 2 (fmt_d (snd (le_uptime le) div 10000)) @ '' 0.00'' @ nl"

definition procfs_douptime :: "lenv \<Rightarrow> uiomove_fn \<Rightarrow> uio \<Rightarrow> err \<times> uio" where
  "procfs_douptime le um uio = snprintf_copy um 64 (uptime_text le) uio"

definition swaps_text :: "lenv \<Rightarrow> string list" where
  "swaps_text le =
     [''Filename'' @ tab @ tab @ tab @ tab @ ''Type'' @ tab @ tab @ ''Size'' @ tab @ ''Used'' @ tab @ ''Priority'' @ nl] @
     (case le_swapusage le of
        None \<Rightarrow> []
      | Some (tot, used) \<Rightarrow>
          if tot > 0
          then [''/private/var/vm/swapfile'' @ tab @ ''file'' @ tab @ tab @ fmt_u (tot div 1024) @ tab @ fmt_u (used div 1024) @ tab @ ''-1'' @ nl]
          else [])"

definition procfs_doswaps :: "kenv \<Rightarrow> int \<Rightarrow> lenv \<Rightarrow> uiomove_fn \<Rightarrow> uio \<Rightarrow> kst \<Rightarrow> (err \<times> uio) \<times> kst" where
  "procfs_doswaps k pg le um uio st = text_node k pg um None 256 SBUF_AUTOEXTEND (swaps_text le) uio st"

definition MFSTYPENAMELEN :: nat where "MFSTYPENAMELEN = 16"
definition PROCFS_FSTYPES_MAX :: nat where "PROCFS_FSTYPES_MAX = 32"

definition procfs_fs_is_nodev :: "string \<Rightarrow> bool" where
  "procfs_fs_is_nodev type \<longleftrightarrow>
     take MFSTYPENAMELEN type \<in> set (map (take MFSTYPENAMELEN) [''devfs'', ''procfs'', ''autofs'', ''nullfs'', ''fdesc'', ''tmpfs'', ''mtmfs'',
       ''lifs'', ''bindfs'', ''webdav'', ''nfs'', ''smbfs'', ''ftp''])"

definition procfs_fstypes_cb :: "vfsstatfs option \<Rightarrow> string list \<Rightarrow> string list" where
  "procfs_fstypes_cb sf names =
     (case sf of
        None \<Rightarrow> names
      | Some sf \<Rightarrow>
          if \<exists>n \<in> set names. take MFSTYPENAMELEN n = take MFSTYPENAMELEN (f_fstypename sf) then names
          else if length names < PROCFS_FSTYPES_MAX then names @ [strlcpy MFSTYPENAMELEN (f_fstypename sf)]
          else names)"

definition fstypes :: "lenv \<Rightarrow> string list" where
  "fstypes le = fold procfs_fstypes_cb (le_mounts le) []"

definition procfs_dofilesystems :: "kenv \<Rightarrow> int \<Rightarrow> lenv \<Rightarrow> uiomove_fn \<Rightarrow> uio \<Rightarrow> kst \<Rightarrow> (err \<times> uio) \<times> kst" where
  "procfs_dofilesystems k pg le um uio st =
     text_node k pg um None 512 SBUF_AUTOEXTEND
       (map (\<lambda>n. (if procfs_fs_is_nodev n then ''nodev'' else []) @ tab @ n @ nl) (fstypes le)) uio st"

text \<open>The two oids of the presentation switch.\<close>

definition procfs_linux_mode_init :: int where "procfs_linux_mode_init = 0"

definition procfs_sysctl_register :: "string list \<Rightarrow> string list" where
  "procfs_sysctl_register oids = ''procfs.linux'' # ''procfs'' # oids"

definition procfs_sysctl_unregister :: "string list \<Rightarrow> string list" where
  "procfs_sysctl_unregister oids = remove1 ''procfs'' (remove1 ''procfs.linux'' oids)"

section \<open>The averages stay in range\<close>

lemma la_step_between:
  assumes "0 \<le> c" "c \<le> 2048" "lo \<le> nrun" "nrun \<le> hi" "lo \<le> avg" "avg \<le> hi" "0 \<le> lo" "hi < 2 ^ 32"
  shows "lo \<le> la_step nrun c avg \<and> la_step nrun c avg \<le> hi"
proof -
  let ?x = "c * avg + nrun * (2048 - c)"
  have "c * lo + lo * (2048 - c) \<le> ?x" "?x \<le> c * hi + hi * (2048 - c)"
    using assms by (intro add_mono mult_left_mono mult_right_mono; simp)+
  then have x: "2048 * lo \<le> ?x" "?x \<le> 2048 * hi" by (simp_all add: algebra_simps)
  have u: "to_uint64 ?x = ?x" using x assms(7,8) by (intro to_uint64_id) simp_all
  have "lo \<le> ?x div 2048" "?x div 2048 \<le> hi" using x by simp_all
  then show ?thesis using assms(7,8) u by (simp add: la_step_def FSCALE_def FSHIFT_def)
qed

lemma la_nrun_le:
  assumes "0 \<le> dbusy" "0 \<le> didle" "dbusy + didle < 2 ^ 64" "0 \<le> n" "n * 2048 < 2 ^ 32" "dbusy * n * 2048 < 2 ^ 64"
  shows "0 \<le> la_nrun dbusy didle n \<and> la_nrun dbusy didle n \<le> n * 2048"
proof (cases "0 < dbusy + didle")
  case True
  have t: "to_uint64 (dbusy + didle) = dbusy + didle" using assms(1-3) by (intro to_uint64_id) simp_all
  have n: "to_uint64 n = n" using assms(4,5) by (intro to_uint64_id) simp_all
  have m0: "dbusy * n \<le> dbusy * n * 2048" using assms(1,4) by simp
  have m: "to_uint64 (dbusy * n) = dbusy * n" using assms(1,4,6) m0 by (intro to_uint64_id) auto
  have f: "to_uint64 (dbusy * n * 2048) = dbusy * n * 2048" using assms(1,4,6) by (intro to_uint64_id) simp_all
  let ?q = "dbusy * n * 2048 div (dbusy + didle)"
  have "dbusy * n * 2048 = n * 2048 * dbusy" by simp
  also have "\<dots> \<le> n * 2048 * (dbusy + didle)" using assms(2,4) by (intro mult_left_mono) simp_all
  finally have "?q \<le> n * 2048 * (dbusy + didle) div (dbusy + didle)" using True by (intro zdiv_mono1) simp_all
  then have q: "?q \<le> n * 2048" using True by simp
  have q0: "0 \<le> ?q" using assms(1,4) True by (simp add: pos_imp_zdiv_nonneg_iff)
  have "to_uint32 ?q = ?q" using q q0 assms(5) by (intro to_uint32_id) simp_all
  then show ?thesis using t n m f q q0 True by (simp add: la_nrun_def FSCALE_def Let_def)
next
  case False
  then have "dbusy + didle = 0" using assms(1,2) by simp
  then show ?thesis using assms(4) by (simp add: la_nrun_def to_uint64_def)
qed

text \<open>Successive readings of the counters: they grow, and not by too much.\<close>

definition counters_ok :: "int \<Rightarrow> int \<times> int \<Rightarrow> int \<times> int \<Rightarrow> bool" where
  "counters_ok n old new \<longleftrightarrow>
     fst old \<le> fst new \<and> snd old \<le> snd new \<and> (fst new - fst old) * n * 2048 < 2 ^ 64 \<and>
     (fst new - fst old) + (snd new - snd old) < 2 ^ 64"

fun steady :: "int \<Rightarrow> int \<times> int \<Rightarrow> (int \<Rightarrow> cpu_ticks option) list \<Rightarrow> bool" where
  "steady n old [] = True"
| "steady n old (l # ls) \<longleftrightarrow> counters_ok n old (la_sum l n) \<and> steady n (la_sum l n) ls"

definition averages_ok :: "int \<Rightarrow> load_state \<Rightarrow> bool" where
  "averages_ok n s \<longleftrightarrow> la_primed s \<and> la_ncpu s = n \<and> fscale s = FSCALE \<and> length (ldavg s) = 3 \<and>
     (\<forall>a \<in> set (ldavg s). 0 \<le> a \<and> a \<le> n * FSCALE)"

lemma sample_ok:
  assumes "averages_ok n s" "0 \<le> n" "n * 2048 < 2 ^ 32" "counters_ok n (la_busy s, la_idle s) (la_sum load n)"
  shows "averages_ok n (la_sample load s) \<and> (la_busy (la_sample load s), la_idle (la_sample load s)) = la_sum load n"
proof -
  obtain b i where bi: "la_sum load n = (b, i)" by (cases "la_sum load n")
  have s: "la_primed s" "la_ncpu s = n" "length (ldavg s) = 3" "\<forall>a \<in> set (ldavg s). 0 \<le> a \<and> a \<le> n * 2048"
    using assms(1) by (auto simp: averages_ok_def FSCALE_def)
  have d: "0 \<le> b - la_busy s" "0 \<le> i - la_idle s" "(b - la_busy s) + (i - la_idle s) < 2 ^ 64" "(b - la_busy s) * n * 2048 < 2 ^ 64"
    using assms(4) bi by (auto simp: counters_ok_def)
  have u: "to_uint64 (b - la_busy s) = b - la_busy s" "to_uint64 (i - la_idle s) = i - la_idle s"
    using d(1-3) by (auto intro!: to_uint64_id)
  define nrun where "nrun = la_nrun (b - la_busy s) (i - la_idle s) n"
  have nr: "0 \<le> nrun" "nrun \<le> n * 2048" using la_nrun_le [OF d(1-3) assms(2,3) d(4)] by (auto simp: nrun_def)
  have "0 \<le> la_step nrun c a \<and> la_step nrun c a \<le> n * 2048" if "(c, a) \<in> set (zip la_cexp (ldavg s))" for c a
  proof -
    have "c \<in> set la_cexp" "a \<in> set (ldavg s)" using that by (auto dest: set_zip_leftD set_zip_rightD)
    then show ?thesis using la_step_between [of c 0 nrun "n * 2048" a] s(4) nr assms(3) by (auto simp: la_cexp_def)
  qed
  then show ?thesis
    using s bi u by (auto simp: la_sample_def averages_ok_def Let_def nrun_def [symmetric] FSCALE_def la_cexp_def)
qed

lemma samples_ok:
  assumes "0 \<le> n" "n * 2048 < 2 ^ 32"
  shows "averages_ok n s \<Longrightarrow> steady n (la_busy s, la_idle s) ls \<Longrightarrow> averages_ok n (fold la_sample ls s)"
proof (induction ls arbitrary: s)
  case (Cons l ls)
  then show ?case using sample_ok [OF Cons.prems(1) assms, of l] by simp
qed simp

lemma start_ok:
  "averages_ok (logical_cpus le) (procfs_loadavg_start le True True load0) \<and>
   (la_busy (procfs_loadavg_start le True True load0), la_idle (procfs_loadavg_start le True True load0)) =
     la_sum (le_cpu_load le) (logical_cpus le)"
  by (auto simp: procfs_loadavg_start_def load0_def la_sample_def averages_ok_def logical_cpus_def FSCALE_def split: prod.split option.split)

text \<open>
  C27: from the start of the sampler on, and as long as the tick counters grow, each
  load average stays between 0 and the number of cpus, and so does the number of
  hundredths that is printed from it.
\<close>

theorem loadavg_in_range:
  assumes "n = logical_cpus le" "n * 2048 < 2 ^ 31" "steady n (la_sum (le_cpu_load le) n) ls" "i < 3"
    and "s = fold la_sample ls (procfs_loadavg_start le True True load0)"
  shows "0 \<le> ldavg s ! i \<and> ldavg s ! i \<le> n * FSCALE \<and> 0 \<le> local_load s i \<and> local_load s i \<le> 100 * n"
proof -
  have n: "0 \<le> n" "n * 2048 < 2 ^ 32" using assms(1,2) by (auto simp: logical_cpus_def split: option.split)
  have a: "averages_ok n s" using samples_ok [OF n, of "procfs_loadavg_start le True True load0" ls] start_ok [of le] assms(1,3,5) by auto
  have l: "0 \<le> ldavg s ! i" "ldavg s ! i \<le> n * 2048" using a assms(4) by (auto simp: averages_ok_def FSCALE_def)
  have u: "to_uint64 (ldavg s ! i * 100) = ldavg s ! i * 100" using l n(2) by (intro to_uint64_id) simp_all
  have "ldavg s ! i * 100 div 2048 \<le> n * 2048 * 100 div 2048" using l(2) by (intro zdiv_mono1) simp_all
  also have "\<dots> = 100 * n" by simp
  finally have d: "ldavg s ! i * 100 div 2048 \<le> 100 * n" .
  have "to_int32 (ldavg s ! i * 100 div 2048) = ldavg s ! i * 100 div 2048"
    using l(1) d assms(2) by (intro to_int32_id) simp_all
  then show ?thesis using l d u a by (simp add: local_load_def averages_ok_def FSCALE_def)
qed

text \<open>Two cpus of which one is busy half of the time.\<close>

definition demo_load :: "int \<Rightarrow> int \<Rightarrow> cpu_ticks option" where
  "demo_load x i =
     (if i = 0 then Some \<lparr> tick_user = x, tick_system = 0, tick_idle = x, tick_nice = 0 \<rparr>
      else if i = 1 then Some \<lparr> tick_user = 0, tick_system = 0, tick_idle = 2 * x, tick_nice = 0 \<rparr> else None)"

definition demo_lenv :: lenv where
  "demo_lenv = \<lparr> le_logicalcpu = Some 2, le_boottime = None, le_memsize = Some 4096, le_swapusage = None, le_uptime = (5, 250000),
     le_version = ''Darwin'', le_cpu_load = demo_load 0, le_wire_count = None, le_mounts = [], le_iokit = None, le_vm_size = 0,
     le_vm = (\<lambda>_. \<lparr> vm_free_count = 0, vm_active_count = 0, vm_inactive_count = 0, vm_wire_count = 0, vm_reactivations = 0,
       vm_pageins = 0, vm_pageouts = 0, vm_faults = 0, vm_cow_faults = 0, vm_purgeable_count = 0, vm_speculative_count = 0,
       vm_decompressions = 0, vm_compressions = 0, vm_swapins = 0, vm_swapouts = 0, vm_compressor_page_count = 0,
       vm_throttled_count = 0, vm_external_page_count = 0, vm_internal_page_count = 0 \<rparr>) \<rparr>"

lemma demo_samples:
  "ldavg (fold la_sample [demo_load 100, demo_load 300] (procfs_loadavg_start demo_lenv True True load0)) = [157, 33, 10]"
  "logical_cpus demo_lenv = 2" "steady 2 (la_sum (le_cpu_load demo_lenv) 2) [demo_load 100, demo_load 300]"
  by code_simp+

theorem loadavg_in_range_witness:
  "0 < ldavg (fold la_sample [demo_load 100, demo_load 300] (procfs_loadavg_start demo_lenv True True load0)) ! 0 \<and>
   local_load (fold la_sample [demo_load 100, demo_load 300] (procfs_loadavg_start demo_lenv True True load0)) 0 \<le> 200"
  using loadavg_in_range [OF demo_samples(2) [symmetric] _ demo_samples(3) _ refl, of 0] demo_samples(1) by simp

section \<open>The rendered nodes are files\<close>

text \<open>A node that behaves as a file with a content, for every request within it.\<close>

definition is_file :: "(uio \<Rightarrow> err \<times> uio) \<Rightarrow> string \<Rightarrow> bool" where
  "is_file rd t \<longleftrightarrow> (\<forall>u. 0 \<le> uio_offset u \<and> uio_offset u \<le> int (length t) \<and> 0 \<le> uio_resid u \<longrightarrow> rd u = file_read t u)"

lemma is_file_reader: "is_file rd t \<Longrightarrow> seq_reader (\<lambda>_ :: unit. rd) (\<lambda>_. t)"
  by (unfold_locales) (simp add: is_file_def file_read_def)

lemma is_file_loop:
  assumes "is_file rd t" "length t < 2 ^ 31" "\<forall>n \<in> set ns. 0 \<le> n" "int (length t) \<le> sum_list ns"
  shows "read_loop rd ns 0 = (t, None, int (length t))"
  using seq_reader.read_loop_all [OF is_file_reader [OF assms(1)] assms(2-4)] .

lemma extending_file:
  assumes "uiomove_ok um" "page_ok pg" "\<forall>n. malloc_ok k n" "0 < sz" "sz + int (length (concat ts)) + 1 + pg \<le> INT_MAX"
  shows "is_file (\<lambda>u. fst (text_node k pg um None sz SBUF_AUTOEXTEND ts u st)) (concat ts)"
  using text_node_extending [OF assms(1,2) _ assms(4,5)] assms(3) by (simp add: is_file_def file_read_def)

lemma fixed_file:
  assumes "uiomove_ok um" "page_ok pg" "length b = nat sz" "0 < sz" "sz \<le> INT_MAX" "int (length (concat ts)) < sz"
  shows "is_file (\<lambda>u. fst (text_node k pg um (Some b) sz SBUF_FIXEDLEN ts u st)) (concat ts)"
  using text_node_fixed [OF assms] by (simp add: is_file_def file_read_def)

lemma snprintf_file: "uiomove_ok um \<Longrightarrow> length t < sz \<Longrightarrow> sz < 2 ^ 31 \<Longrightarrow> is_file (snprintf_copy um sz t) t"
  using snprintf_copy_delivers by (simp add: is_file_def file_read_def)

text \<open>The values fit their C types, and the texts the largest sbuf.\<close>

definition lenv_ok :: "lenv \<Rightarrow> bool" where
  "lenv_ok le \<longleftrightarrow> (case le_memsize le of None \<Rightarrow> True | Some m \<Rightarrow> 0 \<le> m \<and> m < 2 ^ 64) \<and>
     0 \<le> fst (le_uptime le) \<and> fst (le_uptime le) < 2 ^ 63 \<and> 0 \<le> snd (le_uptime le) \<and> snd (le_uptime le) < 1000000"

definition short_text :: "int \<Rightarrow> string list \<Rightarrow> bool" where
  "short_text pg ts \<longleftrightarrow> 4096 + int (length (concat ts)) + 1 + pg \<le> INT_MAX"

lemma length_kb_line: "0 \<le> b \<Longrightarrow> b < 2 ^ 64 \<Longrightarrow> length (kb_line name b) \<le> length name + 24"
proof -
  assume "0 \<le> b" "b < 2 ^ 64"
  then have "b div 2 ^ 10 < 2 ^ 64" by (simp add: div_less_iff_less_mult)
  then show ?thesis using length_fmt_u64 [of "b div 2 ^ 10"] by (simp add: kb_line_def pad_left_def)
qed

lemma length_meminfo:
  assumes "lenv_ok le"
  shows "length (meminfo_text pg le) < 512"
proof -
  define m where "m = (case le_memsize le of None \<Rightarrow> 0 | Some m \<Rightarrow> m)"
  define f where "f = (case le_wire_count le of None \<Rightarrow> 0
    | Some w \<Rightarrow> let wired = to_uint64 (w * pg) in if m > wired then m - wired else 0)"
  have m: "0 \<le> m" "m < 2 ^ 64" using assms by (auto simp: lenv_ok_def m_def split: option.splits)
  have f: "0 \<le> f" "f < 2 ^ 64" using m by (auto simp: f_def Let_def to_uint64_def split: option.split)
  show ?thesis
    using length_kb_line [OF m, of "''MemTotal: ''"] length_kb_line [OF f, of "''MemFree:  ''"] length_kb_line [of 0 "''MemShared:''"]
      length_kb_line [of 0 "''Buffers:  ''"] length_kb_line [of 0 "''Cached:   ''"] length_kb_line [of 0 "''SwapTotal:''"]
      length_kb_line [of 0 "''SwapFree: ''"]
    by (simp add: meminfo_text_def m_def [symmetric] f_def [symmetric] Let_def)
qed

lemma length_uptime:
  assumes "lenv_ok le"
  shows "length (uptime_text le) < 64"
proof -
  have "fst (le_uptime le) < 2 ^ 64" "snd (le_uptime le) div 10000 < 2 ^ 64" "0 \<le> snd (le_uptime le) div 10000"
    using assms by (auto simp: lenv_ok_def div_less_iff_less_mult)
  then have "length (fmt_d (fst (le_uptime le))) \<le> 20" "length (fmt_d (snd (le_uptime le) div 10000)) \<le> 20"
    using length_fmt_u64 assms by (auto simp: fmt_d_def lenv_ok_def)
  then show ?thesis by (simp add: uptime_text_def pad_left_def)
qed

text \<open>
  C29: the nodes \<^verbatim>\<open>stat\<close>, \<^verbatim>\<open>vmstat\<close>, \<^verbatim>\<open>meminfo\<close>, \<^verbatim>\<open>partitions\<close>, \<^verbatim>\<open>mtab\<close>, \<^verbatim>\<open>uptime\<close>, \<^verbatim>\<open>swaps\<close> and \<^verbatim>\<open>filesystems\<close> behave
  as files that hold their whole text: a read at any offset within it delivers the
  bytes from there on. The fixed buffers are never overrun.
\<close>

theorem system_texts_whole:
  assumes "uiomove_ok um" "page_ok pg" "\<forall>n. malloc_ok k n" "lenv_ok le" "procs = fst (procfs_get_process_count k cred st)"
    and "vm = le_vm le (case rq PROCFS_REQ_VMSTAT 0 0 (le_vm_size le) of Inl _ \<Rightarrow> replicate (le_vm_size le) (CHR 0x00)
                | Inr b \<Rightarrow> b @ replicate (le_vm_size le - length b) (CHR 0x00))"
    and "short_text pg (stat_text s le procs)" "short_text pg [vmstat_text vm]" "short_text pg (partitions_text k le)"
      "short_text pg (concat (map procfs_mtab_cb (le_mounts le)))" "short_text pg (swaps_text le)"
      "short_text pg (map (\<lambda>n. (if procfs_fs_is_nodev n then ''nodev'' else []) @ tab @ n @ nl) (fstypes le))"
  shows "is_file (\<lambda>u. fst (procfs_dostat k pg s le um cred u st)) (concat (stat_text s le procs)) \<and>
    is_file (\<lambda>u. fst (procfs_dovmstat k pg rq le um u st)) (vmstat_text vm) \<and>
    is_file (\<lambda>u. fst (procfs_domeminfo k pg le um u st)) (meminfo_text pg le) \<and>
    is_file (\<lambda>u. fst (procfs_dopartitions k pg le um u st)) (concat (partitions_text k le)) \<and>
    is_file (\<lambda>u. fst (procfs_domtab k pg le um u st)) (concat (concat (map procfs_mtab_cb (le_mounts le)))) \<and>
    is_file (procfs_douptime le um) (uptime_text le) \<and>
    is_file (\<lambda>u. fst (procfs_doswaps k pg le um u st)) (concat (swaps_text le)) \<and>
    is_file (\<lambda>u. fst (procfs_dofilesystems k pg le um u st))
      (concat (map (\<lambda>n. (if procfs_fs_is_nodev n then ''nodev'' else []) @ tab @ n @ nl) (fstypes le)))"
proof -
  have x: "is_file (\<lambda>u. fst (text_node k pg um None sz SBUF_AUTOEXTEND ts u st)) (concat ts)"
    if "short_text pg ts" "0 < sz" "sz \<le> 4096" for sz ts
    by (rule extending_file [OF assms(1-3)]) (use that in \<open>auto simp: short_text_def\<close>)
  have "is_file (\<lambda>u. fst (procfs_dostat k pg s le um cred u st)) (concat (stat_text s le procs))"
    using x [OF assms(7), of 2048] assms(3,5) process_count_state [of k cred st]
    by (simp add: procfs_dostat_def case_prod_beta)
  moreover have "is_file (\<lambda>u. fst (procfs_dovmstat k pg rq le um u st)) (vmstat_text vm)"
    using x [OF assms(8), of 2048] assms(6) by (simp add: procfs_dovmstat_def split: sum.splits)
  moreover have "is_file (\<lambda>u. fst (procfs_domeminfo k pg le um u st)) (meminfo_text pg le)"
    using fixed_file [OF assms(1,2), of "replicate 512 (CHR 0x00)" 512 "[meminfo_text pg le]" k st] length_meminfo [OF assms(4), of pg]
    by (simp add: procfs_domeminfo_def INT_MAX_def)
  moreover have "is_file (procfs_douptime le um) (uptime_text le)"
    using snprintf_file [OF assms(1) length_uptime [OF assms(4)]] by (simp add: procfs_douptime_def [abs_def])
  ultimately show ?thesis
    using x [OF assms(9), of 2048] x [OF assms(10), of 4096] x [OF assms(11), of 256] x [OF assms(12), of 512]
    by (simp add: procfs_dopartitions_def procfs_domtab_def procfs_doswaps_def procfs_dofilesystems_def)
qed

lemma demo_procs: "fst (procfs_get_process_count kenv0 cred0 kst0) = 0"
proof -
  have "visible kenv0 c = (\<lambda>_. False)" for c by (simp add: visible_def fun_eq_iff kenv0_def)
  then show ?thesis by (simp add: procfs_get_process_count_def get_pids_state Let_def)
qed

lemma demo_short:
  "short_text 4096 (stat_text load0 demo_lenv 0)" "short_text 4096 [vmstat_text (le_vm demo_lenv [])]"
  "short_text 4096 (partitions_text kenv0 demo_lenv)" "short_text 4096 (concat (map procfs_mtab_cb (le_mounts demo_lenv)))"
  "short_text 4096 (swaps_text demo_lenv)"
  "short_text 4096 (map (\<lambda>n. (if procfs_fs_is_nodev n then ''nodev'' else []) @ tab @ n @ nl) (fstypes demo_lenv))"
  by code_simp+

theorem system_texts_whole_witness:
  "read_loop (procfs_douptime demo_lenv uiomove_ref) [4, 2, 100] 0 = (''5.25 0.00'' @ nl, None, 10) \<and>
   is_file (\<lambda>u. fst (procfs_dostat kenv0 4096 load0 demo_lenv uiomove_ref cred0 u kst0)) (concat (stat_text load0 demo_lenv 0))"
proof -
  have "le_vm demo_lenv [] = le_vm demo_lenv (case Inl ENOTCONN of Inl _ \<Rightarrow> replicate (le_vm_size demo_lenv) (CHR 0x00)
      | Inr b \<Rightarrow> b @ replicate (le_vm_size demo_lenv - length b) (CHR 0x00))" by (simp add: demo_lenv_def)
  moreover have "\<forall>n. malloc_ok kenv0 n" "lenv_ok demo_lenv" by (simp_all add: kenv0_def lenv_ok_def demo_lenv_def)
  ultimately have f: "is_file (procfs_douptime demo_lenv uiomove_ref) (uptime_text demo_lenv)"
      "is_file (\<lambda>u. fst (procfs_dostat kenv0 4096 load0 demo_lenv uiomove_ref cred0 u kst0)) (concat (stat_text load0 demo_lenv 0))"
    using system_texts_whole [OF uiomove_ok_ref page_ok_4096 _ _ demo_procs [symmetric] _ demo_short, of "\<lambda>_ _ _ _. Inl ENOTCONN"] by blast+
  have t: "uptime_text demo_lenv = ''5.25 0.00'' @ nl" by code_simp
  show ?thesis using is_file_loop [OF f(1), of "[4, 2, 100]"] f(2) by (simp add: t)
qed

section \<open>File system types\<close>

definition nub :: "'a list \<Rightarrow> 'a list" where
  "nub xs = rev (remdups (rev xs))"

lemma nub_snoc: "nub (xs @ [x]) = (if x \<in> set xs then nub xs else nub xs @ [x])"
  by (simp add: nub_def)

lemma set_nub [simp]: "set (nub xs) = set xs" "distinct (nub xs)"
  by (simp_all add: nub_def)

lemma fstypes_fold:
  assumes "\<forall>t \<in> set (map f_fstypename ms). length t < MFSTYPENAMELEN"
  shows "fold procfs_fstypes_cb (map Some ms) [] = take PROCFS_FSTYPES_MAX (nub (map f_fstypename ms))"
  using assms
proof (induction ms rule: rev_induct)
  case (snoc m ms)
  define L where "L = take PROCFS_FSTYPES_MAX (nub (map f_fstypename ms))"
  define t where "t = f_fstypename m"
  have cut: "take MFSTYPENAMELEN x = x" if "x \<in> set L \<or> x = t" for x
    using snoc.prems that by (auto simp: L_def t_def less_imp_le dest!: in_set_takeD)
  have "fold procfs_fstypes_cb (map Some (ms @ [m])) [] = procfs_fstypes_cb (Some m) L"
    using snoc by (simp add: L_def)
  also have "\<dots> = (if t \<in> set L then L else if length L < PROCFS_FSTYPES_MAX then L @ [t] else L)"
    using cut snoc.prems by (auto simp: procfs_fstypes_cb_def t_def)
  also have "\<dots> = take PROCFS_FSTYPES_MAX (nub (map f_fstypename (ms @ [m])))"
  proof (cases "t \<in> set (map f_fstypename ms)")
    case True
    have "t \<in> set L \<or> \<not> length L < PROCFS_FSTYPES_MAX"
    proof (cases "length (nub (map f_fstypename ms)) \<le> PROCFS_FSTYPES_MAX")
      case True
      then show ?thesis using \<open>t \<in> set (map f_fstypename ms)\<close> by (simp add: L_def)
    qed (simp add: L_def)
    then show ?thesis using True by (auto simp: L_def t_def nub_snoc)
  next
    case False
    then have "t \<notin> set L" by (auto simp: L_def dest!: in_set_takeD)
    then show ?thesis using False by (auto simp: L_def t_def nub_snoc)
  qed
  finally show ?case .
qed (simp add: nub_def)

text \<open>
  \<^verbatim>\<open>filesystems\<close> has one line per type in the order of the first mount of the
  type, the first 32 of them.
\<close>

lemma filesystems_once:
  assumes "le_mounts le = map Some ms" "\<forall>t \<in> set (map f_fstypename ms). length t < MFSTYPENAMELEN"
  shows "fstypes le = take PROCFS_FSTYPES_MAX (nub (map f_fstypename ms))" "distinct (fstypes le)"
  using fstypes_fold [OF assms(2)] assms(1) by (simp_all add: fstypes_def)

text \<open>The options of a mount are never cut.\<close>

lemma mtab_options_whole:
  "procfs_mtab_options flags 160 =
     (if flags AND MNT_RDONLY \<noteq> 0 then ''ro'' else ''rw'') @ concat (map snd (filter (\<lambda>(f, s). flags AND f \<noteq> 0) mtab_tab))"
proof -
  have "fold (\<lambda>(flag, opt) out. if flags AND flag \<noteq> 0 then strlcat 160 out opt else out) tb out =
      out @ concat (map snd (filter (\<lambda>(f, s). flags AND f \<noteq> 0) tb))"
    if "length out + length (concat (map snd tb)) < 160" for tb out
    using that
  proof (induction tb arbitrary: out)
    case (Cons a tb)
    then show ?case by (cases a) (auto simp: strlcat_def)
  qed simp
  from this [of "if flags AND MNT_RDONLY \<noteq> 0 then ''ro'' else ''rw''" mtab_tab]
  show ?thesis by (simp add: procfs_mtab_options_def mtab_tab_def del: filter.simps fold_Cons fold.simps)
qed

section \<open>The nodes that start over\<close>

text \<open>
  \<^verbatim>\<open>version\<close>, \<^verbatim>\<open>loadavg\<close> and \<^verbatim>\<open>cpuinfo\<close> deliver their text to a single large read. A read
  that continues at an offset gets the beginning of the text again.
\<close>

lemma page_text_first:
  assumes "uiomove_ok um" "length t < LBFSZ" "0 < pg" "uio_offset u = 0" "0 \<le> uio_resid u"
  shows "copy_page_text pg um t u = file_read t u"
proof -
  have l: "to_int32 (int (length t)) = int (length t)" using assms(2) by (intro to_int32_id) (simp_all add: LBFSZ_def)
  then show ?thesis
    using uiomove_okD [OF assms(1), of "(t @ [CHR 0x00], 0)" "int (length t)" u] assms
    by (simp add: copy_page_text_def in_buffer_def uiomove_ref_def file_read_def min_def)
qed

lemma page_text_repeats:
  assumes "uiomove_ok um" "length t < LBFSZ" "0 \<le> uio_offset u" "uio_offset u < pg" "uio_offset u \<le> int (length t)" "0 \<le> uio_resid u"
  shows "copy_page_text pg um t u = (None, uio_put (take (nat (min (int (length t) - uio_offset u) (uio_resid u))) t) u)"
proof -
  have l: "to_int32 (int (length t) - uio_offset u) = int (length t) - uio_offset u"
    using assms(2,3,5) by (intro to_int32_id) (simp_all add: LBFSZ_def)
  have m: "uio_offset u mod pg = uio_offset u" using assms(3,4) by simp
  show ?thesis
    using uiomove_okD [OF assms(1), of "(t @ [CHR 0x00], 0)" "int (length t) - uio_offset u" u] assms l m
    by (simp add: copy_page_text_def in_buffer_def uiomove_ref_def min_def)
qed

lemma version_not_a_file:
  "fst (read_loop (\<lambda>u. fst (procfs_doversion demo_lenv 4096 uiomove_ref u kst0)) [4, 3] 0) = ''DarwDar''"
  by code_simp

end
