(* ===== verification/Klookup.thy ===== *)
theory Klookup
imports Kernel
begin

text \<open>
  Private kernel symbols: the stager \<^verbatim>\<open>tools/procfs_ksyms.c\<close> that writes
  \<^verbatim>\<open>/var/db/procfs.ksyms\<close>, and \<^verbatim>\<open>lib/libklookup\<close> with \<^verbatim>\<open>resolve_symbols\<close> of
  \<^verbatim>\<open>kext/lib/symbols.c\<close>, which read it in the kernel. What the one writes the other
  resolves to the slid address of the symbol, and a file of another kernel resolves
  to nothing. The file reader of \<^verbatim>\<open>lib/libreadfile\<close> is here as well.
\<close>

section \<open>Reading a file in the kernel\<close>

text \<open>
  The VFS calls, as parameters: looking a path up gives a vnode or an error, reading
  gives an error and the bytes moved. References held are counted.
\<close>

record fenv =
  fn_ctx_ok :: bool
  fn_uio_ok :: bool
  fn_addiov :: err
  fn_lookup :: "string \<Rightarrow> errno + nat"
  fn_read :: "nat \<Rightarrow> int \<Rightarrow> nat \<Rightarrow> err \<times> bytes"

record fres =
  fr_ctx :: int
  fr_uio :: int
  fr_vp :: int

text \<open>The vector is the only one of a fresh \<^verbatim>\<open>uio\<close>, so adding it succeeds.\<close>

definition kl_slurp :: "fenv \<Rightarrow> string \<Rightarrow> nat \<Rightarrow> fres \<Rightarrow> err \<times> bytes \<times> fres" where
  "kl_slurp fe path cap r =
     (case fn_lookup fe path of
        Inl _ \<Rightarrow> (Some ENOENT, [], r)
      | Inr vp \<Rightarrow>
          (let r = r\<lparr> fr_vp := fr_vp r + 1 \<rparr>
           in if \<not> fn_uio_ok fe then (Some ENOMEM, [], r\<lparr> fr_vp := fr_vp r - 1 \<rparr>)
              else let r = r\<lparr> fr_uio := fr_uio r + 1 \<rparr>;
                       (e, data) = fn_read fe vp 0 cap;
                       r = r\<lparr> fr_uio := fr_uio r - 1 \<rparr>
                   in (e, data, r\<lparr> fr_vp := fr_vp r - 1 \<rparr>)))"

definition read_file :: "fenv \<Rightarrow> string \<Rightarrow> int \<Rightarrow> nat \<Rightarrow> fres \<Rightarrow> (errno + bytes) \<times> fres" where
  "read_file fe path off n r =
     (if \<not> fn_ctx_ok fe then (Inl EIO, r)
      else let r = r\<lparr> fr_ctx := fr_ctx r + 1 \<rparr>
           in case fn_lookup fe path of
                Inl _ \<Rightarrow> (Inl ENOENT, r\<lparr> fr_ctx := fr_ctx r - 1 \<rparr>)
              | Inr vp \<Rightarrow>
                  (let r = r\<lparr> fr_vp := fr_vp r + 1 \<rparr>;
                       (res, r) =
                         (if \<not> fn_uio_ok fe then (Inl EIO, r)
                          else let r = r\<lparr> fr_uio := fr_uio r + 1 \<rparr>
                               in if fn_addiov fe \<noteq> None then (Inl EIO, r)
                                  else case fn_read fe vp off n of
                                         (Some _, _) \<Rightarrow> (Inl EIO, r)
                                       | (None, data) \<Rightarrow> if length data \<noteq> n then (Inl EIO, r) else (Inr data, r));
                       r = r\<lparr> fr_vp := fr_vp r - 1 \<rparr>
                   in (res, r\<lparr> fr_ctx := fr_ctx r - 1 \<rparr>)))"

section \<open>libklookup\<close>

definition KL_STAGED_PATH :: string where "KL_STAGED_PATH = ''/var/db/procfs.ksyms''"
definition KL_MAX :: nat where "KL_MAX = 8192"

definition hex_digit :: "char \<Rightarrow> int option" where
  "hex_digit c =
     (let n = of_char c :: nat
      in if 48 \<le> n \<and> n \<le> 57 then Some (int n - 48)
         else if 97 \<le> n \<and> n \<le> 102 then Some (int n - 97 + 10)
         else if 65 \<le> n \<and> n \<le> 70 then Some (int n - 65 + 10)
         else None)"

fun kl_hex :: "int \<Rightarrow> string \<Rightarrow> int" where
  "kl_hex v [] = v"
| "kl_hex v (c # h) = (case hex_digit c of None \<Rightarrow> v | Some d \<Rightarrow> kl_hex (to_uint64 (v * 16) + d) h)"

definition skip_0x :: "string \<Rightarrow> string" where
  "skip_0x h = (if 2 \<le> length h \<and> h ! 0 = CHR ''0'' \<and> (h ! 1 = CHR ''x'' \<or> h ! 1 = CHR ''X'') then drop 2 h else h)"

definition line_of :: "string \<Rightarrow> string" where
  "line_of p = takeWhile (\<lambda>c. c \<noteq> CHR 0x0A) p"

definition line_names :: "string \<Rightarrow> string \<Rightarrow> bool" where
  "line_names l name \<longleftrightarrow> length name + 1 < length l \<and> take (length name) l = name \<and> l ! length name = CHR '' ''"

function kl_line_value :: "string \<Rightarrow> string \<Rightarrow> int" where
  "kl_line_value p name =
     (if p = [] then 0
      else let l = line_of p
           in if line_names l name then kl_hex 0 (skip_0x (drop (length name + 1) l))
              else kl_line_value (drop (length l + 1) p) name)"
  by auto
termination by (relation "measure (length \<circ> fst)") auto

declare kl_line_value.simps [simp del]

text \<open>The static tag, allocated at the first call and never freed.\<close>

record kl_state =
  g_kl_tag :: bool
  kl_res :: fres

record kl_env =
  kn_tag_ok :: bool
  kn_file :: fenv
  kn_version :: int
  kn_kernel_pmap :: int

text \<open>The addresses, \<open>0\<close> for NULL. The buffer is freed on every path.\<close>

definition klookup_resolve :: "kenv \<Rightarrow> kl_env \<Rightarrow> string list \<Rightarrow> kl_state \<Rightarrow> kst \<Rightarrow> int list \<times> kl_state \<times> kst" where
  "klookup_resolve k kn names s st =
     (let none = replicate (length names) 0;
          s = (if g_kl_tag s then s else s\<lparr> g_kl_tag := kn_tag_ok kn \<rparr>)
      in if \<not> g_kl_tag s then (none, s, st)
         else case OSMalloc k (int KL_MAX) st of
           (False, st) \<Rightarrow> (none, s, st)
         | (True, st) \<Rightarrow>
             (let r = (kl_res s)\<lparr> fr_ctx := fr_ctx (kl_res s) + 1 \<rparr>;
                  (e, buf, r) = kl_slurp (kn_file kn) KL_STAGED_PATH (KL_MAX - 1) r;
                  s = s\<lparr> kl_res := r\<lparr> fr_ctx := fr_ctx r - 1 \<rparr> \<rparr>;
                  version_raw = kl_line_value buf ''_version'';
                  kpmap_raw = kl_line_value buf ''_kernel_pmap'';
                  slide = to_int64 (to_int64 (kn_version kn) - to_int64 version_raw)
              in if e \<noteq> None \<or> buf = [] then (none, s, OSFree (int KL_MAX) st)
                 else if version_raw = 0 then (none, s, OSFree (int KL_MAX) st)
                 else if kpmap_raw \<noteq> 0 \<and> to_uint64 (kpmap_raw + slide) \<noteq> kn_kernel_pmap kn
                 then (none, s, OSFree (int KL_MAX) st)
                 else (map (\<lambda>n. let raw = kl_line_value buf n in if raw \<noteq> 0 then to_uint64 (raw + slide) else 0) names,
                       s, OSFree (int KL_MAX) st)))"

definition SymbolLookup :: "kenv \<Rightarrow> kl_env \<Rightarrow> string \<Rightarrow> kl_state \<Rightarrow> kst \<Rightarrow> int \<times> kl_state \<times> kst" where
  "SymbolLookup k kn symbol s st = (case klookup_resolve k kn [symbol] s st of (out, s, st) \<Rightarrow> (out ! 0, s, st))"

record kl_syms =
  procfs_klookup_ok :: bool
  kl_proc_gettty :: int
  kl_cpu_to_processor :: int
  kl_vm_page_wire_count :: int
  kl_get_task_map :: int
  kl_mach_vm_region :: int

definition kl_syms0 :: kl_syms where
  "kl_syms0 = \<lparr> procfs_klookup_ok = False, kl_proc_gettty = 0, kl_cpu_to_processor = 0, kl_vm_page_wire_count = 0,
     kl_get_task_map = 0, kl_mach_vm_region = 0 \<rparr>"

definition resolve_names :: "string list" where
  "resolve_names =
     [''_version'', ''_proc_gettty'', ''_cpu_to_processor'', ''_vm_page_wire_count'', ''_get_task_map'', ''_mach_vm_region'']"

text \<open>Always \<^verbatim>\<open>KERN_SUCCESS\<close>.\<close>

definition resolve_symbols :: "kenv \<Rightarrow> kl_env \<Rightarrow> kl_syms \<Rightarrow> kl_state \<Rightarrow> kst \<Rightarrow> kl_syms \<times> kl_state \<times> kst" where
  "resolve_symbols k kn y s st =
     (case klookup_resolve k kn resolve_names s st of
        (a, s, st) \<Rightarrow>
          if a ! 0 \<noteq> kn_version kn then (y, s, st)
          else (y\<lparr> procfs_klookup_ok := True, kl_proc_gettty := (if a ! 1 \<noteq> 0 then a ! 1 else kl_proc_gettty y),
                  kl_cpu_to_processor := a ! 2, kl_get_task_map := a ! 4, kl_mach_vm_region := a ! 5,
                  kl_vm_page_wire_count := a ! 3 \<rparr>, s, st))"

section \<open>The stager\<close>

definition WANTED :: "string list" where
  "WANTED = [''_version'', ''_kernel_pmap'', ''_proc_gettty'', ''_cpu_to_processor'', ''_vm_page_wire_count'',
             ''_get_task_map'', ''_mach_vm_region'']"

text \<open>\<^verbatim>\<open>memmem\<close> and \<^verbatim>\<open>strstr\<close>: what follows the first occurrence, from its start.\<close>

fun memmem :: "bytes \<Rightarrow> bytes \<Rightarrow> bytes option" where
  "memmem pat [] = (if pat = [] then Some [] else None)"
| "memmem pat (x # b) = (if take (length pat) (x # b) = pat then Some (x # b) else memmem pat b)"

definition xnu_token :: "string \<Rightarrow> nat \<Rightarrow> string option" where
  "xnu_token s outsz = map_option (\<lambda>p. take (outsz - 1) (takeWhile (\<lambda>c. c \<noteq> CHR '' '') p)) (memmem ''xnu-'' s)"

text \<open>
  A candidate is the bytes of the file, \<open>None\<close> when it cannot be opened or read whole;
  \<open>decode\<close> is the LZFSE decoder of the compression library, an empty result its failure.
\<close>

fun pick_kernelcache :: "(bytes \<Rightarrow> bytes) \<Rightarrow> string \<Rightarrow> bytes option list \<Rightarrow> bytes option" where
  "pick_kernelcache decode want_xnu [] = None"
| "pick_kernelcache decode want_xnu (None # cs) = pick_kernelcache decode want_xnu cs"
| "pick_kernelcache decode want_xnu (Some raw # cs) =
     (case memmem ''bvx2'' raw of
        None \<Rightarrow> pick_kernelcache decode want_xnu cs
      | Some bvx \<Rightarrow>
          (let dec = decode bvx
           in if dec = [] then pick_kernelcache decode want_xnu cs
              else case memmem ''Darwin Kernel Version'' dec of
                None \<Rightarrow> pick_kernelcache decode want_xnu cs
              | Some vs \<Rightarrow>
                  if xnu_token (take 255 (cstr vs)) 64 = Some want_xnu then Some dec
                  else pick_kernelcache decode want_xnu cs))"

text \<open>An unsigned field of \<open>n\<close> bytes; \<open>None\<close> outside the image.\<close>

definition field :: "bytes \<Rightarrow> nat \<Rightarrow> nat \<Rightarrow> int option" where
  "field b off n = (if off + n \<le> length b then Some (le_value (take n (drop off b))) else None)"

definition LC_FILESET_ENTRY :: int where "LC_FILESET_ENTRY = 0x80000035"
definition LC_SYMTAB :: int where "LC_SYMTAB = 2"
definition MACH_HEADER_64 :: nat where "MACH_HEADER_64 = 32"

text \<open>The file offset of the kernel slice; the last entry of that name counts.\<close>

fun kernel_slice :: "bytes \<Rightarrow> nat \<Rightarrow> nat \<Rightarrow> nat \<Rightarrow> nat option" where
  "kernel_slice out 0 off kfo = Some kfo"
| "kernel_slice out (Suc n) off kfo =
     (case (field out off 4, field out (off + 4) 4) of
        (Some cmd, Some cmdsize) \<Rightarrow>
          if cmd = LC_FILESET_ENTRY
          then (case (field out (off + 16) 8, field out (off + 24) 4) of
                  (Some fileoff, Some nm) \<Rightarrow>
                    kernel_slice out n (off + nat cmdsize) (if cstr (drop (off + nat nm) out) = ''com.apple.kernel'' then nat fileoff else kfo)
                | _ \<Rightarrow> None)
          else kernel_slice out n (off + nat cmdsize) kfo
      | _ \<Rightarrow> None)"

text \<open>The offset of the first symbol table command, \<open>Some None\<close> when there is none.\<close>

fun find_symtab :: "bytes \<Rightarrow> nat \<Rightarrow> nat \<Rightarrow> nat option option" where
  "find_symtab out 0 off = Some None"
| "find_symtab out (Suc n) off =
     (case (field out off 4, field out (off + 4) 4) of
        (Some cmd, Some cmdsize) \<Rightarrow> if cmd = LC_SYMTAB then Some (Some off) else find_symtab out n (off + nat cmdsize)
      | _ \<Rightarrow> None)"

definition take_symbol :: "(nat \<Rightarrow> string) \<Rightarrow> nat \<Rightarrow> nat \<times> int \<Rightarrow> int list \<Rightarrow> int list" where
  "take_symbol strs strsize ns addr =
     (let (sx, val) = ns
      in if sx = 0 \<or> strsize \<le> sx \<or> val = 0 then addr
         else map2 (\<lambda>w a. if a = 0 \<and> strs sx = w then val else a) WANTED addr)"

definition collect_symbols :: "(nat \<Rightarrow> string) \<Rightarrow> nat \<Rightarrow> (nat \<times> int) list \<Rightarrow> int list" where
  "collect_symbols strs strsize syms = fold (take_symbol strs strsize) syms (replicate (length WANTED) 0)"

text \<open>The \<open>nlist_64\<close> entries of a symbol table: the string index and the value.\<close>

fun read_nlist :: "bytes \<Rightarrow> nat \<Rightarrow> nat \<Rightarrow> (nat \<times> int) list option" where
  "read_nlist out 0 off = Some []"
| "read_nlist out (Suc n) off =
     (case (field out off 4, field out (off + 8) 8, read_nlist out n (off + 16)) of
        (Some sx, Some val, Some l) \<Rightarrow> Some ((nat sx, val) # l)
      | _ \<Rightarrow> None)"

definition symbol_line :: "string \<Rightarrow> int \<Rightarrow> string" where
  "symbol_line w a = (if a \<noteq> 0 then w @ '' 0x'' @ fmt_x a @ [CHR 0x0A] else [])"

definition staged_text :: "string \<Rightarrow> int list \<Rightarrow> string" where
  "staged_text want_xnu addr =
     ''# procfs kernel symbols (auto-generated; do not edit)'' @ [CHR 0x0A] @ ''# build '' @ want_xnu @ [CHR 0x0A] @
     concat (map2 symbol_line WANTED addr)"

datatype stage_error = No_version | No_token | No_kernelcache | No_match | No_slice | No_symtab | No_anchor | Bad_image

text \<open>
  The symbol table of an image: its strings by index, their size and its entries.
  \<open>Bad_image\<close> marks a read outside the decoded image, which the code does not check;
  a string ends at the end of the image at the latest.
\<close>

definition load_symtab :: "bytes \<Rightarrow> stage_error + (nat \<Rightarrow> string) \<times> nat \<times> (nat \<times> int) list" where
  "load_symtab out =
     (case Option.bind (field out 16 4) (\<lambda>ncmds. kernel_slice out (nat ncmds) MACH_HEADER_64 0) of
        None \<Rightarrow> Inl Bad_image
      | Some kfo \<Rightarrow>
          if kfo = 0 then Inl No_slice
          else case Option.bind (field out (kfo + 16) 4) (\<lambda>ncmds. find_symtab out (nat ncmds) (kfo + MACH_HEADER_64)) of
                 None \<Rightarrow> Inl Bad_image
               | Some None \<Rightarrow> Inl No_symtab
               | Some (Some sc) \<Rightarrow>
                   (case (field out (sc + 8) 4, field out (sc + 12) 4, field out (sc + 16) 4, field out (sc + 20) 4) of
                      (Some symoff, Some nsyms, Some stroff, Some strsize) \<Rightarrow>
                        (case read_nlist out (nat nsyms) (nat symoff) of
                           None \<Rightarrow> Inl Bad_image
                         | Some syms \<Rightarrow> Inr (\<lambda>sx. cstr (drop (nat stroff + sx) out), nat strsize, syms))
                    | _ \<Rightarrow> Inl Bad_image))"

definition stage_image :: "string \<Rightarrow> bytes \<Rightarrow> stage_error + string" where
  "stage_image want_xnu out =
     (case load_symtab out of
        Inl e \<Rightarrow> Inl e
      | Inr (strs, strsize, syms) \<Rightarrow>
          (let addr = collect_symbols strs strsize syms
           in if addr ! 0 = 0 \<or> addr ! 1 = 0 then Inl No_anchor else Inr (staged_text want_xnu addr)))"

text \<open>The stager, up to writing the text to a temporary file and renaming it.\<close>

definition procfs_ksyms :: "(bytes \<Rightarrow> bytes) \<Rightarrow> string option \<Rightarrow> bytes option list \<Rightarrow> stage_error + string" where
  "procfs_ksyms decode kern_version caches =
     (case kern_version of
        None \<Rightarrow> Inl No_version
      | Some uname_v \<Rightarrow>
          (case xnu_token uname_v 64 of
             None \<Rightarrow> Inl No_token
           | Some want_xnu \<Rightarrow>
               if caches = [] then Inl No_kernelcache
               else case pick_kernelcache decode want_xnu caches of
                      None \<Rightarrow> Inl No_match
                    | Some out \<Rightarrow> stage_image want_xnu out))"

section \<open>Printing and reading an address\<close>

lemma hex_digit_char [simp]: "d < 16 \<Longrightarrow> hex_digit (digit_char d) = Some (int d)"
  by (auto simp: hex_digit_def digit_char_def Let_def)

lemma nat_to_base16_digits: "c \<in> set (nat_to_base 16 n) \<Longrightarrow> \<exists>d < 16. c = digit_char d"
proof (induction "16 :: nat" n rule: nat_to_base.induct)
  case (1 n)
  show ?case
  proof (cases "n < 16")
    case True
    then show ?thesis using 1(2) by (auto simp: nat_to_base.simps)
  next
    case False
    then have "c \<in> set (nat_to_base 16 (n div 16)) \<or> c = digit_char (n mod 16)"
      using 1(2) by (subst (asm) nat_to_base.simps) auto
    then show ?thesis using 1(1) False by (auto intro: exI [of _ "n mod 16"])
  qed
qed

lemma kl_hex_append: "\<forall>c \<in> set s. hex_digit c \<noteq> None \<Longrightarrow> kl_hex v (s @ t) = kl_hex (kl_hex v s) t"
  by (induction s arbitrary: v) auto

lemma kl_hex_print: "n < 2 ^ 64 \<Longrightarrow> kl_hex 0 (nat_to_base 16 n) = int n"
proof (induction "16 :: nat" n rule: nat_to_base.induct)
  case (1 n)
  show ?case
  proof (cases "n < 16")
    case True
    then show ?thesis by (simp add: nat_to_base.simps to_uint64_def)
  next
    case False
    have d: "\<forall>c \<in> set (nat_to_base 16 (n div 16)). hex_digit c \<noteq> None"
      using nat_to_base16_digits by fastforce
    have m: "int (n div 16) * 16 + int (n mod 16) = int n" by presburger
    have "int n < 2 ^ 64" using 1(2) by simp
    then have "0 \<le> int (n div 16) * 16" "int (n div 16) * 16 < 2 ^ 64" using m by linarith+
    then have "to_uint64 (int (n div 16) * 16) = int (n div 16) * 16" by (intro to_uint64_id)
    then show ?thesis
      using False 1 m by (subst nat_to_base.simps) (simp add: kl_hex_append [OF d])
  qed
qed

lemma digit_char_cases: "d < 16 \<Longrightarrow> digit_char d \<noteq> CHR 0x0A"
proof
  assume "d < 16" "digit_char d = CHR 0x0A"
  then have "hex_digit (CHR 0x0A) = Some (int d)" using hex_digit_char by metis
  then show False by (simp add: hex_digit_def)
qed

lemma fmt_x_no_newline: "CHR 0x0A \<notin> set (fmt_x a)"
  using nat_to_base16_digits digit_char_cases unfolding fmt_x_def by metis

lemma fmt_x_length: "n < 16 ^ m \<Longrightarrow> 0 < m \<Longrightarrow> length (nat_to_base 16 n) \<le> m"
proof (induction m arbitrary: n)
  case (Suc m)
  show ?case
  proof (cases "n < 16")
    case True
    then show ?thesis by (simp add: nat_to_base.simps)
  next
    case False
    then have "0 < m" using Suc.prems by (cases m) auto
    moreover have "n div 16 < 16 ^ m" using Suc.prems(1) by (simp add: less_mult_imp_div_less mult.commute)
    ultimately show ?thesis using Suc.IH [of "n div 16"] False by (subst nat_to_base.simps) simp
  qed
qed simp

section \<open>Reading the staged text\<close>

lemma kl_line_value_line:
  assumes "CHR 0x0A \<notin> set l"
  shows "kl_line_value (l @ CHR 0x0A # p) name =
    (if line_names l name then kl_hex 0 (skip_0x (drop (length name + 1) l)) else kl_line_value p name)"
proof -
  have "line_of (l @ CHR 0x0A # p) = l" using assms unfolding line_of_def by (subst takeWhile_append2) auto
  then show ?thesis by (subst kl_line_value.simps) (simp add: Let_def)
qed

lemma line_names_iff:
  assumes "CHR '' '' \<notin> set w" "CHR '' '' \<notin> set name" "h \<noteq> []"
  shows "line_names (w @ CHR '' '' # h) name \<longleftrightarrow> name = w"
proof -
  have t: "takeWhile (\<lambda>c. c \<noteq> CHR '' '') (v @ CHR '' '' # r) = v" if "CHR '' '' \<notin> set v" for v r
    using that by (subst takeWhile_append2) auto
  have "name = w" if n: "line_names (w @ CHR '' '' # h) name"
  proof -
    let ?l = "w @ CHR '' '' # h"
    have "?l = take (length name) ?l @ ?l ! length name # drop (Suc (length name)) ?l"
      using n by (intro id_take_nth_drop) (simp add: line_names_def)
    then have "?l = name @ CHR '' '' # drop (Suc (length name)) ?l" using n unfolding line_names_def by metis
    then show ?thesis using t assms(1,2) by metis
  qed
  moreover have "line_names (w @ CHR '' '' # h) w" using assms(3) by (simp add: line_names_def)
  ultimately show ?thesis by blast
qed

definition symbol_name :: "string \<Rightarrow> bool" where
  "symbol_name w \<longleftrightarrow> CHR '' '' \<notin> set w \<and> CHR 0x0A \<notin> set w \<and> take 1 w = ''_''"

lemma plain_wanted: "w \<in> set WANTED \<Longrightarrow> symbol_name w"
  by (auto simp: WANTED_def symbol_name_def)

lemma line_comment: "symbol_name name \<Longrightarrow> \<not> line_names (CHR ''#'' # h) name"
  by (cases name) (auto simp: line_names_def symbol_name_def)

lemma symbol_line_value:
  assumes "symbol_name w" "symbol_name name" "0 \<le> a" "a < 2 ^ 64"
  shows "kl_line_value (symbol_line w a @ p) name = (if name = w \<and> a \<noteq> 0 then a else kl_line_value p name)"
proof (cases "a = 0")
  case False
  have n: "CHR 0x0A \<notin> set (w @ '' 0x'' @ fmt_x a)" using assms(1) fmt_x_no_newline by (auto simp: symbol_name_def)
  have "kl_hex 0 (fmt_x a) = a" using kl_hex_print [of "nat a"] assms(3,4) by (simp add: fmt_x_def nat_less_iff)
  then show ?thesis
    using False kl_line_value_line [OF n, of p name] line_names_iff [of w name "''0x'' @ fmt_x a"] assms(1,2)
    by (auto simp: symbol_line_def symbol_name_def skip_0x_def)
qed (simp add: symbol_line_def)

lemma symbol_lines_value:
  assumes "\<forall>w \<in> set ws. symbol_name w" "symbol_name name" "\<forall>w. 0 \<le> f w \<and> f w < 2 ^ 64"
  shows "kl_line_value (concat (map2 symbol_line ws (map f ws))) name = (if name \<in> set ws then f name else 0)"
  using assms(1)
proof (induction ws)
  case Nil
  then show ?case by (simp add: kl_line_value.simps)
next
  case (Cons w ws)
  then show ?case using symbol_line_value [of w name "f w"] assms(2,3) by auto
qed

lemma staged_value:
  assumes "CHR 0x0A \<notin> set xnu" "symbol_name name" "\<forall>w. 0 \<le> f w \<and> f w < 2 ^ 64"
  shows "kl_line_value (staged_text xnu (map f WANTED)) name = (if name \<in> set WANTED then f name else 0)"
proof -
  have c: "kl_line_value (CHR ''#'' # h @ CHR 0x0A # p) name = kl_line_value p name" if "CHR 0x0A \<notin> set h" for h p
    using kl_line_value_line [of "CHR ''#'' # h" p name] line_comment [OF assms(2)] that by simp
  have "kl_line_value (staged_text xnu (map f WANTED)) name = kl_line_value (concat (map2 symbol_line WANTED (map f WANTED))) name"
    unfolding staged_text_def using c [of "'' procfs kernel symbols (auto-generated; do not edit)''"] c [of "'' build '' @ xnu"] assms(1)
    by simp
  then show ?thesis using symbol_lines_value [OF _ assms(2,3), of WANTED] plain_wanted by simp
qed

lemma length_staged:
  assumes "length xnu < 64" "\<forall>w. 0 \<le> f w \<and> f w < 2 ^ 64"
  shows "length (staged_text xnu (map f WANTED)) < KL_MAX"
proof -
  have "length (fmt_x (f w)) \<le> 16" for w
    using fmt_x_length [of "nat (f w)" 16] assms(2) by (simp add: fmt_x_def nat_less_iff)
  then have "length (symbol_line w (f w)) \<le> length w + 20" for w by (simp add: symbol_line_def)
  then have l: "length (concat (map2 symbol_line ws (map f ws))) \<le> sum_list (map length ws) + 20 * length ws" for ws
    by (induction ws) (auto intro: add_mono order_trans simp: add_le_mono)
  have "sum_list (map length WANTED) + 20 * length WANTED \<le> 300" by (simp add: WANTED_def)
  then show ?thesis using l [of WANTED] assms(1) unfolding staged_text_def KL_MAX_def by simp
qed

section \<open>Collecting symbols\<close>

text \<open>The value of the first symbol of a name, \<open>0\<close> when the table has none.\<close>

definition first_symbol :: "(nat \<Rightarrow> string) \<Rightarrow> nat \<Rightarrow> (nat \<times> int) list \<Rightarrow> string \<Rightarrow> int" where
  "first_symbol strs strsize syms w =
     (case find (\<lambda>(sx, val). sx \<noteq> 0 \<and> sx < strsize \<and> val \<noteq> 0 \<and> strs sx = w) syms of None \<Rightarrow> 0 | Some (sx, val) \<Rightarrow> val)"

lemma map2_map_self: "map2 g ws (map f ws) = map (\<lambda>w. g w (f w)) ws"
  by (induction ws) auto

lemma collect_fold:
  "fold (take_symbol strs strsize) syms (map f WANTED) = map (\<lambda>w. if f w \<noteq> 0 then f w else first_symbol strs strsize syms w) WANTED"
proof (induction syms arbitrary: f)
  case Nil
  then show ?case by (simp add: first_symbol_def)
next
  case (Cons s syms)
  obtain sx val where s: "s = (sx, val)" by (cases s)
  show ?case
  proof (cases "sx = 0 \<or> strsize \<le> sx \<or> val = 0")
    case True
    then show ?thesis using Cons s by (auto simp: take_symbol_def first_symbol_def)
  next
    case False
    then have "take_symbol strs strsize s (map f WANTED) = map (\<lambda>w. if f w = 0 \<and> strs sx = w then val else f w) WANTED"
      using s by (auto simp: take_symbol_def map2_map_self)
    then show ?thesis using Cons [of "\<lambda>w. if f w = 0 \<and> strs sx = w then val else f w"] s False
      by (auto simp: first_symbol_def)
  qed
qed

lemma collect_symbols_first: "collect_symbols strs strsize syms = map (first_symbol strs strsize syms) WANTED"
  using collect_fold [of strs strsize syms "\<lambda>_. 0"] by (simp add: collect_symbols_def map_replicate_const)

lemma first_symbol_range:
  assumes "\<forall>(sx, val) \<in> set syms. 0 \<le> val \<and> val < 2 ^ 64"
  shows "0 \<le> first_symbol strs strsize syms w \<and> first_symbol strs strsize syms w < 2 ^ 64"
  using assms by (auto simp: first_symbol_def split: option.splits dest!: find_Some_iff [THEN iffD1] nth_mem)

section \<open>What the kernel resolves\<close>

lemma to_int64_mod: "to_int64 x mod 2 ^ 64 = x mod 2 ^ 64"
proof -
  have "((x + 2 ^ 63) mod 2 ^ 64 - 2 ^ 63) mod 2 ^ 64 = (x + 2 ^ 63 - 2 ^ 63) mod (2 ^ 64 :: int)" by (rule mod_diff_left_eq)
  then show ?thesis by (simp add: to_int64_def)
qed

lemma slide_mod: "to_uint64 (x + to_int64 (to_int64 v - to_int64 r)) = to_uint64 (x + v - r)"
proof -
  have "(to_int64 v - to_int64 r) mod 2 ^ 64 = (v - r) mod 2 ^ 64" using to_int64_mod by (rule mod_diff_cong) (rule to_int64_mod)
  then have "to_int64 (to_int64 v - to_int64 r) mod 2 ^ 64 = (v - r) mod 2 ^ 64" by (simp only: to_int64_mod)
  then have "(x + to_int64 (to_int64 v - to_int64 r)) mod 2 ^ 64 = (x + (v - r)) mod 2 ^ 64" by (rule mod_add_cong [OF refl])
  then show ?thesis by (simp add: to_uint64_def algebra_simps)
qed

lemma kl_slurp_balanced: "kl_slurp fe path cap r = (e, data, r') \<Longrightarrow> r' = r"
  by (auto simp: kl_slurp_def Let_def split: sum.splits if_splits prod.splits)

lemma klookup_balanced: "klookup_resolve k kn names s st = (a, s', st') \<Longrightarrow> st' = st \<and> kl_res s' = kl_res s \<and> length a = length names"
  by (auto simp: klookup_resolve_def Let_def OSMalloc_def OSFree_def split: if_splits prod.splits dest!: kl_slurp_balanced)
section \<open>From the kernel image to the resolved address\<close>

lemma memmem_set: "memmem pat b = Some r \<Longrightarrow> set r \<subseteq> set b"
  by (induction pat b rule: memmem.induct) (auto split: if_splits)

lemma xnu_token_plain:
  assumes "xnu_token s n = Some t" "0 < n" "CHR 0x0A \<notin> set s"
  shows "CHR 0x0A \<notin> set t \<and> length t < n"
proof -
  obtain p where "memmem ''xnu-'' s = Some p" "t = take (n - 1) (takeWhile (\<lambda>c. c \<noteq> CHR '' '') p)"
    using assms(1) by (auto simp: xnu_token_def)
  then show ?thesis
    using memmem_set [of "''xnu-''" s p] assms(2,3) by (auto dest!: in_set_takeD set_takeWhileD)
qed

lemma field_range: "field b off n = Some v \<Longrightarrow> 0 \<le> v \<and> v < 256 ^ n"
  using le_value_bounds [of "take n (drop off b)"] by (auto simp: field_def split: if_splits)

lemma read_nlist_range: "read_nlist out n off = Some syms \<Longrightarrow> \<forall>(sx, val) \<in> set syms. 0 \<le> val \<and> val < 2 ^ 64"
proof (induction n arbitrary: off syms)
  case (Suc n)
  then obtain sx val l where "field out (off + 8) 8 = Some val" "read_nlist out n (off + 16) = Some l" "syms = (sx, val) # l"
    by (auto split: option.splits)
  then show ?case using Suc.IH [of "off + 16" l] field_range [of out "off + 8" 8 val] by auto
qed simp

lemma load_symtab_range: "load_symtab out = Inr (strs, strsize, syms) \<Longrightarrow> \<forall>(sx, val) \<in> set syms. 0 \<le> val \<and> val < 2 ^ 64"
proof -
  assume "load_symtab out = Inr (strs, strsize, syms)"
  then have "\<exists>n off. read_nlist out n off = Some syms" by (auto simp: load_symtab_def split: option.splits if_splits)
  then show ?thesis using read_nlist_range by blast
qed

text \<open>The images the stager may choose from.\<close>

definition decoded :: "(bytes \<Rightarrow> bytes) \<Rightarrow> bytes option list \<Rightarrow> bytes set" where
  "decoded decode caches = {decode bvx | raw bvx. Some raw \<in> set caches \<and> memmem ''bvx2'' raw = Some bvx}"

lemma pick_decoded: "pick_kernelcache decode x caches = Some out \<Longrightarrow> out \<in> decoded decode caches"
proof (induction caches)
  case (Cons c caches)
  have sub: "decoded decode caches \<subseteq> decoded decode (c # caches)" unfolding decoded_def by auto
  show ?case
  proof (cases "pick_kernelcache decode x caches = Some out")
    case True
    then show ?thesis using Cons.IH sub by blast
  next
    case False
    then obtain raw bvx where "c = Some raw" "memmem ''bvx2'' raw = Some bvx" "out = decode bvx"
      using Cons.prems by (cases c) (auto simp: Let_def split: option.splits if_splits)
    then show ?thesis unfolding decoded_def by auto
  qed
qed simp

lemma wanted_nth: "map f WANTED ! 0 = f ''_version''" "map f WANTED ! Suc 0 = f ''_kernel_pmap''"
  by (simp_all add: WANTED_def)

lemma ksyms_Inr:
  assumes "procfs_ksyms decode (Some ver) caches = Inr t" "CHR 0x0A \<notin> set ver"
  obtains xnu out strs strsize syms where
    "xnu_token ver 64 = Some xnu" "pick_kernelcache decode xnu caches = Some out"
    "load_symtab out = Inr (strs, strsize, syms)" "t = staged_text xnu (map (first_symbol strs strsize syms) WANTED)"
    "first_symbol strs strsize syms ''_version'' \<noteq> 0" "first_symbol strs strsize syms ''_kernel_pmap'' \<noteq> 0"
  using assms that
  by (auto simp: procfs_ksyms_def stage_image_def Let_def collect_symbols_first wanted_nth split: option.splits if_splits sum.splits)

text \<open>The staged file holds \<open>t\<close>, and memory and vnode services answer.\<close>

definition stages :: "kenv \<Rightarrow> kl_env \<Rightarrow> string \<Rightarrow> bool" where
  "stages k kn t \<longleftrightarrow>
     kn_tag_ok kn \<and> malloc_ok k (int KL_MAX) \<and> fn_uio_ok (kn_file kn) \<and>
     (\<exists>v. fn_lookup (kn_file kn) KL_STAGED_PATH = Inr v \<and> fn_read (kn_file kn) v 0 (KL_MAX - 1) = (None, t))"

definition kl_value :: "kl_env \<Rightarrow> string \<Rightarrow> string \<Rightarrow> int" where
  "kl_value kn t n =
     (let raw = kl_line_value t n in if raw \<noteq> 0 then to_uint64 (raw + kn_version kn - kl_line_value t ''_version'') else 0)"

text \<open>What \<open>klookup_resolve\<close> does with a file it can read.\<close>

lemma klookup_staged:
  assumes "stages k kn t" "t \<noteq> []"
  shows "klookup_resolve k kn names s st =
    (if kl_line_value t ''_version'' = 0 \<or>
        kl_line_value t ''_kernel_pmap'' \<noteq> 0 \<and> kl_value kn t ''_kernel_pmap'' \<noteq> kn_kernel_pmap kn
     then replicate (length names) 0 else map (kl_value kn t) names, s\<lparr> g_kl_tag := True \<rparr>, st)"
proof -
  have r: "kl_slurp (kn_file kn) KL_STAGED_PATH (KL_MAX - 1) r = (None, t, r)" for r
    using assms(1) by (auto simp: stages_def kl_slurp_def)
  show ?thesis
    using assms
    unfolding klookup_resolve_def Let_def r kl_value_def slide_mod
    by (auto simp: stages_def OSMalloc_def OSFree_def r)
qed

text \<open>
  C16: what the stager writes, the kernel resolves. When \<open>procfs_ksyms\<close> stages a text from
  the kernel caches, and the running kernel is that image at any slide, then
  \<open>klookup_resolve\<close> on that text gives for every symbol the stager knows the address in the symbol table of
  the image plus the slide, and NULL where the table has no such symbol; all memory is given back.
\<close>

theorem staged_symbols_resolve:
  assumes "procfs_ksyms decode (Some ver) caches = Inr t" "CHR 0x0A \<notin> set ver" "stages k kn t" "set names \<subseteq> set WANTED"
  shows "\<exists>out strs strsize syms. out \<in> decoded decode caches \<and> load_symtab out = Inr (strs, strsize, syms) \<and>
    (\<forall>slide. kn_version kn = to_uint64 (first_symbol strs strsize syms ''_version'' + slide) \<longrightarrow>
             kn_kernel_pmap kn = to_uint64 (first_symbol strs strsize syms ''_kernel_pmap'' + slide) \<longrightarrow>
       klookup_resolve k kn names s st =
         (map (\<lambda>n. let a = first_symbol strs strsize syms n in if a = 0 then 0 else to_uint64 (a + slide)) names,
          s\<lparr> g_kl_tag := True \<rparr>, st))"
proof -
  obtain xnu out strs strsize syms where k: "xnu_token ver 64 = Some xnu" "pick_kernelcache decode xnu caches = Some out"
    "load_symtab out = Inr (strs, strsize, syms)" and t: "t = staged_text xnu (map (first_symbol strs strsize syms) WANTED)"
    and nz: "first_symbol strs strsize syms ''_version'' \<noteq> 0" "first_symbol strs strsize syms ''_kernel_pmap'' \<noteq> 0"
    using ksyms_Inr [OF assms(1,2)] by blast
  let ?f = "first_symbol strs strsize syms"
  have v: "kl_line_value t n = ?f n" if "n \<in> set WANTED" for n
    using staged_value [of xnu n ?f] xnu_token_plain [OF k(1)] plain_wanted [OF that] that assms(2)
      first_symbol_range [OF load_symtab_range [OF k(3)]] by (simp add: t)
  have w: "''_version'' \<in> set WANTED" "''_kernel_pmap'' \<in> set WANTED" by (simp_all add: WANTED_def)
  have "t \<noteq> []" by (simp add: t staged_text_def)
  note res = klookup_staged [OF assms(3) this, of names s st]
  have "klookup_resolve k kn names s st =
      (map (\<lambda>n. let a = ?f n in if a = 0 then 0 else to_uint64 (a + slide)) names, s\<lparr> g_kl_tag := True \<rparr>, st)"
    if sl: "kn_version kn = to_uint64 (?f ''_version'' + slide)" "kn_kernel_pmap kn = to_uint64 (?f ''_kernel_pmap'' + slide)" for slide
  proof -
    have m: "to_uint64 (a + to_uint64 (?f ''_version'' + slide) - ?f ''_version'') = to_uint64 (a + slide)" for a
      using mod_add_left_eq [of "?f ''_version'' + slide" "2 ^ 64" "a - ?f ''_version''"] by (simp add: to_uint64_def algebra_simps)
    have "kl_value kn t n = (let a = ?f n in if a = 0 then 0 else to_uint64 (a + slide))" if "n \<in> set WANTED" for n
      using v [OF that] v [OF w(1)] m by (simp add: kl_value_def sl(1) Let_def)
    then show ?thesis using res w nz sl(2) v assms(4) by (auto simp: Let_def)
  qed
  then show ?thesis using pick_decoded [OF k(2)] k(3) by blast
qed

definition demo_image :: bytes where
  "demo_image =
     le_bytes 16 0 @ le_bytes 4 1 @ le_bytes 12 0 @
     le_bytes 4 LC_FILESET_ENTRY @ le_bytes 4 56 @ le_bytes 8 0 @ le_bytes 8 88 @ le_bytes 4 32 @ le_bytes 4 0 @
     ''com.apple.kernel'' @ le_bytes 8 0 @
     le_bytes 16 0 @ le_bytes 4 1 @ le_bytes 12 0 @
     le_bytes 4 LC_SYMTAB @ le_bytes 4 24 @ le_bytes 4 144 @ le_bytes 4 2 @ le_bytes 4 176 @ le_bytes 4 23 @
     le_bytes 4 1 @ le_bytes 4 0 @ le_bytes 8 0x1000 @ le_bytes 4 10 @ le_bytes 4 0 @ le_bytes 8 0x2000 @
     [CHR 0x00] @ ''_version'' @ [CHR 0x00] @ ''_kernel_pmap'' @ [CHR 0x00] @ ''Darwin Kernel Version 1 xnu-1'' @ [CHR 0x00]"

definition staged_file :: "string \<Rightarrow> fenv" where
  "staged_file t = \<lparr> fn_ctx_ok = True, fn_uio_ok = True, fn_addiov = None, fn_lookup = (\<lambda>_. Inr 0), fn_read = (\<lambda>_ _ _. (None, t)) \<rparr>"

definition demo_text :: string where
  "demo_text = staged_text ''xnu-1'' [0x1000, 0x2000, 0, 0, 0, 0, 0]"

definition demo_kl :: "kl_env" where
  "demo_kl = \<lparr> kn_tag_ok = True, kn_file = staged_file demo_text, kn_version = 0x51000, kn_kernel_pmap = 0x52000 \<rparr>"

lemma demo_pick:
  "xnu_token ''Darwin 1 xnu-1'' 64 = Some ''xnu-1''"
  "pick_kernelcache (\<lambda>_. demo_image) ''xnu-1'' [None, Some ''bvx2''] = Some demo_image"
proof -
  show "xnu_token ''Darwin 1 xnu-1'' 64 = Some ''xnu-1''" by code_simp
  have "memmem ''bvx2'' ''bvx2'' = Some ''bvx2''" by code_simp
  moreover have "demo_image \<noteq> []" by (simp add: demo_image_def)
  moreover have "memmem ''Darwin Kernel Version'' demo_image = Some (''Darwin Kernel Version 1 xnu-1'' @ [CHR 0x00])" by code_simp
  moreover have "xnu_token (take 255 (cstr (''Darwin Kernel Version 1 xnu-1'' @ [CHR 0x00]))) 64 = Some ''xnu-1''" by code_simp
  ultimately show "pick_kernelcache (\<lambda>_. demo_image) ''xnu-1'' [None, Some ''bvx2''] = Some demo_image"
    unfolding pick_kernelcache.simps Let_def by simp
qed

lemma demo_symtab: "load_symtab demo_image = Inr (\<lambda>sx. cstr (drop (176 + sx) demo_image), 23, [(Suc 0, 0x1000), (10, 0x2000)])"
proof -
  have "Option.bind (field demo_image 16 4) (\<lambda>ncmds. kernel_slice demo_image (nat ncmds) MACH_HEADER_64 0) = Some 88" by code_simp
  moreover have "Option.bind (field demo_image (88 + 16) 4) (\<lambda>ncmds. find_symtab demo_image (nat ncmds) (88 + MACH_HEADER_64)) = Some (Some 120)"
    by code_simp
  moreover have "field demo_image (120 + 8) 4 = Some 144" "field demo_image (120 + 12) 4 = Some 2" "field demo_image (120 + 16) 4 = Some 176"
    "field demo_image (120 + 20) 4 = Some 23" by code_simp+
  moreover have "read_nlist demo_image 2 144 = Some [(Suc 0, 0x1000), (10, 0x2000)]" by code_simp
  ultimately show ?thesis unfolding load_symtab_def by simp
qed

lemma demo_first: "first_symbol (\<lambda>sx. cstr (drop (176 + sx) demo_image)) 23 [(Suc 0, 0x1000), (10, 0x2000)] ''_version'' = 0x1000"
  "first_symbol (\<lambda>sx. cstr (drop (176 + sx) demo_image)) 23 [(Suc 0, 0x1000), (10, 0x2000)] ''_kernel_pmap'' = 0x2000"
  "first_symbol (\<lambda>sx. cstr (drop (176 + sx) demo_image)) 23 [(Suc 0, 0x1000), (10, 0x2000)] ''_proc_gettty'' = 0"
  by code_simp+

lemma demo_staged: "procfs_ksyms (\<lambda>_. demo_image) (Some ''Darwin 1 xnu-1'') [None, Some ''bvx2''] = Inr demo_text"
proof -
  have "collect_symbols (\<lambda>sx. cstr (drop (176 + sx) demo_image)) 23 [(Suc 0, 0x1000), (10, 0x2000)] = [0x1000, 0x2000, 0, 0, 0, 0, 0]" by code_simp
  then show ?thesis unfolding procfs_ksyms_def stage_image_def demo_text_def by (simp add: demo_pick demo_symtab del: pick_kernelcache.simps)
qed

lemma demo_decoded: "out \<in> decoded (\<lambda>_. demo_image) caches \<Longrightarrow> out = demo_image"
  by (auto simp: decoded_def)

theorem staged_symbols_resolve_witness:
  "fst (klookup_resolve kenv0 demo_kl [''_version'', ''_kernel_pmap'', ''_proc_gettty''] \<lparr> g_kl_tag = False, kl_res = \<lparr> fr_ctx = 0, fr_uio = 0, fr_vp = 0 \<rparr> \<rparr> kst0) =
   [0x51000, 0x52000, 0]"
proof -
  have s: "stages kenv0 demo_kl demo_text" by (simp add: stages_def demo_kl_def staged_file_def kenv0_def)
  have w: "set [''_version'', ''_kernel_pmap'', ''_proc_gettty''] \<subseteq> set WANTED" by (simp add: WANTED_def)
  have v: "CHR 0x0A \<notin> set ''Darwin 1 xnu-1''" by simp
  show ?thesis
    using staged_symbols_resolve [OF demo_staged v s w, of "\<lparr> g_kl_tag = False, kl_res = \<lparr> fr_ctx = 0, fr_uio = 0, fr_vp = 0 \<rparr> \<rparr>" kst0]
    by (auto dest!: demo_decoded spec [of _ "0x50000"] simp: demo_symtab demo_first demo_kl_def to_uint64_def Let_def)
qed

text \<open>
  A staged file that does not fit the running kernel is refused as a whole: when it names
  \<open>_kernel_pmap\<close> and the slide taken from \<open>_version\<close> does not carry that to the running
  kernel's, no symbol is resolved and the optional features stay off.
\<close>

lemma stale_symbols_refused:
  assumes "stages k kn t" "kl_line_value t ''_kernel_pmap'' \<noteq> 0"
    "to_uint64 (kl_line_value t ''_kernel_pmap'' + kn_version kn - kl_line_value t ''_version'') \<noteq> kn_kernel_pmap kn"
    "kn_version kn \<noteq> 0"
  shows "klookup_resolve k kn names s st = (replicate (length names) 0, s\<lparr> g_kl_tag := True \<rparr>, st) \<and>
    resolve_symbols k kn y s st = (y, s\<lparr> g_kl_tag := True \<rparr>, st)"
proof -
  have "t \<noteq> []" using assms(2) by (auto simp: kl_line_value.simps)
  then have r: "klookup_resolve k kn names s st = (replicate (length names) 0, s\<lparr> g_kl_tag := True \<rparr>, st)" for names
    using klookup_staged [OF assms(1), of names s st] assms(2,3) by (simp add: kl_value_def)
  then show ?thesis using assms(4) by (simp add: resolve_symbols_def resolve_names_def)
qed

lemma stale_symbols_refused_demo:
  "fst (resolve_symbols kenv0 (demo_kl\<lparr> kn_kernel_pmap := 0x53000 \<rparr>) kl_syms0
     \<lparr> g_kl_tag = False, kl_res = \<lparr> fr_ctx = 0, fr_uio = 0, fr_vp = 0 \<rparr> \<rparr> kst0) = kl_syms0"
proof -
  have s: "stages kenv0 (demo_kl\<lparr> kn_kernel_pmap := 0x53000 \<rparr>) demo_text" by (simp add: stages_def demo_kl_def staged_file_def kenv0_def)
  let ?f = "\<lambda>w. if w = ''_version'' then 0x1000 else if w = ''_kernel_pmap'' then 0x2000 else 0"
  have "demo_text = staged_text ''xnu-1'' (map ?f WANTED)" by (simp add: demo_text_def WANTED_def)
  then have v: "kl_line_value demo_text ''_version'' = 0x1000" "kl_line_value demo_text ''_kernel_pmap'' = 0x2000"
    using staged_value [of "''xnu-1''" "''_version''" ?f] staged_value [of "''xnu-1''" "''_kernel_pmap''" ?f]
    by (simp_all add: symbol_name_def WANTED_def)
  show ?thesis using stale_symbols_refused [OF s] v by (simp add: demo_kl_def to_uint64_def)
qed

text \<open>Without a line for \<open>_kernel_pmap\<close> nothing is validated: any file with a \<open>_version\<close> is taken.\<close>

lemma unanchored_file_accepted:
  assumes "stages k kn t" "kl_line_value t ''_version'' \<noteq> 0" "kl_line_value t ''_kernel_pmap'' = 0" "0 \<le> kn_version kn" "kn_version kn < 2 ^ 64"
  shows "procfs_klookup_ok (fst (resolve_symbols k kn y s st))"
proof -
  have "t \<noteq> []" using assms(2) by (auto simp: kl_line_value.simps)
  moreover have "kl_value kn t ''_version'' = kn_version kn" using assms(2,4,5) by (simp add: kl_value_def to_uint64_def)
  ultimately show ?thesis
    using klookup_staged [OF assms(1), of resolve_names s st] assms(2,3) by (simp add: resolve_symbols_def resolve_names_def)
qed

section \<open>What the reader holds on return\<close>

text \<open>\<open>read_file\<close> delivers the whole range or an error, but never frees its \<^verbatim>\<open>uio\<close>.\<close>

lemma read_file_whole: "read_file fe path off n r = (Inr data, r') \<Longrightarrow> length data = n"
  by (auto simp: read_file_def Let_def split: sum.splits option.splits prod.splits if_splits)

lemma read_file_leaks_uio:
  "fn_ctx_ok fe \<Longrightarrow> fn_uio_ok fe \<Longrightarrow> fn_lookup fe path = Inr v \<Longrightarrow> fr_uio (snd (read_file fe path off n r)) = fr_uio r + 1"
  by (auto simp: read_file_def Let_def split: prod.splits option.splits)
end
