(* ===== verification/Libkext.thy ===== *)
theory Libkext
imports Klookup
begin

text \<open>
  The support library \<^verbatim>\<open>lib/libkext\<close>: counted allocation, the reference count of
  kernel callbacks, the UUID of a Mach-O image and a file reader. The callback count is a
  state machine of interleaved threads: once it is invalidated no callback is
  inside, nor can one enter. The branch-prediction macros of \<^verbatim>\<open>libkext.h\<close> negate their
  argument, which inverts every branch that uses them; the model keeps that and
  the lemmas show what the allocator and the reader do because of it.
\<close>

section \<open>Branch prediction\<close>

text \<open>
  \<^verbatim>\<open>__builtin_expect\<close> returns its first argument, here \<^verbatim>\<open>!(x)\<close>: both macros are true
  when the condition is false.
\<close>

definition likely :: "bool \<Rightarrow> bool" where "likely x = (\<not> x)"
definition unlikely :: "bool \<Rightarrow> bool" where "unlikely x = (\<not> x)"

section \<open>Counted allocation\<close>

text \<open>
  The blocks by address (0 is NULL), the counter and the number of bug reports logged;
  \<^verbatim>\<open>_MALLOC\<close> is a parameter that gives a fresh block or nothing.
\<close>

record lheap =
  lh_blocks :: "nat \<Rightarrow> bytes option"
  lh_cnt :: int
  lh_bugs :: nat

type_synonym allocator = "nat \<Rightarrow> (nat \<Rightarrow> bytes option) \<Rightarrow> (nat \<times> bytes) option"

definition allocator_ok :: "allocator \<Rightarrow> bool" where
  "allocator_ok al \<longleftrightarrow> (\<forall>n h a b. al n h = Some (a, b) \<longrightarrow> 0 < n \<and> a \<noteq> 0 \<and> h a = None \<and> length b = n)"

definition malloc_block :: "allocator \<Rightarrow> nat \<Rightarrow> lheap \<Rightarrow> nat \<times> lheap" where
  "malloc_block al n h =
     (case al n (lh_blocks h) of
        None \<Rightarrow> (0, h)
      | Some (a, b) \<Rightarrow> (a, h\<lparr> lh_blocks := (lh_blocks h)(a := Some b) \<rparr>))"

definition libkext_mstat :: "nat \<Rightarrow> lheap \<Rightarrow> lheap" where
  "libkext_mstat opt h =
     (let bug = (\<lambda>h. h\<lparr> lh_bugs := lh_bugs h + 1 \<rparr>); old = lh_cnt h
      in if opt = 0 then let h = h\<lparr> lh_cnt := to_int64 (old - 1) \<rparr> in if 0 < old then h else bug h
         else if opt = 1 then let h = h\<lparr> lh_cnt := to_int64 (old + 1) \<rparr> in if 0 \<le> old then h else bug h
         else if old = 0 then h else bug h)"

definition libkext_malloc :: "allocator \<Rightarrow> nat \<Rightarrow> lheap \<Rightarrow> nat \<times> lheap" where
  "libkext_malloc al n h =
     (case malloc_block al n h of (addr, h) \<Rightarrow> (addr, if likely (addr \<noteq> 0) then libkext_mstat 1 h else h))"

text \<open>\<open>None\<close> is an access outside a live block.\<close>

definition libkext_realloc2 :: "allocator \<Rightarrow> nat \<Rightarrow> nat \<Rightarrow> nat \<Rightarrow> lheap \<Rightarrow> (nat \<times> lheap) option" where
  "libkext_realloc2 al addr0 sz0 sz1 h =
     (if addr0 = 0
      then Some (malloc_block al sz1 (if sz0 = 0 then h else h\<lparr> lh_bugs := lh_bugs h + 1 \<rparr>))
      else if unlikely (sz1 = sz0) then Some (addr0, h)
      else case malloc_block al sz1 h of
        (addr1, h) \<Rightarrow>
          if unlikely (addr1 = 0) then Some (addr1, h)
          else (case (lh_blocks h addr0, lh_blocks h addr1) of
                  (Some b0, Some b1) \<Rightarrow>
                    if length b0 < min sz0 sz1 \<or> length b1 < min sz0 sz1 then None
                    else Some (addr1, h\<lparr> lh_blocks := (lh_blocks h)(addr1 := Some (take (min sz0 sz1) b0 @ drop (min sz0 sz1) b1),
                                                              addr0 := None) \<rparr>)
                | _ \<Rightarrow> None))"

definition libkext_realloc :: "allocator \<Rightarrow> nat \<Rightarrow> nat \<Rightarrow> nat \<Rightarrow> lheap \<Rightarrow> (nat \<times> lheap) option" where
  "libkext_realloc al addr0 sz0 sz1 h =
     map_option (\<lambda>(addr1, h). (addr1, if addr0 = 0 \<and> addr1 \<noteq> 0 then libkext_mstat 1 h else h)) (libkext_realloc2 al addr0 sz0 sz1 h)"

definition libkext_mfree :: "nat \<Rightarrow> lheap \<Rightarrow> lheap" where
  "libkext_mfree addr h =
     (let h = (if addr \<noteq> 0 then libkext_mstat 0 h else h) in h\<lparr> lh_blocks := (lh_blocks h)(addr := None) \<rparr>)"

definition libkext_massert :: "lheap \<Rightarrow> lheap" where
  "libkext_massert h = libkext_mstat 2 h"

section \<open>Reading a file\<close>

text \<open>
  The result is the error and the value stored in \<^verbatim>\<open>*read\<close>, if it is set. \<open>None\<close> is the
  use of the vnode variable before it is assigned. Releasing a NULL context or
  \<^verbatim>\<open>uio\<close> does nothing.
\<close>

definition libkext_file_read :: "fenv \<Rightarrow> string \<Rightarrow> nat \<Rightarrow> int \<Rightarrow> fres \<Rightarrow> (err \<times> nat option \<times> fres) option" where
  "libkext_file_read fe path n off r =
     (let c = fn_ctx_ok fe; u = fn_uio_ok fe;
          out_ctx = (\<lambda>(e, rd, r). (e, rd, if c then r\<lparr> fr_ctx := fr_ctx r - 1 \<rparr> else r));
          out_uio = (\<lambda>(e, rd, r). out_ctx (e, rd, if u then r\<lparr> fr_uio := fr_uio r - 1 \<rparr> else r));
          out_put = (\<lambda>(e, rd, r). out_uio (e, rd, r\<lparr> fr_vp := fr_vp r - 1 \<rparr>));
          r = (if c then r\<lparr> fr_ctx := fr_ctx r + 1 \<rparr> else r)
      in if unlikely (\<not> c) then Some (Some ENOMEM, None, r)
         else let r = (if u then r\<lparr> fr_uio := fr_uio r + 1 \<rparr> else r)
              in if unlikely (\<not> u) then Some (out_ctx (Some ENOMEM, None, r))
                 else if unlikely (fn_addiov fe \<noteq> None) then Some (out_uio (fn_addiov fe, None, r))
                 else case fn_lookup fe path of
                   Inl e \<Rightarrow> if unlikely True then Some (out_uio (Some e, None, r)) else None
                 | Inr vp \<Rightarrow>
                     (let r = r\<lparr> fr_vp := fr_vp r + 1 \<rparr>
                      in if unlikely False then Some (out_uio (None, None, r))
                         else case fn_read fe vp off n of
                           (e, data) \<Rightarrow>
                             if unlikely (e \<noteq> None) then Some (out_put (e, None, r))
                             else Some (out_put (e, Some (length data), r))))"

section \<open>The UUID of an image\<close>

definition hex2 :: "nat \<Rightarrow> string" where
  "hex2 b = pad_left (CHR ''0'') 2 (nat_to_base 16 b)"

definition uuid_groups :: "bytes \<Rightarrow> nat \<Rightarrow> nat \<Rightarrow> string" where
  "uuid_groups u i n = concat (map (\<lambda>c. hex2 (of_char c)) (take n (drop i u)))"

definition libkext_format_uuid_string :: "bytes \<Rightarrow> string" where
  "libkext_format_uuid_string u =
     strlcpy 37 (uuid_groups u 0 4 @ ''-'' @ uuid_groups u 4 2 @ ''-'' @ uuid_groups u 6 2 @ ''-'' @ uuid_groups u 8 2 @ ''-'' @
                 uuid_groups u 10 6)"

definition LC_UUID :: int where "LC_UUID = 0x1b"

text \<open>\<open>None\<close> is a read outside the image.\<close>

fun find_uuid :: "bytes \<Rightarrow> nat \<Rightarrow> nat \<Rightarrow> (errno + bytes) option" where
  "find_uuid img 0 p = Some (Inl ENOENT)"
| "find_uuid img (Suc n) p =
     (case (field img p 4, field img (p + 4) 4) of
        (Some cmd, Some cmdsize) \<Rightarrow>
          if cmd = LC_UUID then (if p + 24 \<le> length img then Some (Inr (take 16 (drop (p + 8) img))) else None)
          else find_uuid img n (p + nat cmdsize)
      | _ \<Rightarrow> None)"

definition EBADMACHO :: errno where "EBADMACHO = EOther 88"

definition libkext_vma_uuid :: "bytes \<Rightarrow> (errno + string) option" where
  "libkext_vma_uuid img =
     (case (field img 0 4, field img 16 4) of
        (Some magic, Some ncmds) \<Rightarrow>
          if magic = 0xfeedface \<or> magic = 0xcefaedfe then map_option (map_sum (\<lambda>e. e) libkext_format_uuid_string) (find_uuid img (nat ncmds) 28)
          else if magic = 0xfeedfacf \<or> magic = 0xcffaedfe then map_option (map_sum (\<lambda>e. e) libkext_format_uuid_string) (find_uuid img (nat ncmds) 32)
          else Some (Inl EBADMACHO)
      | _ \<Rightarrow> None)"

section \<open>Kernel callbacks\<close>

text \<open>
  A thread is outside, between the read and the compare-and-swap of a get with the
  value read, inside after a successful get, waiting in an invalidation or past it.
\<close>

datatype kcb_pc = Outside | Getting int | Inside | Invalidating | Invalidated

record kcb_state =
  kcb_i :: int
  kcb_pcs :: "nat \<Rightarrow> kcb_pc"

inductive kcb_step :: "kcb_state \<Rightarrow> kcb_state \<Rightarrow> bool" where
  get_read: "kcb_pcs s t = Outside \<Longrightarrow> 0 \<le> kcb_i s \<Longrightarrow> kcb_step s (s\<lparr> kcb_pcs := (kcb_pcs s)(t := Getting (kcb_i s)) \<rparr>)"
| get_swap: "kcb_pcs s t = Getting rd \<Longrightarrow> kcb_i s = rd \<Longrightarrow>
    kcb_step s (s\<lparr> kcb_i := to_int32 (rd + 1), kcb_pcs := (kcb_pcs s)(t := Inside) \<rparr>)"
| get_retry: "kcb_pcs s t = Getting rd \<Longrightarrow> kcb_i s \<noteq> rd \<Longrightarrow> kcb_step s (s\<lparr> kcb_pcs := (kcb_pcs s)(t := Outside) \<rparr>)"
| put: "kcb_pcs s t = Inside \<Longrightarrow> kcb_step s (s\<lparr> kcb_i := to_int32 (kcb_i s - 1), kcb_pcs := (kcb_pcs s)(t := Outside) \<rparr>)"
| invalidate: "kcb_pcs s t = Outside \<Longrightarrow> 0 \<le> kcb_i s \<Longrightarrow> kcb_step s (s\<lparr> kcb_pcs := (kcb_pcs s)(t := Invalidating) \<rparr>)"
| invalidate_swap: "kcb_pcs s t = Invalidating \<Longrightarrow> kcb_i s = 0 \<Longrightarrow>
    kcb_step s (s\<lparr> kcb_i := - 1, kcb_pcs := (kcb_pcs s)(t := Invalidated) \<rparr>)"

inductive_cases kcb_stepE [consumes 1, case_names get_read get_swap get_retry put invalidate invalidate_swap]: "kcb_step s s'"

text \<open>A refused get (a negative count) and the wait for a positive count change nothing.\<close>

definition kcb0 :: kcb_state where
  "kcb0 = \<lparr> kcb_i = 0, kcb_pcs = (\<lambda>_. Outside) \<rparr>"

definition libkext_read_kcb :: "kcb_state \<Rightarrow> int" where
  "libkext_read_kcb s = kcb_i s"

definition inside :: "kcb_state \<Rightarrow> nat set" where
  "inside s = {t. kcb_pcs s t = Inside}"

text \<open>At most \<open>N\<close> threads take part.\<close>

definition threads_below :: "nat \<Rightarrow> kcb_state \<Rightarrow> bool" where
  "threads_below N s \<longleftrightarrow> (\<forall>t \<ge> N. kcb_pcs s t = Outside)"

definition kcb_ok :: "kcb_state \<Rightarrow> bool" where
  "kcb_ok s \<longleftrightarrow> finite (inside s) \<and>
     (if kcb_i s < 0 then kcb_i s = - 1 \<and> inside s = {} else kcb_i s = int (card (inside s)))"

lemma inside_upd:
  "inside (s\<lparr> kcb_i := i, kcb_pcs := (kcb_pcs s)(t := p) \<rparr>) = (if p = Inside then insert t (inside s) else inside s - {t})"
  "inside (s\<lparr> kcb_pcs := (kcb_pcs s)(t := p) \<rparr>) = (if p = Inside then insert t (inside s) else inside s - {t})"
  by (auto simp: inside_def)

lemma kcb_ok_outside:
  "kcb_pcs s t \<noteq> Inside \<Longrightarrow> p \<noteq> Inside \<Longrightarrow> kcb_ok (s\<lparr> kcb_pcs := (kcb_pcs s)(t := p) \<rparr>) = kcb_ok s"
proof -
  assume "kcb_pcs s t \<noteq> Inside" "p \<noteq> Inside"
  then have "inside (s\<lparr> kcb_pcs := (kcb_pcs s)(t := p) \<rparr>) = inside s" by (auto simp: inside_def)
  then show ?thesis by (simp add: kcb_ok_def)
qed

lemma kcb_step_ok:
  assumes "kcb_step s s'" "kcb_ok s" "int (card (inside s)) < 2 ^ 31 - 1"
    and g: "\<forall>t rd. kcb_pcs s t = Getting rd \<longrightarrow> 0 \<le> rd"
  shows "kcb_ok s' \<and> (\<forall>t rd. kcb_pcs s' t = Getting rd \<longrightarrow> 0 \<le> rd)"
  using assms(1)
proof (cases rule: kcb_stepE)
  case (get_swap t)
  have "0 \<le> kcb_i s" using get_swap(2) g by blast
  then have h: "t \<notin> inside s" "\<not> kcb_i s < 0" using get_swap(2) by (auto simp: inside_def)
  then have i: "kcb_i s = int (card (inside s))" "finite (inside s)" using assms(2) by (simp_all add: kcb_ok_def)
  then have "to_int32 (kcb_i s + 1) = kcb_i s + 1" using assms(3) by (intro to_int32_id) auto
  then show ?thesis using get_swap(1) g h i by (auto simp: kcb_ok_def inside_upd)
next
  case (put t)
  have t: "t \<in> inside s" using put by (simp add: inside_def)
  then have i: "kcb_i s = int (card (inside s))" "0 < card (inside s)"
    using assms(2) by (auto simp: kcb_ok_def card_gt_0_iff split: if_splits)
  have "to_int32 (kcb_i s - 1) = kcb_i s - 1" using i assms(3) by (intro to_int32_id) auto
  moreover have "int (card (inside s - {t})) = int (card (inside s)) - 1" using t i(2) by (simp add: card_Diff_singleton)
  ultimately show ?thesis using put assms(2) g i t by (auto simp: kcb_ok_def inside_upd)
next
  case (invalidate_swap t)
  then have "inside s = {}" using assms(2) by (auto simp: kcb_ok_def)
  then show ?thesis using invalidate_swap g by (auto simp: kcb_ok_def inside_upd)
qed (use assms(2) g in \<open>auto simp: kcb_ok_outside\<close>)

text \<open>Runs of fewer than \<open>2 ^ 31 - 1\<close> threads, from a fresh count.\<close>

inductive kcb_run :: "nat \<Rightarrow> kcb_state \<Rightarrow> kcb_state \<Rightarrow> bool" for N where
  stay: "kcb_run N s s"
| move: "kcb_run N s s' \<Longrightarrow> kcb_step s' s'' \<Longrightarrow> threads_below N s'' \<Longrightarrow> kcb_run N s s''"

lemma inside_below: "threads_below N s \<Longrightarrow> inside s \<subseteq> {..<N}"
proof
  fix t assume "threads_below N s" "t \<in> inside s"
  then have "\<not> N \<le> t" by (auto simp: threads_below_def inside_def)
  then show "t \<in> {..<N}" by simp
qed

lemma kcb_run_ok:
  assumes "kcb_run N s s'" "int N < 2 ^ 31 - 1" "threads_below N s" "kcb_ok s" "\<forall>t rd. kcb_pcs s t = Getting rd \<longrightarrow> 0 \<le> rd"
  shows "kcb_ok s' \<and> threads_below N s' \<and> (\<forall>t rd. kcb_pcs s' t = Getting rd \<longrightarrow> 0 \<le> rd)"
  using assms
proof (induction rule: kcb_run.induct)
  case (move s s' s'')
  have "card (inside s') \<le> N" using inside_below [of N s'] card_mono [of "{..<N}" "inside s'"] move by simp
  then have "int (card (inside s')) < 2 ^ 31 - 1" using move.prems(1) by linarith
  then show ?case using kcb_step_ok [of s' s''] move by blast
qed simp

lemma kcb_reachable_ok:
  assumes "int N < 2 ^ 31 - 1" "kcb_run N kcb0 s"
  shows "kcb_ok s \<and> threads_below N s \<and> (\<forall>t rd. kcb_pcs s t = Getting rd \<longrightarrow> 0 \<le> rd)"
proof -
  have "kcb_ok kcb0" "threads_below N kcb0" "\<forall>t rd. kcb_pcs kcb0 t = Getting rd \<longrightarrow> 0 \<le> rd"
    by (simp_all add: threads_below_def kcb0_def kcb_ok_def inside_def)
  then show ?thesis using kcb_run_ok [OF assms(2,1)] by blast
qed

lemma kcb_stays_invalid: "kcb_run N s s' \<Longrightarrow> kcb_i s = - 1 \<Longrightarrow> inside s = {} \<Longrightarrow>
    \<forall>t rd. kcb_pcs s t = Getting rd \<longrightarrow> 0 \<le> rd \<Longrightarrow>
    kcb_i s' = - 1 \<and> inside s' = {} \<and> (\<forall>t rd. kcb_pcs s' t = Getting rd \<longrightarrow> 0 \<le> rd)"
proof (induction rule: kcb_run.induct)
  case (move s s' s'')
  then have h: "kcb_i s' = - 1" "inside s' = {}" "\<forall>t rd. kcb_pcs s' t = Getting rd \<longrightarrow> 0 \<le> rd" by auto
  from move(2) show ?case
  proof (cases rule: kcb_stepE)
    case (get_swap t)
    then show ?thesis using h by force
  next
    case (put t)
    then show ?thesis using h(2) by (auto simp: inside_def)
  qed (use h in \<open>auto simp: inside_upd split: if_splits\<close>)
qed simp

text \<open>
  C35: the count of kernel callbacks does what its clients rely on. In every interleaving of fewer than
  \<open>2 ^ 31 - 1\<close> threads the count is the number of callbacks inside, and once an invalidation has
  returned no callback is inside and none gets inside later.
\<close>

theorem kcb_invalidated_stays_empty:
  assumes "int N < 2 ^ 31 - 1" "kcb_run N kcb0 s"
  shows "(0 \<le> kcb_i s \<longrightarrow> libkext_read_kcb s = int (card (inside s))) \<and>
    (kcb_pcs s t = Invalidated \<longrightarrow> kcb_run N s s' \<longrightarrow> libkext_read_kcb s' = - 1 \<and> inside s' = {})"
proof -
  have k: "kcb_ok s \<and> threads_below N s \<and> (\<forall>t rd. kcb_pcs s t = Getting rd \<longrightarrow> 0 \<le> rd)"
    by (rule kcb_reachable_ok [OF assms])
  have "kcb_pcs r t = Invalidated \<longrightarrow> kcb_i r = - 1" if "kcb_run N kcb0 r" for r
    using that
  proof (induction "kcb0" r rule: kcb_run.induct)
    case (move r r')
    have o: "kcb_ok r \<and> threads_below N r \<and> (\<forall>t rd. kcb_pcs r t = Getting rd \<longrightarrow> 0 \<le> rd)"
      by (rule kcb_reachable_ok [OF assms(1) move(1)])
    from move(3) show ?case
    proof (cases rule: kcb_stepE)
      case (get_swap u)
      then have "0 \<le> kcb_i r" using o by blast
      then show ?thesis using get_swap move(2) by auto
    next
      case (put u)
      then have "kcb_i r \<noteq> - 1" using o by (auto simp: kcb_ok_def inside_def split: if_splits)
      then show ?thesis using put move(2) by auto
    qed (use move(2) in \<open>auto split: if_splits\<close>)
  qed (simp add: kcb0_def)
  then have v: "kcb_pcs s t = Invalidated \<Longrightarrow> kcb_i s = - 1" using assms(2) by blast
  have "libkext_read_kcb s' = - 1 \<and> inside s' = {}" if "kcb_pcs s t = Invalidated" "kcb_run N s s'"
    using kcb_stays_invalid [OF that(2) v [OF that(1)]] k v [OF that(1)] by (simp add: kcb_ok_def libkext_read_kcb_def)
  moreover have "0 \<le> kcb_i s \<Longrightarrow> libkext_read_kcb s = int (card (inside s))" using k by (simp add: kcb_ok_def libkext_read_kcb_def)
  ultimately show ?thesis by blast
qed

lemma demo_kcb_run: "kcb_run 2 kcb0 \<lparr> kcb_i = - 1, kcb_pcs = (\<lambda>_. Outside)(1 := Invalidated) \<rparr>"
proof -
  have b: "threads_below 2 \<lparr> kcb_i = i, kcb_pcs = (\<lambda>_. Outside)(1 := p) \<rparr>" for i p by (auto simp: threads_below_def)
  have 1: "kcb_run 2 kcb0 \<lparr> kcb_i = 0, kcb_pcs = (\<lambda>_. Outside)(1 := Invalidating) \<rparr>"
    using kcb_run.move [OF kcb_run.stay kcb_step.invalidate [of kcb0 1]] b by (simp add: kcb0_def)
  show ?thesis using kcb_run.move [OF 1 kcb_step.invalidate_swap [of _ 1]] b by simp
qed

theorem kcb_invalidated_stays_empty_witness:
  "libkext_read_kcb \<lparr> kcb_i = - 1, kcb_pcs = (\<lambda>_. Outside)(1 := Invalidated) \<rparr> = - 1 \<and>
   inside \<lparr> kcb_i = - 1, kcb_pcs = (\<lambda>_. Outside)(1 := Invalidated) \<rparr> = {}"
  using kcb_invalidated_stays_empty [OF _ demo_kcb_run, of 1] kcb_run.stay [of 2] by simp

section \<open>What the inverted branches do\<close>

text \<open>
  With a context at hand the reader reports that memory is short, reads nothing and
  keeps the context; the counter of blocks counts the failures; and a block is never
  resized.
\<close>

lemma file_read_always_fails:
  "fn_ctx_ok fe \<Longrightarrow> libkext_file_read fe path n off r = Some (Some ENOMEM, None, r\<lparr> fr_ctx := fr_ctx r + 1 \<rparr>)"
  by (simp add: libkext_file_read_def unlikely_def Let_def)

lemma malloc_counts_failures:
  assumes "libkext_malloc al n h = (a, h')" "allocator_ok al"
  shows "lh_cnt h' = (if a = 0 then to_int64 (lh_cnt h + 1) else lh_cnt h)"
  using assms by (auto simp: libkext_malloc_def malloc_block_def likely_def libkext_mstat_def Let_def allocator_ok_def split: option.splits)

lemma realloc_ignores_size: "a \<noteq> 0 \<Longrightarrow> sz0 \<noteq> sz1 \<Longrightarrow> libkext_realloc al a sz0 sz1 h = Some (a, h)"
  by (simp add: libkext_realloc_def libkext_realloc2_def unlikely_def)

lemma malloc_free_reports:
  assumes "libkext_malloc al n h = (a, h1)" "allocator_ok al" "a \<noteq> 0" "lh_cnt h = 0"
  shows "lh_bugs (libkext_mfree a h1) = lh_bugs h + 1 \<and> lh_cnt (libkext_mfree a h1) = - 1"
  using assms
  by (auto simp: libkext_malloc_def malloc_block_def likely_def libkext_mfree_def libkext_mstat_def Let_def to_int64_def split: option.splits)

text \<open>
  C37: the branch-prediction macros invert the library's branches. A buffer obtained from
  \<open>libkext_realloc\<close> for a larger size is the old block of the old size; allocating and freeing one block on a fresh
  counter reports a leak; and reading a file fails with a context leaked whenever a context can be had.
\<close>

theorem libkext_inverted_branches:
  assumes "allocator_ok al"
  shows "(lh_blocks h a = Some b \<and> a \<noteq> 0 \<and> length b < sz \<longrightarrow> libkext_realloc al a (length b) sz h = Some (a, h)) \<and>
    (libkext_malloc al n h = (p, h1) \<and> p \<noteq> 0 \<and> lh_cnt h = 0 \<longrightarrow> lh_bugs (libkext_mfree p h1) = lh_bugs h + 1) \<and>
    (fn_ctx_ok fe \<longrightarrow> libkext_file_read fe path len off r = Some (Some ENOMEM, None, r\<lparr> fr_ctx := fr_ctx r + 1 \<rparr>))"
  using realloc_ignores_size [of a "length b" sz al h] malloc_free_reports [OF _ assms, of n h p h1] file_read_always_fails [of fe path len off r]
  by auto

definition demo_alloc :: allocator where
  "demo_alloc n h = (if 0 < n \<and> h 1 = None then Some (1, replicate n (CHR ''x'')) else None)"

theorem libkext_inverted_branches_witness:
  "libkext_realloc demo_alloc 1 (length ''abcd'') 8 \<lparr> lh_blocks = [1 \<mapsto> ''abcd''], lh_cnt = 0, lh_bugs = 0 \<rparr> =
     Some (1, \<lparr> lh_blocks = [1 \<mapsto> ''abcd''], lh_cnt = 0, lh_bugs = 0 \<rparr>)"
proof -
  have "allocator_ok demo_alloc" by (auto simp: allocator_ok_def demo_alloc_def split: if_splits)
  from libkext_inverted_branches [OF this, of "\<lparr> lh_blocks = [1 \<mapsto> ''abcd''], lh_cnt = 0, lh_bugs = 0 \<rparr>" 1 "''abcd''" 8]
  show ?thesis by simp
qed

section \<open>UUID strings\<close>

lemma length_hex2: "length (hex2 b) = 2" if "b < 256"
  using that fmt_x_length [of b 2] by (simp add: hex2_def pad_left_def)

lemma hex2_value: "b < 256 \<Longrightarrow> kl_hex 0 (hex2 b) = int b"
proof -
  assume b: "b < 256"
  have "kl_hex 0 (replicate m (CHR ''0'') @ s) = kl_hex 0 s" for m s
    by (induction m) (simp_all add: hex_digit_def to_uint64_def)
  then show ?thesis using kl_hex_print [of b] b by (simp add: hex2_def pad_left_def)
qed

lemma length_uuid_group: "i + n \<le> length u \<Longrightarrow> length (uuid_groups u i n) = 2 * n"
proof -
  assume "i + n \<le> length u"
  moreover have "length (concat (map (\<lambda>c. hex2 (of_char c)) l)) = 2 * length l" for l :: bytes
    by (induction l) (auto simp: length_hex2 nat_of_char_less_256)
  ultimately show ?thesis by (simp add: uuid_groups_def)
qed

lemma hex2_concat_inj:
  fixes l m :: bytes
  assumes "length l = length m" "concat (map (\<lambda>c. hex2 (of_char c)) l) = concat (map (\<lambda>c. hex2 (of_char c)) m)"
  shows "l = m"
  using assms
proof (induction l m rule: list_induct2)
  case (Cons x l y m)
  have "hex2 (of_char x) = hex2 (of_char y)" "concat (map (\<lambda>c. hex2 (of_char c)) l) = concat (map (\<lambda>c. hex2 (of_char c)) m)"
    using Cons.prems by (simp_all add: append_eq_append_conv length_hex2 nat_of_char_less_256)
  moreover from this have "int (of_char x) = int (of_char y)" using hex2_value nat_of_char_less_256 by metis
  ultimately show ?case using Cons.IH by simp
qed simp

lemma uuid_string_inj:
  assumes "length u = 16" "length v = 16" "libkext_format_uuid_string u = libkext_format_uuid_string v"
  shows "u = v"
proof -
  have l: "length (uuid_groups w 0 4) = 8 \<and> length (uuid_groups w 4 2) = 4 \<and> length (uuid_groups w 6 2) = 4 \<and>
      length (uuid_groups w 8 2) = 4 \<and> length (uuid_groups w 10 6) = 12" if "length w = 16" for w
    using that by (simp add: length_uuid_group)
  have g: "uuid_groups u 0 4 = uuid_groups v 0 4" "uuid_groups u 4 2 = uuid_groups v 4 2" "uuid_groups u 6 2 = uuid_groups v 6 2"
      "uuid_groups u 8 2 = uuid_groups v 8 2" "uuid_groups u 10 6 = uuid_groups v 10 6"
    using assms(3) l [OF assms(1)] l [OF assms(2)] unfolding libkext_format_uuid_string_def
    by (simp_all add: append_eq_append_conv)
  have s: "take n (drop i u) = take n (drop i v)" if "uuid_groups u i n = uuid_groups v i n" for i n
    using hex2_concat_inj [of "take n (drop i u)" "take n (drop i v)"] that assms(1,2) by (simp add: uuid_groups_def)
  have d: "drop i w = take n (drop i w) @ drop (i + n) w" for i n and w :: bytes by (metis append_take_drop_id drop_drop add.commute)
  have "w = take 4 (drop 0 w) @ take 2 (drop 4 w) @ take 2 (drop 6 w) @ take 2 (drop 8 w) @ take 6 (drop 10 w)" if "length w = 16" for w :: bytes
    using d [of 0 w 4] d [of 4 w 2] d [of 6 w 2] d [of 8 w 2] d [of 10 w 6] that by simp
  then show ?thesis using assms(1,2) s [OF g(1)] s [OF g(2)] s [OF g(3)] s [OF g(4)] s [OF g(5)] by metis
qed

text \<open>A byte-swapped header is accepted, but its fields are read without swapping.\<close>

lemma swapped_header_not_swapped:
  "field img 0 4 = Some 0xcefaedfe \<Longrightarrow> field img 16 4 = Some n \<Longrightarrow>
    libkext_vma_uuid img = map_option (map_sum (\<lambda>e. e) libkext_format_uuid_string) (find_uuid img (nat n) 28)"
  by (simp add: libkext_vma_uuid_def)

end
