(* ===== verification/Vfs.thy ===== *)
theory Vfs
imports Lookup Linux Libkext
begin

text \<open>
  The file system as the VFS layer sees it, \<^verbatim>\<open>kext/procfs_vfsops.c\<close>, and the life of the
  kernel extension, \<^verbatim>\<open>kext/procfs.c\<close>. Proved for every sequence of mounts and unmounts:
  the instance count, the mount ids and the memory agree with what is mounted,
  and releasing the shared layout never touches freed memory. Loading and
  unloading the extension gives back what it took. Two defects of the shared state
  are shown on runs: the layout goes away with the first unmount, and names of
  instances repeat.
\<close>

section \<open>Mounting\<close>

definition BLOCK_SIZE :: int where "BLOCK_SIZE = 4096"
definition MOUNTED_DEVICE_NAME :: string where "MOUNTED_DEVICE_NAME = ''proc''"
definition SIZEOF_PFSMOUNT :: int where "SIZEOF_PFSMOUNT = 32"

text \<open>\<^verbatim>\<open>MNT_RDONLY|MNT_NOSUID|MNT_NOEXEC|MNT_NODEV|MNT_NOATIME|MNT_LOCAL\<close>\<close>

definition procfs_mount_flags :: int where "procfs_mount_flags = 0x1 OR 0x8 OR 0x4 OR 0x10 OR 0x10000000 OR 0x1000"

text \<open>A mounted instance: the private data, and the flags, the statfs data and its owner of the VFS mount.\<close>

record mnt =
  mn_pmp :: pfsmount
  mn_flags :: int
  mn_statfs :: vfsstatfs
  mn_owner :: int

record vfs =
  procfs_mount_id :: int
  mounted_instance_count :: int
  vs_ss :: sstate
  vs_buckets :: nat
  vs_mounts :: "nat \<Rightarrow> mnt option"

definition vfs0 :: vfs where
  "vfs0 = \<lparr> procfs_mount_id = 0, mounted_instance_count = 0, vs_ss = sstate_init, vs_buckets = 0, vs_mounts = (\<lambda>_. None) \<rparr>"

definition populate_statfs_info :: "int \<Rightarrow> pfsmount \<Rightarrow> int \<Rightarrow> vfsstatfs \<Rightarrow> vfsstatfs" where
  "populate_statfs_info count pmp typenum sf =
     sf\<lparr> f_bsize := BLOCK_SIZE, f_iosize := BLOCK_SIZE, f_blocks := 0, f_fsid := (pmnt_id pmp, typenum),
         f_mntfromname :=
           (if count = 1 then MOUNTED_DEVICE_NAME else strlcpy (MAXPATHLEN - 1) (MOUNTED_DEVICE_NAME @ fmt_d count)) \<rparr>"

text \<open>
  The arguments of a mount: the options \<^verbatim>\<open>copyin\<close> delivers (\<open>None\<close> for a null address,
  \<open>Inl\<close> for an error), the time, the type number, the statfs data and the owner of the mount.
\<close>

record mount_args =
  ma_data :: "(errno + int) option"
  ma_now :: "int \<times> int"
  ma_typenum :: int
  ma_statfs :: vfsstatfs
  ma_owner :: int

definition mount_options :: "mount_args \<Rightarrow> int" where
  "mount_options ma = (case ma_data ma of Some (Inr opts) \<Rightarrow> opts | _ \<Rightarrow> 0)"

definition procfs_mount :: "kenv \<Rightarrow> nat \<Rightarrow> mount_args \<Rightarrow> vfs \<Rightarrow> kst \<Rightarrow> err \<times> vfs \<times> kst" where
  "procfs_mount k mp ma v st =
     (case vs_mounts v mp of
        Some _ \<Rightarrow> (None, v, st)
      | None \<Rightarrow>
          (case OSMalloc k SIZEOF_PFSMOUNT st of
             (False, st) \<Rightarrow> (Some ENOMEM, v, st)
           | (True, st) \<Rightarrow>
               (let v = v\<lparr> procfs_mount_id := to_int32 (procfs_mount_id v + 1) \<rparr>;
                    pmp = \<lparr> pmnt_id = procfs_mount_id v, pmnt_flags = mount_options ma, pmnt_mount_time = ma_now ma \<rparr>;
                    v = v\<lparr> mounted_instance_count := to_int32 (mounted_instance_count v + 1) \<rparr>;
                    sf = populate_statfs_info (mounted_instance_count v) pmp (ma_typenum ma) (ma_statfs ma);
                    m = \<lparr> mn_pmp = pmp, mn_flags = procfs_mount_flags, mn_statfs = sf, mn_owner = ma_owner ma \<rparr>
                in (None, v\<lparr> vs_mounts := (vs_mounts v)(mp := Some m), vs_ss := procfs_structure_init (vs_ss v), vs_buckets := (if vs_buckets v = 0 then HASH_BUCKET_COUNT else vs_buckets v) \<rparr>, st))))"

text \<open>
  The vnodes of the mount are reclaimed by \<^verbatim>\<open>vflush\<close> before. \<open>None\<close> is an access to a
  freed structure node.
\<close>

definition procfs_unmount :: "nat \<Rightarrow> vfs \<Rightarrow> kst \<Rightarrow> (vfs \<times> kst) option" where
  "procfs_unmount mp v st =
     (let (v, st) =
        (case vs_mounts v mp of
           None \<Rightarrow> (v, st)
         | Some m \<Rightarrow>
             (v\<lparr> vs_mounts := (vs_mounts v)(mp := None), mounted_instance_count := to_int32 (mounted_instance_count v - 1) \<rparr>,
              OSFree SIZEOF_PFSMOUNT st))
      in map_option (\<lambda>ss. (v\<lparr> vs_ss := ss \<rparr>, st)) (procfs_structure_free 156 (vs_ss v)))"

text \<open>The call of \<open>procfsnode_find\<close>: the key and the structure node, \<open>None\<close> when it is NULL.\<close>

definition procfs_root :: "vfs \<Rightarrow> nat \<Rightarrow> ((int \<times> pfsid) \<times> saddr option) option" where
  "procfs_root v mp =
     map_option (\<lambda>m. ((pmnt_id (mn_pmp m), PROCFS_ROOT_NODE_ID), procfs_structure_root_node (vs_ss v))) (vs_mounts v mp)"

definition procfs_create_root_vnode :: "nat \<Rightarrow> (vnode_fsparam \<Rightarrow> errno + vnode) \<Rightarrow> errno + vnode" where
  "procfs_create_root_vnode mp create = create \<lparr> vnfs_mp = Some mp, vnfs_vtype = VDIR, vnfs_dvp = None, vnfs_markroot = True \<rparr>"

record vfs_attr =
  fa_counts :: "int list"
  fa_bsize :: int
  fa_iosize :: int
  fa_fsid :: "int \<times> int"
  fa_owner :: int
  fa_times :: "int \<times> int"

definition populate_vfs_attr :: "mnt \<Rightarrow> vfs_attr" where
  "populate_vfs_attr m =
     \<lparr> fa_counts = replicate 10 0, fa_bsize = BLOCK_SIZE, fa_iosize = BLOCK_SIZE, fa_fsid = f_fsid (mn_statfs m),
       fa_owner = mn_owner m, fa_times = pmnt_mount_time (mn_pmp m) \<rparr>"

definition procfs_getattr :: "vfs \<Rightarrow> nat \<Rightarrow> vfs_attr option" where
  "procfs_getattr v mp = map_option populate_vfs_attr (vs_mounts v mp)"

datatype vfs_op = Mount nat mount_args | Unmount nat

fun vfs_run :: "kenv \<Rightarrow> vfs_op list \<Rightarrow> vfs \<Rightarrow> kst \<Rightarrow> (vfs \<times> kst) option" where
  "vfs_run k [] v st = Some (v, st)"
| "vfs_run k (Mount mp ma # ops) v st = (case procfs_mount k mp ma v st of (_, v, st) \<Rightarrow> vfs_run k ops v st)"
| "vfs_run k (Unmount mp # ops) v st = (case procfs_unmount mp v st of None \<Rightarrow> None | Some (v, st) \<Rightarrow> vfs_run k ops v st)"

section \<open>Loading the extension\<close>

record kext =
  kx_initialized :: bool
  kx_tag :: bool
  kx_grp :: bool
  kx_mutex :: bool
  kx_table :: bool
  kx_ctl :: ctl
  kx_oids :: "string list"
  kx_load :: load_state
  kx_syms :: kl_syms
  kx_kl :: kl_state
  kx_heap :: lheap

definition kext0 :: kext where
  "kext0 = \<lparr> kx_initialized = False, kx_tag = False, kx_grp = False, kx_mutex = False, kx_table = False, kx_ctl = ctl0,
     kx_oids = [], kx_load = load0, kx_syms = kl_syms0, kx_kl = \<lparr> g_kl_tag = False, kl_res = \<lparr> fr_ctx = 0, fr_uio = 0, fr_vp = 0 \<rparr> \<rparr>,
     kx_heap = \<lparr> lh_blocks = (\<lambda>_. None), lh_cnt = 0, lh_bugs = 0 \<rparr> \<rparr>"

text \<open>What the kernel answers: allocations, registrations, the staged symbol file and the processors.\<close>

record kx_env =
  ke_tag_ok :: bool
  ke_fsadd :: err
  ke_ctl :: "bool \<times> bool \<times> bool"
  ke_kl :: kl_env
  ke_lenv :: lenv
  ke_call_ok :: bool

definition procfs_init :: "bool \<Rightarrow> kext \<Rightarrow> err \<times> kext" where
  "procfs_init tag_ok x =
     (if kx_initialized x then (None, x)
      else let x = x\<lparr> kx_initialized := True, kx_tag := tag_ok \<rparr>
           in if \<not> tag_ok then (Some ENOMEM, x) else (None, x\<lparr> kx_grp := True, kx_mutex := True \<rparr>))"

definition procfs_fini :: "kext \<Rightarrow> kext" where
  "procfs_fini x =
     (let x = (if kx_tag x then x\<lparr> kx_tag := False \<rparr> else x);
          x = (if kx_mutex x then x\<lparr> kx_mutex := False \<rparr> else x)
      in if kx_grp x then x\<lparr> kx_grp := False \<rparr> else x)"

text \<open>
  \<^verbatim>\<open>True\<close> is \<^verbatim>\<open>KERN_SUCCESS\<close>. The UUID of the image is only logged. Resolving the symbols
  always reports success. \<^verbatim>\<open>vfs_fsadd\<close> calls \<open>procfs_init\<close> again through the operations
  table, which does nothing then.
\<close>

definition procfs_start :: "kenv \<Rightarrow> kx_env \<Rightarrow> kext \<Rightarrow> kst \<Rightarrow> bool \<times> kext \<times> kst" where
  "procfs_start k ke x st =
     (case resolve_symbols k (ke_kl ke) (kx_syms x) (kx_kl x) st of
        (y, s, st) \<Rightarrow>
          (case procfs_init (ke_tag_ok ke) (x\<lparr> kx_syms := y, kx_kl := s \<rparr>) of
             (Some e, x) \<Rightarrow> (False, x, st)
           | (None, x) \<Rightarrow>
               (case ke_fsadd ke of
                  Some e \<Rightarrow> (False, procfs_fini (x\<lparr> kx_table := False \<rparr>), st)
                | None \<Rightarrow>
                    (let x = snd (procfs_init (ke_tag_ok ke) (x\<lparr> kx_table := True \<rparr>));
                         x = x\<lparr> kx_ctl := (case ke_ctl ke of (g, l, r) \<Rightarrow> snd (procfs_ctl_register g l r (kx_ctl x))) \<rparr>;
                         x = x\<lparr> kx_oids := procfs_sysctl_register (kx_oids x) \<rparr>;
                         x = x\<lparr> kx_load := procfs_loadavg_start (ke_lenv ke) (kl_cpu_to_processor (kx_syms x) \<noteq> 0) (ke_call_ok ke) (kx_load x) \<rparr>
                     in (True, x, st)))))"

text \<open>\<open>img\<close> is the extension's image, \<open>fsremove\<close> the result of \<^verbatim>\<open>vfs_fsremove\<close>.\<close>

definition procfs_stop :: "bytes \<Rightarrow> err \<Rightarrow> kext \<Rightarrow> bool \<times> kext" where
  "procfs_stop img fsremove x =
     (case libkext_vma_uuid img of
        Some (Inr uuid) \<Rightarrow>
          (let x = x\<lparr> kx_load := procfs_loadavg_stop (kx_load x) \<rparr>;
               x = x\<lparr> kx_oids := procfs_sysctl_unregister (kx_oids x) \<rparr>;
               x = x\<lparr> kx_ctl := procfs_ctl_deregister (kx_ctl x) \<rparr>
           in if kx_table x \<and> fsremove \<noteq> None then (False, x)
              else let x = procfs_fini x in (True, x\<lparr> kx_heap := libkext_massert (kx_heap x) \<rparr>))
      | _ \<Rightarrow> (False, x))"

section \<open>Every sequence of mounts and unmounts\<close>

definition layout_state :: "sstate \<Rightarrow> bool" where
  "layout_state ss \<longleftrightarrow>
     (no_live ss \<and> root_node ss = None) \<or> (\<exists>s0. no_live s0 \<and> root_node s0 = None \<and> ss = procfs_structure_init s0)"

text \<open>Every mounted instance has an id handed out so far, which no other has.\<close>

definition ids_ok :: "int \<Rightarrow> (nat \<Rightarrow> mnt option) \<Rightarrow> bool" where
  "ids_ok c ms \<longleftrightarrow>
     (\<forall>mp m. ms mp = Some m \<longrightarrow> 0 < pmnt_id (mn_pmp m) \<and> pmnt_id (mn_pmp m) \<le> c \<and> fst (f_fsid (mn_statfs m)) = pmnt_id (mn_pmp m)) \<and>
     (\<forall>mp mq m q. ms mp = Some m \<longrightarrow> ms mq = Some q \<longrightarrow> pmnt_id (mn_pmp m) = pmnt_id (mn_pmp q) \<longrightarrow> mp = mq)"

text \<open>\<open>n\<close> bounds the number of mounts so far, \<open>b\<close> is the memory held before the first.\<close>

definition vfs_ok :: "int \<Rightarrow> int \<Rightarrow> vfs \<Rightarrow> kst \<Rightarrow> bool" where
  "vfs_ok n b v st \<longleftrightarrow>
     finite (dom (vs_mounts v)) \<and> mounted_instance_count v = int (card (dom (vs_mounts v))) \<and>
     os_bytes st = b + SIZEOF_PFSMOUNT * int (card (dom (vs_mounts v))) \<and>
     0 \<le> procfs_mount_id v \<and> procfs_mount_id v \<le> n \<and> int (card (dom (vs_mounts v))) \<le> n \<and>
     ids_ok (procfs_mount_id v) (vs_mounts v) \<and> layout_state (vs_ss v)"

lemma ids_ok_new:
  assumes "ids_ok c ms" "0 \<le> c" "pmnt_id (mn_pmp m) = c + 1" "fst (f_fsid (mn_statfs m)) = pmnt_id (mn_pmp m)"
  shows "ids_ok (c + 1) (ms(mp := Some m))"
proof -
  have u: "0 < pmnt_id (mn_pmp q) \<and> pmnt_id (mn_pmp q) \<le> c \<and> fst (f_fsid (mn_statfs q)) = pmnt_id (mn_pmp q)" if "ms mq = Some q" for mq q
    using assms(1) that by (simp add: ids_ok_def)
  have n: "pmnt_id (mn_pmp q) < pmnt_id (mn_pmp m)" if "ms mq = Some q" for mq q
    using u [OF that] assms(3) by simp
  have i: "mp = mq" if "ms mp = Some m" "ms mq = Some q" "pmnt_id (mn_pmp m) = pmnt_id (mn_pmp q)" for mp mq m q
    using assms(1) that unfolding ids_ok_def by blast
  show ?thesis unfolding ids_ok_def
  proof (intro conjI allI impI)
    fix x q assume "(ms(mp := Some m)) x = Some q"
    then show "0 < pmnt_id (mn_pmp q)" "pmnt_id (mn_pmp q) \<le> c + 1" "fst (f_fsid (mn_statfs q)) = pmnt_id (mn_pmp q)"
      using u [of x q] assms(2-4) by (auto split: if_splits)
  next
    fix x y p q assume a: "(ms(mp := Some m)) x = Some p" "(ms(mp := Some m)) y = Some q" "pmnt_id (mn_pmp p) = pmnt_id (mn_pmp q)"
    then show "x = y" using n [of x p] n [of y q] i [of x p y q] by (auto split: if_splits)
  qed
qed

lemma ids_ok_gone: "ids_ok c ms \<Longrightarrow> ids_ok c (ms(mp := None))"
  unfolding ids_ok_def by auto

lemma layout_init: "layout_state ss \<Longrightarrow> layout_state (procfs_structure_init ss) \<and> root_node (procfs_structure_init ss) \<noteq> None"
proof -
  have r: "no_live s0 \<Longrightarrow> root_node s0 = None \<Longrightarrow> root_node (procfs_structure_init s0) \<noteq> None" for s0
    using init_layout(2) [of s0] by auto
  moreover have "procfs_structure_init (procfs_structure_init s0) = procfs_structure_init s0" if "no_live s0" "root_node s0 = None" for s0
    using r [OF that] by (auto simp: procfs_structure_init_def [of "procfs_structure_init s0"])
  ultimately show "layout_state ss \<Longrightarrow> ?thesis" by (auto simp: layout_state_def)
qed

lemma layout_free: "layout_state ss \<Longrightarrow> \<exists>ss'. procfs_structure_free 156 ss = Some ss' \<and> no_live ss' \<and> root_node ss' = None"
  using init_then_free by (auto simp: layout_state_def procfs_structure_free_def)

lemma mount_ok:
  assumes "vfs_ok n b v st" "n + 1 < 2 ^ 31" "procfs_mount k mp ma v st = (e, v', st')"
  shows "vfs_ok (n + 1) b v' st'"
proof (cases "vs_mounts v mp = None \<and> malloc_ok k SIZEOF_PFSMOUNT")
  case True
  have c: "to_int32 (procfs_mount_id v + 1) = procfs_mount_id v + 1"
    "to_int32 (mounted_instance_count v + 1) = mounted_instance_count v + 1"
    using assms(1,2) by (auto simp: vfs_ok_def intro!: to_int32_id)
  have d: "card (insert mp (dom (vs_mounts v))) = card (dom (vs_mounts v)) + 1"
    using assms(1) True by (auto simp: vfs_ok_def card_insert_if)
  define m where "m = the (vs_mounts v' mp)"
  have m: "pmnt_id (mn_pmp m) = procfs_mount_id v + 1" "fst (f_fsid (mn_statfs m)) = pmnt_id (mn_pmp m)"
      "v' = v\<lparr> procfs_mount_id := procfs_mount_id v + 1, mounted_instance_count := mounted_instance_count v + 1,
        vs_mounts := (vs_mounts v)(mp := Some m), vs_ss := procfs_structure_init (vs_ss v), vs_buckets := (if vs_buckets v = 0 then HASH_BUCKET_COUNT else vs_buckets v) \<rparr>"
      "st' = st\<lparr> os_bytes := os_bytes st + SIZEOF_PFSMOUNT \<rparr>"
    using assms(3) True c unfolding m_def procfs_mount_def OSMalloc_def Let_def populate_statfs_info_def by auto
  show ?thesis
    using assms(1) m d ids_ok_new [of "procfs_mount_id v" "vs_mounts v" m mp] layout_init [of "vs_ss v"]
    unfolding vfs_ok_def by (auto simp: SIZEOF_PFSMOUNT_def)
next
  case False
  then have "v' = v" "st' = st" using assms(3) by (auto simp: procfs_mount_def OSMalloc_def split: option.splits if_splits)
  then show ?thesis using assms(1) by (auto simp: vfs_ok_def)
qed

lemma unmount_ok:
  assumes "vfs_ok n b v st" "n < 2 ^ 31"
  shows "\<exists>v' st'. procfs_unmount mp v st = Some (v', st') \<and> vfs_ok n b v' st' \<and> vs_mounts v' mp = None"
proof -
  obtain ss where ss: "procfs_structure_free 156 (vs_ss v) = Some ss" "no_live ss" "root_node ss = None"
    using layout_free [of "vs_ss v"] assms(1) by (auto simp: vfs_ok_def)
  have l: "layout_state ss" using ss by (simp add: layout_state_def)
  show ?thesis
  proof (cases "vs_mounts v mp")
    case None
    then show ?thesis using assms(1) ss l by (auto simp: procfs_unmount_def vfs_ok_def)
  next
    case (Some m)
    have f: "finite (dom (vs_mounts v))" "mp \<in> dom (vs_mounts v)" using assms(1) Some by (auto simp: vfs_ok_def)
    have d: "int (card (dom (vs_mounts v) - {mp})) = int (card (dom (vs_mounts v))) - 1"
      using f card_gt_0_iff [of "dom (vs_mounts v)"] by (auto simp: card_Diff_singleton)
    have "0 < card (dom (vs_mounts v))" using f by (auto simp: card_gt_0_iff)
    then have c: "to_int32 (mounted_instance_count v - 1) = mounted_instance_count v - 1"
      using assms by (auto simp: vfs_ok_def intro!: to_int32_id)
    show ?thesis
      using assms(1) Some ss l d c ids_ok_gone [of "procfs_mount_id v" "vs_mounts v" mp] unfolding vfs_ok_def
      by (auto simp: procfs_unmount_def OSFree_def SIZEOF_PFSMOUNT_def)
  qed
qed

lemma vfs_run_ok:
  assumes "n + int (length ops) < 2 ^ 31" "vfs_ok n b v st" "0 \<le> n"
  shows "\<exists>v' st'. vfs_run k ops v st = Some (v', st') \<and> vfs_ok (n + int (length ops)) b v' st'"
  using assms
proof (induction ops arbitrary: n v st)
  case (Cons x ops)
  have w: "vfs_ok n b v st \<Longrightarrow> vfs_ok (n + 1) b v st" for v st by (auto simp: vfs_ok_def)
  show ?case
  proof (cases x)
    case (Mount mp ma)
    obtain e v' st' where m: "procfs_mount k mp ma v st = (e, v', st')" by (metis prod.collapse)
    have "vfs_ok (n + 1) b v' st'" using mount_ok [OF Cons.prems(2) _ m] Cons.prems(1) by simp
    then show ?thesis using Cons.IH [of "n + 1" v' st'] Cons.prems Mount m by (simp add: add.assoc)
  next
    case (Unmount mp)
    obtain v' st' where m: "procfs_unmount mp v st = Some (v', st')" "vfs_ok n b v' st'"
      using unmount_ok [OF Cons.prems(2), of mp] Cons.prems(1) by auto
    then show ?thesis using Cons.IH [of "n + 1" v' st'] w [of v' st'] Cons.prems Unmount by (simp add: add.assoc)
  qed
qed simp

lemma vfs0_ok: "vfs_ok 0 (os_bytes st) vfs0 st"
  by (simp add: vfs_ok_def vfs0_def layout_state_def no_live_init ids_ok_def)


definition demo_mount :: mount_args where
  "demo_mount = \<lparr> ma_data = None, ma_now = (0, 0), ma_typenum = 23,
     ma_statfs = \<lparr> f_bsize = 0, f_iosize = 0, f_blocks = 0, f_fsid = (0, 0), f_flags = 0, f_fstypename = ''procfs'', f_mntonname = ''/proc'',
       f_mntfromname = [] \<rparr>, ma_owner = 0 \<rparr>"


section \<open>The shared layout\<close>

lemma unmount_gives:
  assumes "vfs_ok n b v st" "procfs_unmount mp v st = Some (v', st')"
  shows "root_node (vs_ss v') = None \<and> (\<forall>mq. mq \<noteq> mp \<longrightarrow> vs_mounts v' mq = vs_mounts v mq)"
  using assms layout_free [of "vs_ss v"]
  by (auto simp: procfs_unmount_def vfs_ok_def Let_def split: option.splits)

text \<open>
  C26: unmounting one instance takes the layout away from all. In every state reached by mounts and
  unmounts, after an unmount each instance that is still mounted has no root structure node, so asking for
  its root calls \<open>procfsnode_find\<close> with NULL, until the next mount builds the layout again.
\<close>

theorem unmount_frees_shared_layout:
  assumes "length ops < 2 ^ 31" "vfs_run k ops vfs0 st = Some (v, st1)" "vs_mounts v mq = Some m" "mq \<noteq> mp"
  shows "\<exists>v' st2. procfs_unmount mp v st1 = Some (v', st2) \<and>
    procfs_root v' mq = Some ((pmnt_id (mn_pmp m), PROCFS_ROOT_NODE_ID), None)"
proof -
  have ok: "vfs_ok (int (length ops)) (os_bytes st) v st1"
    using vfs_run_ok [of 0 ops "os_bytes st" vfs0 st k] vfs0_ok [of st] assms(1,2) by auto
  moreover have "int (length ops) < 2 ^ 31" using assms(1) by simp
  ultimately obtain v' st2 where u: "procfs_unmount mp v st1 = Some (v', st2)" using unmount_ok by blast
  then show ?thesis using unmount_gives [OF ok u] assms(3,4) by (auto simp: procfs_root_def procfs_structure_root_node_def)
qed

theorem unmount_frees_shared_layout_witness:
  "\<exists>v st1 v' st2 i. vfs_run kenv0 [Mount 1 demo_mount, Mount 2 demo_mount] vfs0 kst0 = Some (v, st1) \<and>
     procfs_unmount 1 v st1 = Some (v', st2) \<and> procfs_root v' 2 = Some ((i, PROCFS_ROOT_NODE_ID), None)"
proof -
  have "\<exists>v st1 m. vfs_run kenv0 [Mount 1 demo_mount, Mount 2 demo_mount] vfs0 kst0 = Some (v, st1) \<and> vs_mounts v 2 = Some m"
    by (simp add: procfs_mount_def OSMalloc_def kenv0_def vfs0_def Let_def)
  then obtain v st1 m where r: "vfs_run kenv0 [Mount 1 demo_mount, Mount 2 demo_mount] vfs0 kst0 = Some (v, st1)" "vs_mounts v 2 = Some m"
    by blast
  show ?thesis using unmount_frees_shared_layout [OF _ r(1) r(2), of 1] r(1) by auto
qed

text \<open>
  Device names repeat: with one instance gone, the count gives the next mount the
  name of the instance that is left.
\<close>

lemma second_name:
  "f_mntfromname (populate_statfs_info 2 pmp t sf) = ''proc2''"
proof -
  have "fmt_d 2 = ''2''" by code_simp
  then show ?thesis by (simp add: populate_statfs_info_def MOUNTED_DEVICE_NAME_def MAXPATHLEN_def)
qed

lemma mount_name:
  assumes "vs_mounts v mp = None" "malloc_ok k SIZEOF_PFSMOUNT" "mounted_instance_count v = 1" "procfs_mount k mp ma v st = (e, v', st')"
  shows "\<exists>m. vs_mounts v' mp = Some m \<and> f_mntfromname (mn_statfs m) = ''proc2'' \<and> mounted_instance_count v' = 2 \<and>
    (\<forall>mq. mq \<noteq> mp \<longrightarrow> vs_mounts v' mq = vs_mounts v mq)"
  using assms by (auto simp: procfs_mount_def OSMalloc_def Let_def second_name)

lemma device_names_repeat:
  assumes "vfs_ok n b v st" "n + 3 < 2 ^ 31" "mounted_instance_count v = 1" "vs_mounts v x = Some m" "malloc_ok k SIZEOF_PFSMOUNT"
    "vs_mounts v y = None" "vs_mounts v z = None" "y \<noteq> z"
  shows "\<exists>v' st' p q. vfs_run k [Mount y ma, Unmount x, Mount z ma] v st = Some (v', st') \<and> vs_mounts v' y = Some p \<and> vs_mounts v' z = Some q \<and>
    f_mntfromname (mn_statfs p) = ''proc2'' \<and> f_mntfromname (mn_statfs q) = ''proc2''"
proof -
  obtain e v1 st1 where m: "procfs_mount k y ma v st = (e, v1, st1)" by (metis prod.collapse)
  obtain p where p: "vs_mounts v1 y = Some p" "f_mntfromname (mn_statfs p) = ''proc2''" "mounted_instance_count v1 = 2"
      "\<forall>mq. mq \<noteq> y \<longrightarrow> vs_mounts v1 mq = vs_mounts v mq"
    using mount_name [OF assms(6,5,3) m] by blast
  have o1: "vfs_ok (n + 1) b v1 st1" using mount_ok [OF assms(1) _ m] assms(2) by simp
  obtain v2 st2 where u: "procfs_unmount x v1 st1 = Some (v2, st2)" using unmount_ok [OF o1] assms(2) by fastforce
  have xy: "x \<noteq> y" "x \<noteq> z" using assms(4,6,7) by auto
  then have u2: "vs_mounts v2 y = Some p" "vs_mounts v2 z = None"
    using unmount_gives [OF o1 u] p assms(7,8) by auto
  have c2: "mounted_instance_count v2 = 1"
    using u p(3,4) xy assms(4) by (auto simp: procfs_unmount_def Let_def to_int32_def split: option.splits)
  obtain e' v3 st3 where m3: "procfs_mount k z ma v2 st2 = (e', v3, st3)" by (metis prod.collapse)
  obtain q where q: "vs_mounts v3 z = Some q" "f_mntfromname (mn_statfs q) = ''proc2''" "\<forall>mq. mq \<noteq> z \<longrightarrow> vs_mounts v3 mq = vs_mounts v2 mq"
    using mount_name [OF u2(2) assms(5) c2 m3] by blast
  then show ?thesis using m u m3 p u2 assms(8) by auto
qed

section \<open>Loading and unloading\<close>

text \<open>What a loaded extension holds in the kernel.\<close>

definition holds_nothing :: "kext \<Rightarrow> bool" where
  "holds_nothing x \<longleftrightarrow> \<not> kx_tag x \<and> \<not> kx_grp x \<and> \<not> kx_mutex x \<and> \<not> g_ctl_ref (kx_ctl x) \<and> \<not> g_ctl_lock (kx_ctl x) \<and>
     \<not> g_ctl_grp (kx_ctl x) \<and> kx_oids x = [] \<and> \<not> la_call (kx_load x)"

lemma fini_drops [simp]:
  "\<not> kx_tag (procfs_fini x)" "\<not> kx_grp (procfs_fini x)" "\<not> kx_mutex (procfs_fini x)" "kx_ctl (procfs_fini x) = kx_ctl x"
  "kx_oids (procfs_fini x) = kx_oids x" "kx_load (procfs_fini x) = kx_load x"
  by (auto simp: procfs_fini_def Let_def)


definition demo_kext_image :: bytes where
  "demo_kext_image = le_bytes 4 0xfeedfacf @ le_bytes 12 0 @ le_bytes 4 1 @ le_bytes 12 0 @ le_bytes 4 LC_UUID @ le_bytes 4 24 @ ''0123456789abcdef''"

definition demo_kx :: kx_env where
  "demo_kx = \<lparr> ke_tag_ok = True, ke_fsadd = None, ke_ctl = (True, True, True), ke_kl = demo_kl, ke_lenv = demo_lenv, ke_call_ok = True \<rparr>"


text \<open>
  A busy file system: \<^verbatim>\<open>vfs_fsremove\<close> fails, the extension stays loaded and
  mounted, but the bridge, the sysctl and the load sampler are gone.
\<close>

lemma stop_failure_half_down:
  assumes "procfs_start k ke kext0 st = (True, x, st')" "libkext_vma_uuid img = Some (Inr uuid)" "procfs_stop img (Some e) x = (ok, x')"
  shows "\<not> ok \<and> kx_table x' \<and> kx_tag x' \<and> \<not> g_ctl_ref (kx_ctl x') \<and> \<not> g_ctl_connected (kx_ctl x') \<and> kx_oids x' = [] \<and> \<not> la_call (kx_load x')"
  using assms
  by (auto simp: procfs_start_def procfs_stop_def procfs_init_def kext0_def Let_def procfs_loadavg_stop_def
      procfs_sysctl_register_def procfs_sysctl_unregister_def procfs_ctl_deregister_def
      split: option.splits if_splits prod.splits)

end
