(* ===== verification/Tools.thy ===== *)
theory Tools
imports Vfs
begin

text \<open>
  The user programs around the extension: start-up, mounting and reconnecting of \<^verbatim>\<open>tools/procfsd.c\<close>,
  and the mount command \<^verbatim>\<open>fs/mount_procfs.c\<close>. The daemon's retry loop mounts the file system once and keeps it
  mounted; a run of the daemon under the stager's name does nothing.
\<close>

section \<open>Start-up of procfsd\<close>

definition PROCFS_KEXT_PATH :: string where "PROCFS_KEXT_PATH = ''/Library/Extensions/procfs.kext''"
definition PROCFS_STAGER :: string where "PROCFS_STAGER = ''/usr/local/sbin/procfs_ksyms''"
definition PROCFS_ARM_FLAG :: string where "PROCFS_ARM_FLAG = ''/var/db/procfs.enabled''"
definition PROCFS_MOUNTPOINT :: string where "PROCFS_MOUNTPOINT = ''/proc''"

text \<open>\<open>acc\<close> is \<^verbatim>\<open>access(2)\<close> on a path: whether it may be executed, or exists. The result is the commands run.\<close>

definition procfsd_bootstrap :: "(string \<Rightarrow> bool) \<Rightarrow> string list list" where
  "procfsd_bootstrap acc =
     (if acc PROCFS_STAGER then [[PROCFS_STAGER]] else []) @
     (if acc PROCFS_ARM_FLAG then [[''/usr/bin/kmutil'', ''load'', ''-p'', PROCFS_KEXT_PATH]] else [])"

text \<open>The part of the program name behind the last slash; \<open>None\<close> is a null pointer.\<close>

definition after_slash :: "string \<Rightarrow> string" where
  "after_slash s = rev (takeWhile (\<lambda>c. c \<noteq> CHR ''/'') (rev s))"

definition base_name :: "string option list \<Rightarrow> string option" where
  "base_name argv = (case argv of [] \<Rightarrow> Some [] | None # _ \<Rightarrow> None | Some a # _ \<Rightarrow> Some (after_slash a))"

definition refuses :: "string option list \<Rightarrow> bool" where
  "refuses argv \<longleftrightarrow> base_name argv = Some ''procfs_ksyms''"

text \<open>The commands \<open>main\<close> runs before it serves, or its exit status.\<close>

definition procfsd_main :: "string option list \<Rightarrow> (string \<Rightarrow> bool) \<Rightarrow> int + string list list" where
  "procfsd_main argv acc = (if refuses argv then Inl 2 else Inr (procfsd_bootstrap acc))"

section \<open>The connection\<close>

text \<open>
  One attempt: the results of \<^verbatim>\<open>socket\<close>, \<^verbatim>\<open>ioctl\<close> and \<^verbatim>\<open>connect\<close>. \<open>fds\<close> is the set of open descriptors.
\<close>

record attempt =
  at_socket :: "nat option"
  at_ioctl_ok :: bool
  at_connect_ok :: bool

definition connect_ctl :: "attempt \<Rightarrow> nat set \<Rightarrow> nat option \<times> nat set" where
  "connect_ctl a fds =
     (case at_socket a of
        None \<Rightarrow> (None, fds)
      | Some fd \<Rightarrow>
          (let fds = insert fd fds
           in if \<not> at_ioctl_ok a then (None, fds - {fd})
              else if \<not> at_connect_ok a then (None, fds - {fd})
              else (Some fd, fds)))"

text \<open>The loop over the attempts; \<open>None\<close> while it still waits when they are used up.\<close>

fun wait_connect :: "attempt list \<Rightarrow> nat set \<Rightarrow> (nat \<times> attempt list \<times> nat set) option" where
  "wait_connect [] fds = None"
| "wait_connect (a # as) fds =
     (case connect_ctl a fds of
        (Some fd, fds) \<Rightarrow> Some (fd, as, fds)
      | (None, fds) \<Rightarrow> wait_connect as fds)"

datatype received = Packet bytes | Interrupted | Failed

text \<open>
  The serving loop: what is received, the attempts to come, the descriptor in use and the packets sent so far.
\<close>

fun serve_loop ::
  "daemon_env \<Rightarrow> received list \<Rightarrow> attempt list \<Rightarrow> nat \<Rightarrow> nat set \<Rightarrow> (nat \<times> bytes) list \<Rightarrow> (nat \<times> nat set \<times> (nat \<times> bytes) list) option" where
  "serve_loop de [] as fd fds sent = Some (fd, fds, sent)"
| "serve_loop de (Interrupted # rs) as fd fds sent = serve_loop de rs as fd fds sent"
| "serve_loop de (Failed # rs) as fd fds sent =
     (case wait_connect as (fds - {fd}) of
        None \<Rightarrow> None
      | Some (fd, as, fds) \<Rightarrow> serve_loop de rs as fd fds sent)"
| "serve_loop de (Packet p # rs) as fd fds sent =
     serve_loop de rs as fd fds (case procfsd_round de (take 256 p) of None \<Rightarrow> sent | Some resp \<Rightarrow> sent @ [(fd, resp)])"

section \<open>Mounting\<close>

text \<open>
  \<open>statfs\<close> gives the type of the file system at the mount point, \<open>mount\<close> is \<^verbatim>\<open>mount(2)\<close> of
  the file system there, on the state \<open>w\<close> of the system.
\<close>

definition procfsd_try_mount :: "bool \<Rightarrow> bool \<Rightarrow> ('w \<Rightarrow> string option) \<Rightarrow> ('w \<Rightarrow> err \<times> 'w) \<Rightarrow> 'w \<Rightarrow> 'w" where
  "procfsd_try_mount armed is_dir statfs mount w =
     (if \<not> armed then w
      else if \<not> is_dir then w
      else if statfs w = Some ''procfs'' then w
      else snd (mount w))"

text \<open>The thread: one attempt per round, with what the arm flag and the mount point are then.\<close>

definition procfsd_mount_thread :: "('w \<Rightarrow> string option) \<Rightarrow> ('w \<Rightarrow> err \<times> 'w) \<Rightarrow> (bool \<times> bool) list \<Rightarrow> 'w \<Rightarrow> 'w" where
  "procfsd_mount_thread statfs mount rounds w = fold (\<lambda>(armed, is_dir). procfsd_try_mount armed is_dir statfs mount) rounds w"

section \<open>The mount command\<close>

text \<open>
  The options \<^verbatim>\<open>getopt\<close> delivers, in order: \<open>parse\<close> is \<^verbatim>\<open>getmntopts\<close>, which updates the
  generic and the file system options. The result is \<open>None\<close> for the usage message, otherwise the verbose flag, the
  mount point, the generic options and the options for the file system.
\<close>

datatype mopt = Opt_help | Opt_verbose | Opt_o string | Opt_other

fun mount_options_loop :: "(string \<Rightarrow> int \<times> int \<Rightarrow> int \<times> int) \<Rightarrow> mopt list \<Rightarrow> bool \<Rightarrow> int \<times> int \<Rightarrow> (bool \<times> int \<times> int) option" where
  "mount_options_loop parse [] verbose gp = Some (verbose, gp)"
| "mount_options_loop parse (Opt_verbose # os) verbose gp = mount_options_loop parse os True gp"
| "mount_options_loop parse (Opt_o s # os) verbose gp = mount_options_loop parse os verbose (parse s gp)"
| "mount_options_loop parse (Opt_help # os) verbose gp = None"
| "mount_options_loop parse (Opt_other # os) verbose gp = None"

definition mount_procfs_main ::
  "(string \<Rightarrow> int \<times> int \<Rightarrow> int \<times> int) \<Rightarrow> (string \<Rightarrow> int \<Rightarrow> bytes \<Rightarrow> bool) \<Rightarrow> mopt list \<Rightarrow> string list \<Rightarrow> int" where
  "mount_procfs_main parse mount opts args =
     (case mount_options_loop parse opts False (0, 0) of
        None \<Rightarrow> 1
      | Some (verbose, generic_options, procfs_options) \<Rightarrow>
          if length args \<noteq> 2 then 1
          else if mount (args ! 1) generic_options (le_bytes 4 procfs_options @ replicate 4092 (CHR 0x00)) then 0 else 1)"

text \<open>What the extension reads of the data: the first four bytes, as the options.\<close>

definition mount_data_options :: "bytes \<Rightarrow> int" where
  "mount_data_options b = to_int32 (le_value (take 4 b))"

section \<open>The daemon keeps the file system mounted\<close>

locale mount_service =
  fixes statfs :: "'w \<Rightarrow> string option" and mount :: "'w \<Rightarrow> err \<times> 'w"
  assumes mounted_shows: "mount w = (None, w') \<Longrightarrow> statfs w' = Some ''procfs''"
    and failed_same: "mount w = (Some e, w') \<Longrightarrow> w' = w"
begin

lemma try_mount_cases:
  "procfsd_try_mount armed is_dir statfs mount w = w \<or>
   (armed \<and> is_dir \<and> statfs w \<noteq> Some ''procfs'' \<and> fst (mount w) = None \<and> procfsd_try_mount armed is_dir statfs mount w = snd (mount w))"
proof (cases "fst (mount w)")
  case None
  then show ?thesis by (auto simp: procfsd_try_mount_def)
next
  case (Some e)
  then have "snd (mount w) = w" using failed_same [of w e] by (metis prod.collapse)
  then show ?thesis by (simp add: procfsd_try_mount_def)
qed

lemma thread_keeps: "statfs w = Some ''procfs'' \<Longrightarrow> procfsd_mount_thread statfs mount rounds w = w"
  by (induction rounds) (auto simp: procfsd_mount_thread_def procfsd_try_mount_def)

lemma thread_mounts_once:
  "procfsd_mount_thread statfs mount rounds w = w \<or>
   (fst (mount w) = None \<and> procfsd_mount_thread statfs mount rounds w = snd (mount w))"
proof (induction rounds)
  case Nil
  then show ?case by (simp add: procfsd_mount_thread_def)
next
  case (Cons r rounds)
  obtain armed is_dir where r: "r = (armed, is_dir)" by (cases r)
  let ?w = "procfsd_try_mount armed is_dir statfs mount w"
  have step: "procfsd_mount_thread statfs mount (r # rounds) w = procfsd_mount_thread statfs mount rounds ?w"
    by (simp add: procfsd_mount_thread_def r)
  show ?case
  proof (cases "?w = w")
    case True
    then show ?thesis using Cons step by simp
  next
    case False
    then have m: "fst (mount w) = None" "?w = snd (mount w)" using try_mount_cases [of armed is_dir w] by auto
    then have "statfs ?w = Some ''procfs''" using mounted_shows [of w "snd (mount w)"] by (metis prod.collapse)
    then show ?thesis using thread_keeps step m by simp
  qed
qed

lemma thread_mounts:
  assumes "(True, True) \<in> set rounds" "fst (mount w) = None" "statfs w \<noteq> Some ''procfs''"
  shows "procfsd_mount_thread statfs mount rounds w = snd (mount w)"
  using assms(1)
proof (induction rounds)
  case (Cons r rounds)
  have p: "statfs (snd (mount w)) = Some ''procfs''" using mounted_shows [of w "snd (mount w)"] assms(2) by (metis prod.collapse)
  show ?case
  proof (cases "r = (True, True)")
    case True
    then show ?thesis using assms(3) thread_keeps [OF p, of rounds] by (simp add: procfsd_mount_thread_def procfsd_try_mount_def)
  next
    case False
    then have "case r of (armed, is_dir) \<Rightarrow> procfsd_try_mount armed is_dir statfs mount w = w" by (auto simp: procfsd_try_mount_def split: prod.split)
    then show ?thesis using Cons False by (auto simp: procfsd_mount_thread_def split: prod.splits)
  qed
qed simp

end

text \<open>
  The service on the modelled file system: the instances of the file system, which of them is at the mount point,
  and the extension loaded or not.
\<close>

record proc_world =
  pw_loaded :: bool
  pw_vfs :: vfs
  pw_st :: kst
  pw_at :: "nat option"

definition world_statfs :: "proc_world \<Rightarrow> string option" where
  "world_statfs w = (case pw_at w of None \<Rightarrow> Some ''apfs'' | Some _ \<Rightarrow> Some ''procfs'')"

definition world_mount :: "kenv \<Rightarrow> mount_args \<Rightarrow> nat \<Rightarrow> proc_world \<Rightarrow> err \<times> proc_world" where
  "world_mount k ma mp w =
     (if \<not> pw_loaded w then (Some ENODEV, w)
      else case procfs_mount k mp ma (pw_vfs w) (pw_st w) of
        (None, v, st) \<Rightarrow> (None, w\<lparr> pw_vfs := v, pw_st := st, pw_at := Some mp \<rparr>)
      | (Some e, v, st) \<Rightarrow> (Some e, w\<lparr> pw_vfs := v, pw_st := st \<rparr>))"

lemma procfs_mount_failed: "procfs_mount k mp ma v st = (Some e, v', st') \<Longrightarrow> v' = v \<and> st' = st"
  by (auto simp: procfs_mount_def OSMalloc_def Let_def split: option.splits if_splits)

interpretation pm: mount_service world_statfs "world_mount k ma mp" for k ma mp
  by unfold_locales
    (auto simp: world_mount_def world_statfs_def split: if_splits option.splits prod.splits dest!: procfs_mount_failed)


definition demo_world :: proc_world where
  "demo_world = \<lparr> pw_loaded = True, pw_vfs = vfs0, pw_st = kst0, pw_at = None \<rparr>"


section \<open>The connection is one descriptor\<close>

lemma connect_ctl_fds:
  assumes "at_socket a \<noteq> None \<Longrightarrow> the (at_socket a) \<notin> fds"
  shows "snd (connect_ctl a fds) = fds \<union> set_option (fst (connect_ctl a fds))"
  using assms by (auto simp: connect_ctl_def Let_def split: option.splits)

text \<open>A socket is a descriptor that is not open.\<close>

definition fresh_fds :: "attempt list \<Rightarrow> nat set \<Rightarrow> bool" where
  "fresh_fds as fds \<longleftrightarrow> (\<forall>a \<in> set as. case at_socket a of None \<Rightarrow> True | Some fd \<Rightarrow> fd \<notin> fds)"

lemma wait_connect_fds:
  assumes "fresh_fds as fds" "wait_connect as fds = Some (fd, as', fds')"
  shows "fds' = insert fd fds \<and> fd \<notin> fds \<and> set as' \<subseteq> set as"
  using assms
proof (induction as)
  case (Cons a as)
  have c: "snd (connect_ctl a fds) = fds \<union> set_option (fst (connect_ctl a fds))"
    using Cons.prems(1) by (intro connect_ctl_fds) (auto simp: fresh_fds_def)
  show ?case
  proof (cases "fst (connect_ctl a fds)")
    case None
    then show ?thesis using Cons c by (cases "connect_ctl a fds") (auto simp: fresh_fds_def)
  next
    case (Some f)
    then have "at_socket a = Some f" by (auto simp: connect_ctl_def Let_def split: option.splits if_splits)
    then show ?thesis using Cons.prems c Some by (cases "connect_ctl a fds") (auto simp: fresh_fds_def)
  qed
qed simp

text \<open>However often the connection breaks, the daemon holds one descriptor beside those it started with.\<close>

lemma serve_loop_one_fd:
  assumes "fresh_fds as base" "fd \<notin> base" "serve_loop de rs as fd (insert fd base) sent = Some (fd', fds', sent')"
  shows "fds' = insert fd' base \<and> fd' \<notin> base"
  using assms
proof (induction rs arbitrary: as fd sent)
  case (Cons r rs)
  show ?case
  proof (cases r)
    case Failed
    have b: "insert fd base - {fd} = base" using Cons.prems(2) by auto
    then obtain f as1 fds1 where w: "wait_connect as base = Some (f, as1, fds1)" using Cons.prems(3) Failed by (auto split: option.splits)
    have f: "fds1 = insert f base" "f \<notin> base" "set as1 \<subseteq> set as" using wait_connect_fds [OF Cons.prems(1) w] by auto
    then have "fresh_fds as1 base" using Cons.prems(1) by (auto simp: fresh_fds_def)
    then show ?thesis using Cons.IH [of as1 f sent] Cons.prems(3) Failed w b f by simp
  qed (use Cons in \<open>auto split: option.splits\<close>)
qed simp

text \<open>A daemon installed in place of the stager exits and runs nothing.\<close>

lemma misinstalled_exits: "procfsd_main [Some PROCFS_STAGER] acc = Inl 2"
  by (simp add: procfsd_main_def refuses_def base_name_def after_slash_def PROCFS_STAGER_def)

lemma bootstrap_gated: "\<not> acc PROCFS_ARM_FLAG \<Longrightarrow> set (procfsd_bootstrap acc) \<subseteq> {[PROCFS_STAGER]}"
  by (auto simp: procfsd_bootstrap_def)

text \<open>The options on the command line are the options of the mounted instance.\<close>

lemma mount_data_roundtrip:
  assumes "- (2 ^ 31) \<le> x" "x < 2 ^ 31"
  shows "mount_data_options (le_bytes 4 x @ replicate 4092 (CHR 0x00)) = x"
proof -
  have "le_value (le_bytes 4 x) = x mod 2 ^ 32" using le_value_bytes [of 4 x] by simp
  moreover have "to_int32 (x mod 2 ^ 32) = to_int32 x" by (simp add: to_int32_def mod_add_left_eq)
  ultimately show ?thesis using assms by (simp add: mount_data_options_def)
qed

end
