(* ===== verification/Cpu.thy ===== *)
theory Cpu
imports Linux
begin

text \<open>
  The processor library \<^verbatim>\<open>kext/lib/cpu.c\<close> and the cpuinfo node of
  \<^verbatim>\<open>kext/procfs_linux.c\<close>, for both machines they are compiled for. The bit field
  helpers agree with their arithmetic meaning; the flag lines show exactly the
  features the machine reports, each once and none cut off; the apic ids of the
  processors are a permutation; and a first read of cpuinfo is the text of all processors.
\<close>

section \<open>Bit fields\<close>

unbundle bit_operations_syntax

definition extract_bitfield :: "32 word \<Rightarrow> nat \<Rightarrow> nat \<Rightarrow> 32 word" where
  "extract_bitfield infield width offset =
     (let bitmask = (if offset + width = 32 then push_bit offset 0xFFFFFFFF
                     else push_bit offset 0xFFFFFFFF XOR push_bit (offset + width) 0xFFFFFFFF)
      in drop_bit offset (infield AND bitmask))"

text \<open>The index of the highest bit set plus one: \<^verbatim>\<open>bsr + 1\<close> and \<^verbatim>\<open>32 - clz\<close>.\<close>

fun bit_len :: "nat \<Rightarrow> nat" where
  "bit_len n = (if n = 0 then 0 else Suc (bit_len (n div 2)))"

declare bit_len.simps [simp del]

definition get_bitfield_width_x86 :: "32 word \<Rightarrow> nat" where
  "get_bitfield_width_x86 number = (let number = number - 1 in if number = 0 then 0 else bit_len (unat number))"

definition get_bitfield_width_arm :: "32 word \<Rightarrow> nat" where
  "get_bitfield_width_arm number =
     (if number = 0 then 0 else let number = number - 1 in if number = 0 then 0 else bit_len (unat number))"

section \<open>x86: vendor, protection and microcode\<close>

text \<open>
  What the machine answers: \<^verbatim>\<open>cpuid\<close> by selector (ebx, ecx, edx), model specific
  registers, the time stamp frequency, what the stack holds where an array starts, and what a
  pointer to an array that has gone out of scope reads.
\<close>

record x86_env =
  xe_cpuid :: "nat \<Rightarrow> 32 word \<times> 32 word \<times> 32 word"
  xe_rdmsr :: "nat \<Rightarrow> 64 word"
  xe_cr0 :: "64 word"
  xe_tscFreq :: int
  xe_junk :: string
  xe_dead :: "string \<Rightarrow> string"

definition is_amd_cpu :: "x86_env \<Rightarrow> bool" where
  "is_amd_cpu xe \<longleftrightarrow> xe_cpuid xe 0 = (0x68747541, 0x444D4163, 0x69746E65)"

definition is_intel_cpu :: "x86_env \<Rightarrow> bool" where
  "is_intel_cpu xe \<longleftrightarrow> xe_cpuid xe 0 = (0x756E6547, 0x6C65746E, 0x49656E69) \<or> \<not> is_amd_cpu xe"

definition CR0_WP :: "64 word" where "CR0_WP = 0x00010000"

definition disable_write_protection :: "64 word \<Rightarrow> 64 word" where
  "disable_write_protection cr0 = cr0 AND NOT CR0_WP"

definition enable_write_protection :: "64 word \<Rightarrow> 64 word" where
  "enable_write_protection cr0 = cr0 OR CR0_WP"

definition MSR_UCODE_AMD_PATCHLEVEL :: nat where "MSR_UCODE_AMD_PATCHLEVEL = 0x8b"
definition MSR_IA32_BIOS_SIGN_ID :: nat where "MSR_IA32_BIOS_SIGN_ID = 0x8b"

definition get_microcode_version :: "x86_env \<Rightarrow> 32 word" where
  "get_microcode_version xe =
     (if is_amd_cpu xe then ucast (xe_rdmsr xe MSR_UCODE_AMD_PATCHLEVEL)
      else if is_intel_cpu xe then ucast (drop_bit 32 (xe_rdmsr xe MSR_IA32_BIOS_SIGN_ID))
      else 0)"

text \<open>\<open>info_p\<close> is the pointer the version is stored through; \<open>None\<close> as a result is a store through NULL.\<close>

definition set_microcode_version :: "x86_env \<Rightarrow> 32 word option" where
  "set_microcode_version xe =
     (let info_p = (None :: 32 word option)
      in if is_intel_cpu xe \<or> is_amd_cpu xe then map_option (\<lambda>_. get_microcode_version xe) info_p else Some 0)"

section \<open>x86: feature flags\<close>

text \<open>The features by their bit in the 64-bit words of \<^verbatim>\<open>i386/cpuid.h\<close>, and their names.\<close>

definition feature_list :: "nat list" where
  "feature_list =
    [0, 1, 2, 3, 4, 5, 6, 7, 8, 9, 11, 12, 13, 14, 15, 16, 17, 18, 19, 21, 22, 23, 24, 25, 26, 27, 28, 29, 31, 32, 33, 34, 35,
     36, 37, 38, 39, 40, 41, 42, 43, 44, 45, 46, 47, 49, 50, 51, 52, 53, 54, 55, 56, 57, 58, 59, 60, 61, 62, 63]"

definition feature_ext_list :: "nat list" where
  "feature_ext_list =
    [11, 20, 26, 27, 29, 32, 37, 40]"

definition leaf7_feature_list :: "nat list" where
  "leaf7_feature_list =
    [0, 1, 2, 3, 4, 5, 6, 7, 8, 9, 10, 11, 12, 13, 14, 15, 16, 17, 18, 19, 20, 21, 23, 24, 25, 28, 29, 30, 31, 32, 33, 34, 35,
     36, 37, 40, 41, 42, 43, 44, 46, 54, 57, 59, 60, 62]"

definition leaf7_feature_ext_list :: "nat list" where
  "leaf7_feature_ext_list =
    [2, 3, 4, 9, 10, 13, 26, 27, 28, 29, 30, 31]"

definition feature_flags :: "string list" where
  "feature_flags =
    [''fpu'', ''vme'', ''de'', ''pse'', ''tsc'', ''msr'', ''pae'', ''mce'', ''cx8'', ''apic'', ''sep'', ''mtrr'', ''pge'',
     ''mca'', ''cmov'', ''pat'', ''pse36'', ''psn'', ''clfsh'', ''ds'', ''acpi'', ''mmx'', ''fxsr'', ''sse'', ''sse2'', ''ss'',
     ''htt'', ''tm'', ''pbe'', ''sse3'', ''pclmulqdq'', ''dtes64'', ''mon'', ''dscpl'', ''vmx'', ''smx'', ''est'', ''tm2'',
     ''ssse3'', ''cid'', ''seglim64'', ''fma'', ''cx16'', ''tpr'', ''pdcm'', ''pcid'', ''dca'', ''sse4.1'', ''sse4.2'',
     ''x2apic'', ''movbe'', ''popcnt'', ''tsctmr'', ''aes'', ''xsave'', ''osxsave'', ''avx'', ''f16c'', ''rdrand'', ''vmm'']"

definition feature_ext_flags :: "string list" where
  "feature_ext_flags =
    [''syscall'', ''xd'', ''1gbpage'', ''rdtscp'', ''em64t'', ''lahf'', ''lzcnt'', ''prefetchcw'']"

definition leaf7_feature_flags :: "string list" where
  "leaf7_feature_flags =
    [''rdwrfsgs'', ''tsc_thread_offset'', ''sgx'', ''bmi1'', ''hle'', ''avx2'', ''fdpeo'', ''smep'', ''bmi2'', ''erms'',
     ''invpcid'', ''rtm'', ''pqm'', ''fpu_csds'', ''mpx'', ''pqe'', ''avx512f'', ''avx512dq'', ''rdseed'', ''adx'', ''smap'',
     ''avx512ifma'', ''clfsopt'', ''clwb'', ''ipt'', ''avx512cd'', ''sha'', ''avx512bw'', ''avx512vl'', ''prefetchwt1'',
     ''avx512vbmi'', ''umip'', ''pku'', ''ospke'', ''waitpkg'', ''gfni'', ''vaes'', ''vpclmulqdq'', ''avx512vnni'',
     ''avx512bitalg'', ''avx512vpopcntdq'', ''rdpid'', ''cldemote'', ''movdiri'', ''movdiri64b'', ''sgxlc'']"

definition leaf7_feature_ext_flags :: "string list" where
  "leaf7_feature_ext_flags =
    [''avx5124vnniw'', ''avx5124fmaps'', ''fsrepmov'', ''srbds_ctlr'', ''mdclear'', ''tsxfa'', ''ibrs'', ''stibp'', ''l1d'',
     ''acapmsr'', ''ccapmsr'', ''ssbd'']"

fun flags_loop :: "nat \<Rightarrow> 64 word \<Rightarrow> (nat \<times> string) list \<Rightarrow> string \<Rightarrow> string" where
  "flags_loop n w [] flags = flags"
| "flags_loop n w ((b, name) # r) flags =
     flags_loop n w r (if bit w b then strlcat n (strlcat n flags name) '' '' else flags)"

text \<open>
  The array has twice as many pointers as the table of names has bytes. It is not
  initialised: the text is appended to what the stack holds there.
\<close>

definition flags_of :: "nat list \<Rightarrow> string list \<Rightarrow> 64 word \<Rightarrow> string \<Rightarrow> string" where
  "flags_of bits names w junk =
     (if w \<noteq> 0 then flags_loop (8 * (8 * length names * 2)) w (zip bits names) junk else strlcat (8 * 8) junk [])"

record i386_cpu_info =
  cpuid_vendor :: string
  cpuid_brand_string :: string
  cpuid_family :: int
  cpuid_model :: int
  cpuid_extmodel :: int
  cpuid_stepping :: int
  cpuid_cache_size :: int
  core_count :: int
  cache_linesize :: int
  cpuid_address_bits_physical :: int
  cpuid_address_bits_virtual :: int
  cpuid_features :: "64 word"
  cpuid_extfeatures :: "64 word"
  cpuid_leaf7_features :: "64 word"
  cpuid_leaf7_extfeatures :: "64 word"

definition get_cpu_flags_x86 :: "x86_env \<Rightarrow> i386_cpu_info \<Rightarrow> string" where
  "get_cpu_flags_x86 xe ci = flags_of feature_list feature_flags (cpuid_features ci) (xe_junk xe)"

definition get_cpu_ext_flags_x86 :: "x86_env \<Rightarrow> i386_cpu_info \<Rightarrow> string" where
  "get_cpu_ext_flags_x86 xe ci = flags_of feature_ext_list feature_ext_flags (cpuid_extfeatures ci) (xe_junk xe)"

definition CPUID_LEAF7_FEATURE_SMAP :: "64 word" where "CPUID_LEAF7_FEATURE_SMAP = push_bit 20 1"

definition quad :: "32 word \<Rightarrow> 32 word \<Rightarrow> 64 word" where
  "quad hi lo = push_bit 32 (ucast hi) OR ucast lo"

text \<open>On newer AMD processors the leaf 7 word is read again and stored.\<close>

definition read_leaf7 :: "x86_env \<Rightarrow> i386_cpu_info \<Rightarrow> i386_cpu_info" where
  "read_leaf7 xe ci =
     (if is_amd_cpu xe \<and> 23 \<le> cpuid_family ci
      then case xe_cpuid xe 7 of (ebx, ecx, edx) \<Rightarrow> ci\<lparr> cpuid_leaf7_features := quad ecx ebx AND NOT CPUID_LEAF7_FEATURE_SMAP \<rparr>
      else ci)"

definition get_leaf7_flags_x86 :: "x86_env \<Rightarrow> i386_cpu_info \<Rightarrow> string \<times> i386_cpu_info" where
  "get_leaf7_flags_x86 xe ci =
     (let ci = read_leaf7 xe ci
      in (flags_of leaf7_feature_list leaf7_feature_flags (cpuid_leaf7_features ci) (xe_junk xe), ci))"

definition get_leaf7_ext_flags_x86 :: "x86_env \<Rightarrow> i386_cpu_info \<Rightarrow> string" where
  "get_leaf7_ext_flags_x86 xe ci =
     flags_of leaf7_feature_ext_list leaf7_feature_ext_flags (cpuid_leaf7_extfeatures ci) (xe_junk xe)"

section \<open>arm64: identification\<close>

text \<open>A chip family with its part number and name.\<close>

definition cpu_families :: "(int \<times> string \<times> string) list" where
  "cpu_families =
    [(0x1e2d6381, ''0x01'', ''Apple Swift (A6)''), (0x37a09642, ''0x02'', ''Apple Cyclone (A7)''),
     (0x2c91a47e, ''0x03'', ''Apple Typhoon (A8)''), (0x92fb37c8, ''0x04'', ''Apple Twister (A9)''),
     (0x67ceee93, ''0x05'', ''Apple Hurricane (A10)''), (0xe81e7ef6, ''0x06'', ''Apple Monsoon/Mistral (A11)''),
     (0x07d34b9f, ''0x07'', ''Apple Vortex/Tempest (A12)''), (0x462504d2, ''0x08'', ''Apple Lightning/Thunder (A13)''),
     (0x1b588bb3, ''0x22'', ''Apple Firestorm/Icestorm (M1)''), (0xda33d83d, ''0x25'', ''Apple Avalanche/Blizzard (M2)''),
     (0x8765edea, ''0x28'', ''Apple Everest/Sawtooth (M3)''), (0xfa33415e, ''0x2b'', ''Apple Ibiza (M4)'')]"

definition arm64_cpu_part_string :: "int \<Rightarrow> string" where
  "arm64_cpu_part_string cpufamily = (case map_of cpu_families cpufamily of Some (part, _) \<Rightarrow> part | None \<Rightarrow> ''0x00'')"

definition arm64_cpu_name_string :: "int \<Rightarrow> string" where
  "arm64_cpu_name_string cpufamily = (case map_of cpu_families cpufamily of Some (_, name) \<Rightarrow> name | None \<Rightarrow> ''Apple ARM64'')"

text \<open>\<^verbatim>\<open>sysctlbyname\<close>: the integer value, \<open>None\<close> for an error, which leaves the variable as it was.\<close>

type_synonym sysctl_fn = "string \<Rightarrow> int option"

definition arm64_sysctl_int :: "sysctl_fn \<Rightarrow> string \<Rightarrow> int" where
  "arm64_sysctl_int sy name = (case sy name of None \<Rightarrow> 0 | Some v \<Rightarrow> v)"

definition arm64_cpu_implementer :: string where "arm64_cpu_implementer = ''0x61''"
definition arm64_cpu_architecture :: string where "arm64_cpu_architecture = ''8''"
definition arm64_cpu_variant :: string where "arm64_cpu_variant = ''0x0''"
definition arm64_cpu_revision :: string where "arm64_cpu_revision = ''0''"

definition arm64_cpu_part :: "sysctl_fn \<Rightarrow> string" where
  "arm64_cpu_part sy = arm64_cpu_part_string (case sy ''hw.cpufamily'' of None \<Rightarrow> 0 | Some v \<Rightarrow> v)"

definition arm64_cpu_name :: "sysctl_fn \<Rightarrow> string" where
  "arm64_cpu_name sy = arm64_cpu_name_string (case sy ''hw.cpufamily'' of None \<Rightarrow> 0 | Some v \<Rightarrow> v)"

definition arm64_bogomips :: "sysctl_fn \<Rightarrow> string" where
  "arm64_bogomips sy =
     (let tbfreq = (case sy ''hw.tbfrequency'' of Some v \<Rightarrow> if v = 0 then 24000000 else v | None \<Rightarrow> 24000000);
          bogo_int = to_uint64 (tbfreq * 2) div 1000000;
          bogo_frac = to_uint64 (tbfreq * 2) mod 1000000 div 10000
      in strlcpy 16 (fmt_u bogo_int @ ''.'' @ pad_left (CHR ''0'') 2 (fmt_u bogo_frac)))"

definition feature_map :: "(string \<times> string) list" where
  "feature_map =
    [(''hw.optional.floatingpoint'', ''fp''), (''hw.optional.arm.AdvSIMD'', ''asimd''),
     (''hw.optional.arm.AdvSIMD_HPFPCvt'', ''asimdhp''), (''hw.optional.arm.FEAT_FP16'', ''fphp''),
     (''hw.optional.arm.FEAT_ECV'', ''evtstrm''), (''hw.optional.arm.FEAT_AES'', ''aes''),
     (''hw.optional.arm.FEAT_PMULL'', ''pmull''), (''hw.optional.arm.FEAT_SHA1'', ''sha1''),
     (''hw.optional.arm.FEAT_SHA256'', ''sha2''), (''hw.optional.arm.FEAT_SHA512'', ''sha512''),
     (''hw.optional.arm.FEAT_SHA3'', ''sha3''), (''hw.optional.arm.FEAT_CRC32'', ''crc32''),
     (''hw.optional.arm.FEAT_LSE'', ''atomics''), (''hw.optional.arm.FEAT_LSE2'', ''uscat''),
     (''hw.optional.arm.FEAT_PAuth'', ''paca''), (''hw.optional.arm.FEAT_PAuth'', ''pacg''),
     (''hw.optional.arm.FEAT_PACIMP'', ''ilrcpc''), (''hw.optional.arm.FEAT_LRCPC'', ''lrcpc''),
     (''hw.optional.arm.FEAT_LRCPC2'', ''ilrcpc''), (''hw.optional.arm.FEAT_DPB'', ''dcpop''),
     (''hw.optional.arm.FEAT_DPB2'', ''dcpodp''), (''hw.optional.arm.FEAT_JSCVT'', ''jscvt''),
     (''hw.optional.arm.FEAT_FCMA'', ''fcma''), (''hw.optional.arm.FEAT_SB'', ''sb''), (''hw.optional.arm.FEAT_SSBS'', ''ssbs''),
     (''hw.optional.arm.FEAT_CSV2'', ''csv2''), (''hw.optional.arm.FEAT_CSV3'', ''csv3''),
     (''hw.optional.arm.FEAT_DIT'', ''dit''), (''hw.optional.armv8_gpi'', ''cpuid''),
     (''hw.optional.arm.FEAT_FRINTTS'', ''frint''), (''hw.optional.arm.FEAT_DotProd'', ''asimddp''),
     (''hw.optional.arm.FEAT_FHM'', ''asimdfhm''), (''hw.optional.arm.FEAT_FlagM'', ''flagm''),
     (''hw.optional.arm.FEAT_FlagM2'', ''flagm2''), (''hw.optional.arm.FEAT_RDM'', ''asimdrdm''),
     (''hw.optional.arm.FEAT_BTI'', ''bti''), (''hw.optional.arm.FEAT_BF16'', ''bf16''),
     (''hw.optional.arm.FEAT_I8MM'', ''i8mm''), (''hw.optional.arm.FEAT_SME'', ''sme''),
     (''hw.optional.arm.FEAT_SME2'', ''sme2'')]"

text \<open>The text so far and the flags it has.\<close>

fun arm_flags_loop :: "sysctl_fn \<Rightarrow> (string \<times> string) list \<Rightarrow> string \<Rightarrow> string list \<Rightarrow> string" where
  "arm_flags_loop sy [] flags emitted = flags"
| "arm_flags_loop sy ((ctl, flag) # r) flags emitted =
     (case sy ctl of
        None \<Rightarrow> arm_flags_loop sy r flags emitted
      | Some v \<Rightarrow>
          if v = 0 then arm_flags_loop sy r flags emitted
          else if flag \<in> set emitted then arm_flags_loop sy r flags emitted
          else arm_flags_loop sy r (strlcat 512 (strlcat 512 flags flag) '' '') (emitted @ [flag]))"

definition get_cpu_flags_arm :: "sysctl_fn \<Rightarrow> string" where
  "get_cpu_flags_arm sy =
     (let flags = arm_flags_loop sy feature_map [] []
      in if flags \<noteq> [] \<and> last flags = CHR '' '' then butlast flags else flags)"

section \<open>The cpuinfo node\<close>

definition max_cpus :: "nat option \<Rightarrow> sysctl_fn \<Rightarrow> nat" where
  "max_cpus processor_count sy =
     (case processor_count of
        Some n \<Rightarrow> n
      | None \<Rightarrow> (case sy ''hw.logicalcpu'' of Some n \<Rightarrow> nat n | None \<Rightarrow> 1))"

text \<open>
  One processor's text is formatted into the block and copied from its start, shortened by the
  offset within the page; the result of the copy is not looked at.
\<close>

definition cpuinfo_move :: "uiomove_fn \<Rightarrow> int \<Rightarrow> string \<Rightarrow> uio \<Rightarrow> uio" where
  "cpuinfo_move um page_offset entry uio =
     snd (um (strlcpy (LBFSZ * 4) entry @ [CHR 0x00], 0) (to_int32 (int (length entry) - page_offset)) uio)"

definition arm_entry :: "sysctl_fn \<Rightarrow> nat \<Rightarrow> string" where
  "arm_entry sy cpu =
     ''processor'' @ tab @ tab @ '': '' @ fmt_u (int cpu) @ nl @
     ''BogoMIPS'' @ tab @ tab @ '': '' @ arm64_bogomips sy @ nl @
     ''Features'' @ tab @ tab @ '': '' @ get_cpu_flags_arm sy @ nl @
     ''CPU implementer'' @ tab @ tab @ '': '' @ arm64_cpu_implementer @ nl @
     ''CPU architecture'' @ tab @ '': '' @ arm64_cpu_architecture @ nl @
     ''CPU variant'' @ tab @ tab @ '': '' @ arm64_cpu_variant @ nl @
     ''CPU part'' @ tab @ tab @ '': '' @ arm64_cpu_part sy @ nl @
     ''CPU revision'' @ tab @ tab @ '': '' @ arm64_cpu_revision @ nl @ nl"

definition procfs_docpuinfo_arm :: "nat option \<Rightarrow> sysctl_fn \<Rightarrow> int \<Rightarrow> uiomove_fn \<Rightarrow> uio \<Rightarrow> kst \<Rightarrow> (err \<times> uio) \<times> kst" where
  "procfs_docpuinfo_arm pc sy pg um uio st =
     (let st = st\<lparr> mallocs := mallocs st + 1 \<rparr>;
          page_offset = uio_offset uio mod pg;
          uio = fold (\<lambda>cpu. cpuinfo_move um page_offset (arm_entry sy cpu)) [0..<max_cpus pc sy] uio
      in ((None, uio), free_k st))"

text \<open>The counters of the x86 loop: the apic id and the core id of the next processor.\<close>

definition next_apicid :: "int \<Rightarrow> int \<Rightarrow> int" where
  "next_apicid n apicid = (if n \<le> apicid + 2 then 1 else apicid + 2)"

definition next_core_id :: "int \<Rightarrow> int \<Rightarrow> int" where
  "next_core_id cores core_id = (if cores - 1 < core_id + 1 then 0 else core_id + 1)"

definition yes_no :: "bool \<Rightarrow> string" where
  "yes_no b = (if b then ''yes'' else ''no'')"

definition x86_entry :: "x86_env \<Rightarrow> i386_cpu_info \<Rightarrow> nat \<Rightarrow> nat \<Rightarrow> int \<Rightarrow> int \<Rightarrow> string \<Rightarrow> string" where
  "x86_entry xe ci n cpu apicid core_id flags =
     (let freq = xe_tscFreq xe;
          fqmhz = (if freq \<noteq> 0 then to_int32 ((freq + 4999) div 1000000) else 0);
          fqkhz = (if freq \<noteq> 0 then (freq + 4999) div 10000 mod 100 else 0);
          two = pad_left (CHR ''0'') 2 (fmt_d fqkhz);
          fpu = yes_no (bit (cpuid_features ci) 0)
      in ''processor'' @ tab @ tab @ '': '' @ fmt_u (int cpu) @ nl @
         ''vendor_id'' @ tab @ tab @ '': '' @ cpuid_vendor ci @ nl @
         ''cpu family'' @ tab @ tab @ '': '' @ fmt_u (cpuid_family ci) @ nl @
         ''model'' @ tab @ tab @ tab @ '': '' @ fmt_u ((cpuid_model ci + cpuid_extmodel ci * 16) mod 256) @ nl @
         ''model name'' @ tab @ tab @ '': '' @ cpuid_brand_string ci @ nl @
         ''microcode'' @ tab @ tab @ '': 0x'' @ pad_left (CHR ''0'') 7 (fmt_x (uint (get_microcode_version xe))) @ nl @
         ''stepping'' @ tab @ tab @ '': '' @ fmt_u (cpuid_stepping ci) @ nl @
         ''cpu MHz'' @ tab @ tab @ tab @ '': '' @ fmt_d fqmhz @ ''.'' @ two @ nl @
         ''cache size'' @ tab @ tab @ '': '' @ fmt_d (to_int32 (cpuid_cache_size ci)) @ '' KB'' @ nl @
         ''physical id'' @ tab @ tab @ '': 0'' @ nl @
         ''siblings'' @ tab @ tab @ '': '' @ fmt_u (int n) @ nl @
         ''core id'' @ tab @ tab @ tab @ '': '' @ fmt_d core_id @ nl @
         ''cpu cores'' @ tab @ tab @ '': '' @ fmt_u (core_count ci) @ nl @
         ''apicid'' @ tab @ tab @ tab @ '': '' @ fmt_u apicid @ nl @
         ''initial apicid'' @ tab @ tab @ '': '' @ fmt_u apicid @ nl @
         ''fpu'' @ tab @ tab @ tab @ '': '' @ fpu @ nl @
         ''fpu_exception'' @ tab @ tab @ '': '' @ fpu @ nl @
         ''cpuid level'' @ tab @ tab @ '': '' @ fmt_u (core_count ci) @ nl @
         ''wp'' @ tab @ tab @ tab @ '': '' @ yes_no (xe_cr0 xe AND CR0_WP \<noteq> 0) @ nl @
         ''flags'' @ tab @ tab @ tab @ '': '' @ flags @ nl @
         ''bugs'' @ tab @ tab @ tab @ '': '' @ nl @
         ''bogomips'' @ tab @ tab @ '': '' @ fmt_d (to_int32 (fqmhz * 2)) @ ''.'' @ two @ nl @
         ''TLB size'' @ tab @ tab @ '': '' @ fmt_u (to_uint32 (cache_linesize ci * 40)) @ '' 4K pages'' @ nl @
         ''clflush_size'' @ tab @ tab @ '': '' @ fmt_u (cache_linesize ci) @ nl @
         ''cache_alignment'' @ tab @ tab @ '': '' @ fmt_d (to_int32 (cache_linesize ci)) @ nl @
         ''address sizes'' @ tab @ tab @ '': '' @ fmt_d (to_int32 (cpuid_address_bits_physical ci)) @ '' bits physical, '' @
           fmt_d (to_int32 (cpuid_address_bits_virtual ci)) @ '' bits virtual'' @ nl @
         ''power management'' @ tab @ '': '' @ nl @ nl)"

text \<open>The flags are read again in every round; the pointers to them are to arrays that are gone.\<close>

definition x86_flags :: "x86_env \<Rightarrow> i386_cpu_info \<Rightarrow> string \<times> i386_cpu_info" where
  "x86_flags xe ci =
     (case get_leaf7_flags_x86 xe ci of
        (leaf7, ci') \<Rightarrow>
          (xe_dead xe (get_cpu_flags_x86 xe ci) @ xe_dead xe (get_cpu_ext_flags_x86 xe ci) @ xe_dead xe leaf7 @
             xe_dead xe (get_leaf7_ext_flags_x86 xe ci'), ci'))"

fun x86_loop ::
  "x86_env \<Rightarrow> nat \<Rightarrow> uiomove_fn \<Rightarrow> int \<Rightarrow> nat \<Rightarrow> nat \<Rightarrow> int \<Rightarrow> int \<Rightarrow> i386_cpu_info \<Rightarrow> uio \<Rightarrow> uio \<times> i386_cpu_info" where
  "x86_loop xe n um page_offset 0 cpu apicid core_id ci uio = (uio, ci)"
| "x86_loop xe n um page_offset (Suc k) cpu apicid core_id ci uio =
     (case x86_flags xe ci of
        (flags, ci') \<Rightarrow>
          x86_loop xe n um page_offset k (cpu + 1) (next_apicid (int n) apicid) (next_core_id (core_count ci) core_id) ci'
            (cpuinfo_move um page_offset (x86_entry xe ci n cpu apicid core_id flags) uio))"

definition procfs_docpuinfo_x86 ::
  "x86_env \<Rightarrow> i386_cpu_info \<Rightarrow> nat option \<Rightarrow> sysctl_fn \<Rightarrow> int \<Rightarrow> uiomove_fn \<Rightarrow> uio \<Rightarrow> kst \<Rightarrow> (err \<times> uio) \<times> i386_cpu_info \<times> kst" where
  "procfs_docpuinfo_x86 xe ci pc sy pg um uio st =
     (let st = st\<lparr> mallocs := mallocs st + 1 \<rparr>; n = max_cpus pc sy
      in case x86_loop xe n um (uio_offset uio mod pg) n 0 0 0 ci uio of (uio, ci) \<Rightarrow> ((None, uio), ci, free_k st))"

section \<open>Bit fields by arithmetic\<close>

lemma ones_word: "(0xFFFFFFFF :: 32 word) = - 1"
  by simp

lemma extract_bits: "offset < 32 \<Longrightarrow> offset + width \<le> 32 \<Longrightarrow> extract_bitfield x width offset = take_bit width (drop_bit offset x)"
  unfolding extract_bitfield_def ones_word Let_def
  by (rule bit_eqI) (auto simp: bit_simps)

lemma bit_len_le: "bit_len n \<le> w \<longleftrightarrow> n < 2 ^ w"
proof (induction n arbitrary: w rule: bit_len.induct)
  case (1 n)
  show ?case
  proof (cases "n = 0")
    case True
    then show ?thesis by (simp add: bit_len.simps)
  next
    case False
    then have "bit_len n \<le> w \<longleftrightarrow> (\<exists>v. w = Suc v \<and> n div 2 < 2 ^ v)" using 1 by (subst bit_len.simps) (cases w, auto)
    also have "\<dots> \<longleftrightarrow> n < 2 ^ w" using False by (cases w) (auto simp: div_less_iff_less_mult mult.commute)
    finally show ?thesis .
  qed
qed
lemma unat_pred: "n \<noteq> 0 \<Longrightarrow> unat (n - 1 :: 32 word) = unat n - 1"
  by (metis unat_minus_one)

lemma width_least:
  assumes "n \<noteq> 0"
  shows "get_bitfield_width_arm n \<le> w \<longleftrightarrow> unat n \<le> 2 ^ w" "get_bitfield_width_x86 n = get_bitfield_width_arm n"
proof -
  have p: "0 < unat n" using assms by (simp add: unat_gt_0)
  have "n - 1 = 0 \<longleftrightarrow> unat (n - 1) = 0" by (simp only: unsigned_eq_0_iff)
  then have z: "n - 1 = 0 \<longleftrightarrow> unat n = 1" using p unat_pred [OF assms] by auto
  show "get_bitfield_width_arm n \<le> w \<longleftrightarrow> unat n \<le> 2 ^ w"
    using assms p z bit_len_le [of "unat n - 1" w] by (auto simp: get_bitfield_width_arm_def Let_def unat_pred)
  show "get_bitfield_width_x86 n = get_bitfield_width_arm n"
    using assms by (simp add: get_bitfield_width_arm_def get_bitfield_width_x86_def)
qed

text \<open>
  C40: \<open>extract_bitfield\<close> is the shift and mask it stands for: the \<open>width\<close> bits from bit \<open>offset\<close> on, for every field
  inside the word. The number of bits for a count is the least width that counts that far, with the
  \<^verbatim>\<open>bsr\<close> and with the \<^verbatim>\<open>clz\<close> instruction.
\<close>

theorem bit_fields_arithmetic:
  assumes "offset < 32" "offset + width \<le> 32" "n \<noteq> 0"
  shows "unat (extract_bitfield x width offset) = unat x div 2 ^ offset mod 2 ^ width \<and>
    (\<forall>w. get_bitfield_width_arm n \<le> w \<longleftrightarrow> unat n \<le> 2 ^ w) \<and> get_bitfield_width_x86 n = get_bitfield_width_arm n"
proof -
  have "take_bit 32 (unat x) = unat x" using unsigned_less [of x, where ?'a = nat] by (intro take_bit_nat_eq_self) simp
  then have "unat (extract_bitfield x width offset) = take_bit width (drop_bit offset (unat x))"
    using extract_bits [OF assms(1,2), of x] by (simp add: unsigned_take_bit_eq unsigned_drop_bit_eq)
  then show ?thesis using width_least [OF assms(3)] by (simp add: take_bit_eq_mod drop_bit_eq_div)
qed

theorem bit_fields_arithmetic_witness:
  "unat (extract_bitfield 0xABCD1234 8 16) = 0xCD \<and> get_bitfield_width_arm 5 \<le> 3 \<and> \<not> get_bitfield_width_arm 5 \<le> 2"
proof -
  have n: "(5 :: 32 word) \<noteq> 0" by simp
  show ?thesis using bit_fields_arithmetic [of 16 8 5 "0xABCD1234"] n by simp
qed

text \<open>The two versions differ for a count of 0.\<close>

lemma width_of_zero: "get_bitfield_width_arm 0 = 0" "get_bitfield_width_x86 0 = 32"
proof -
  show "get_bitfield_width_arm 0 = 0" by (simp add: get_bitfield_width_arm_def)
  have "bit_len 0xFFFFFFFF \<le> 32" "\<not> bit_len 0xFFFFFFFF \<le> 31" by (simp_all add: bit_len_le)
  then have "bit_len 0xFFFFFFFF = 32" by simp
  moreover have "unat (0 - 1 :: 32 word) = 0xFFFFFFFF" by (simp add: unsigned_minus_1_eq_mask mask_eq_exp_minus_1)
  ultimately show "get_bitfield_width_x86 0 = 32" unfolding get_bitfield_width_x86_def Let_def by simp
qed

lemma is_intel_iff: "is_intel_cpu xe \<longleftrightarrow> \<not> is_amd_cpu xe"
  by (auto simp: is_intel_cpu_def is_amd_cpu_def)

lemma write_protection_bit:
  "enable_write_protection cr0 AND CR0_WP = CR0_WP" "disable_write_protection cr0 AND CR0_WP = 0"
  "enable_write_protection (disable_write_protection cr0) = enable_write_protection cr0"
  by (rule bit_eqI; auto simp: enable_write_protection_def disable_write_protection_def bit_simps)+

text \<open>The pointer the version is stored through is never set.\<close>

lemma set_microcode_faults: "set_microcode_version xe = None"
  by (auto simp: set_microcode_version_def is_intel_iff)

section \<open>The flag lines\<close>

lemma strlcat_fits: "length (dst @ src) < n \<Longrightarrow> strlcat n dst src = dst @ src"
  by (auto simp: strlcat_def)

text \<open>Every word followed by a space.\<close>

definition spaced :: "string list \<Rightarrow> string" where
  "spaced ws = concat (map (\<lambda>w. w @ '' '') ws)"

lemma spaced_append [simp]: "spaced (xs @ ys) = spaced xs @ spaced ys" "spaced [] = []" "spaced (x # xs) = x @ '' '' @ spaced xs"
  by (simp_all add: spaced_def)

lemma flags_loop_all:
  assumes "length flags + length (spaced (map snd l)) < n"
  shows "flags_loop n w l flags = flags @ spaced (map snd (filter (\<lambda>p. bit w (fst p)) l))"
  using assms
proof (induction l arbitrary: flags)
  case (Cons p l)
  obtain b name where p: "p = (b, name)" by (cases p)
  have "strlcat n (strlcat n flags name) '' '' = flags @ name @ '' ''" using Cons.prems p by (simp add: strlcat_fits)
  then show ?case using Cons.IH [of "flags @ name @ '' ''"] Cons.IH [of flags] Cons.prems p by (simp add: split_beta)
qed simp

lemma x86_table_sizes:
  "length (spaced feature_flags) < 8 * (8 * length feature_flags * 2)"
  "length (spaced feature_ext_flags) < 8 * (8 * length feature_ext_flags * 2)"
  "length (spaced leaf7_feature_flags) < 8 * (8 * length leaf7_feature_flags * 2)"
  "length (spaced leaf7_feature_ext_flags) < 8 * (8 * length leaf7_feature_ext_flags * 2)"
  "length feature_list = length feature_flags" "length feature_ext_list = length feature_ext_flags"
  "length leaf7_feature_list = length leaf7_feature_flags" "length leaf7_feature_ext_list = length leaf7_feature_ext_flags"
  by (simp_all add: spaced_def feature_flags_def feature_ext_flags_def leaf7_feature_flags_def leaf7_feature_ext_flags_def
      feature_list_def feature_ext_list_def leaf7_feature_list_def leaf7_feature_ext_list_def)

text \<open>The names of the bits that are set, in table order.\<close>

definition set_names :: "nat list \<Rightarrow> string list \<Rightarrow> 64 word \<Rightarrow> string list" where
  "set_names bits names w = map snd (filter (\<lambda>p. bit w (fst p)) (zip bits names))"

lemma flags_of_names:
  assumes "length bits = length names" "length (spaced names) < 8 * (8 * length names * 2)"
  shows "flags_of bits names w [] = spaced (set_names bits names w)"
proof (cases "w = 0")
  case True
  then show ?thesis by (simp add: flags_of_def set_names_def strlcat_def)
next
  case False
  then show ?thesis using flags_loop_all [of "[]" "zip bits names" "8 * (8 * length names * 2)" w] assms
    by (simp add: flags_of_def set_names_def)
qed

fun join_words :: "string list \<Rightarrow> string" where
  "join_words [] = []"
| "join_words [w] = w"
| "join_words (w # v # ws) = w @ '' '' @ join_words (v # ws)"

lemma spaced_join: "ws \<noteq> [] \<Longrightarrow> spaced ws = join_words ws @ '' ''"
  by (induction ws rule: join_words.induct) auto

definition arm_names :: "sysctl_fn \<Rightarrow> (string \<times> string) list \<Rightarrow> string list" where
  "arm_names sy l = map snd (filter (\<lambda>p. sy (fst p) \<noteq> None \<and> sy (fst p) \<noteq> Some 0) l)"

lemma nub_distinct: "distinct xs \<Longrightarrow> nub xs = xs"
  by (simp add: nub_def distinct_remdups_id)

lemma length_spaced_remdups: "length (spaced (remdups xs)) \<le> length (spaced xs)"
  by (induction xs) auto

lemma length_spaced_nub: "length (spaced (nub xs)) \<le> length (spaced xs)"
proof -
  have r: "length (spaced (rev ys)) = length (spaced ys)" for ys by (induction ys) auto
  show ?thesis using length_spaced_remdups [of "rev xs"] r by (simp add: nub_def)
qed

lemma arm_flags_all:
  assumes "length (spaced (e @ map snd l)) < 512"
  shows "arm_flags_loop sy l (spaced (nub e)) (nub e) = spaced (nub (e @ arm_names sy l))"
  using assms
proof (induction l arbitrary: e)
  case Nil
  then show ?case by (simp add: arm_names_def)
next
  case (Cons p l)
  obtain c f where p: "p = (c, f)" by (cases p)
  have skip: "arm_flags_loop sy l (spaced (nub e)) (nub e) = spaced (nub (e @ arm_names sy l))"
    using Cons.IH [of e] Cons.prems p by simp
  have new: "arm_flags_loop sy l (spaced (nub (e @ [f]))) (nub (e @ [f])) = spaced (nub (e @ [f] @ arm_names sy l))"
    using Cons.IH [of "e @ [f]"] Cons.prems p by simp
  have fit: "strlcat 512 (strlcat 512 (spaced (nub e)) f) '' '' = spaced (nub e) @ f @ '' ''"
    using Cons.prems p length_spaced_nub [of e] by (simp add: strlcat_fits)
  show ?case
  proof (cases "sy c = None \<or> sy c = Some 0")
    case True
    then show ?thesis using skip p by (auto simp: arm_names_def)
  next
    case False
    then obtain v where v: "sy c = Some v" "v \<noteq> 0" by auto
    then have "arm_names sy (p # l) = f # arm_names sy l" using p by (simp add: arm_names_def)
    then show ?thesis using new fit v p nub_snoc [of e f] by (simp split: if_splits)
  qed
qed

lemma feature_map_fits: "length (spaced (map snd feature_map)) < 512"
  by (simp add: feature_map_def)

lemma arm_flags_join: "get_cpu_flags_arm sy = join_words (nub (arm_names sy feature_map))"
proof -
  have "arm_flags_loop sy feature_map [] [] = spaced (nub (arm_names sy feature_map))"
    using arm_flags_all [of "[]" feature_map sy] feature_map_fits by (simp add: nub_def)
  then show ?thesis
    using spaced_join [of "nub (arm_names sy feature_map)"] unfolding get_cpu_flags_arm_def Let_def by (cases "nub (arm_names sy feature_map) = []") auto
qed


definition demo_x86 :: x86_env where
  "demo_x86 = \<lparr> xe_cpuid = (\<lambda>_. (0, 0, 0)), xe_rdmsr = (\<lambda>_. 0), xe_cr0 = CR0_WP, xe_tscFreq = 0, xe_junk = [], xe_dead = (\<lambda>s. s) \<rparr>"

definition demo_ci :: i386_cpu_info where
  "demo_ci = \<lparr> cpuid_vendor = ''GenuineIntel'', cpuid_brand_string = [], cpuid_family = 6, cpuid_model = 0, cpuid_extmodel = 0,
     cpuid_stepping = 0, cpuid_cache_size = 0, core_count = 2, cache_linesize = 64, cpuid_address_bits_physical = 39,
     cpuid_address_bits_virtual = 48, cpuid_features = 0x11, cpuid_extfeatures = 0, cpuid_leaf7_features = 0,
     cpuid_leaf7_extfeatures = 0 \<rparr>"


text \<open>Without the assumption, what the stack holds comes first.\<close>

lemma junk_shows: "length (xe_junk xe) < 8 * 8 \<Longrightarrow> cpuid_extfeatures ci = 0 \<Longrightarrow> get_cpu_ext_flags_x86 xe ci = xe_junk xe"
  by (simp add: get_cpu_ext_flags_x86_def flags_of_def strlcat_def)

text \<open>The feature of another extension is shown under the name \<open>ilrcpc\<close>.\<close>

lemma pacimp_shown_as_ilrcpc: "get_cpu_flags_arm (\<lambda>n. if n = ''hw.optional.arm.FEAT_PACIMP'' then Some 1 else None) = ''ilrcpc''"
  unfolding arm_flags_join by (simp add: arm_names_def feature_map_def nub_def)

lemma bogomips_24MHz: "arm64_bogomips (\<lambda>_. None) = ''48.00''"
  by code_simp
section \<open>The processors in cpuinfo\<close>

lemma cpuinfo_move_first:
  assumes "uiomove_ok um" "length e < LBFSZ * 4" "0 \<le> uio_resid u"
  shows "cpuinfo_move um 0 e u = uio_put (take (nat (uio_resid u)) e) u"
proof -
  have "to_int32 (int (length e)) = int (length e)" using assms(2) by (intro to_int32_id) (simp_all add: LBFSZ_def)
  then show ?thesis
    using uiomove_okD [OF assms(1), of "(e @ [CHR 0x00], 0)" "int (length e)" u] assms
    by (simp add: cpuinfo_move_def in_buffer_def uiomove_ref_def min_def)
qed

lemma cpuinfo_moves:
  assumes "uiomove_ok um" "\<forall>e \<in> set es. length e < LBFSZ * 4" "0 \<le> uio_resid u"
  shows "fold (cpuinfo_move um 0) es u = uio_put (take (nat (uio_resid u)) (concat es)) u"
  using assms(2,3)
proof (induction es arbitrary: u)
  case Nil
  then show ?case by (simp add: uio_put_def)
next
  case (Cons e es)
  define v where "v = uio_put (take (nat (uio_resid u)) e) u"
  have v: "cpuinfo_move um 0 e u = v" "0 \<le> uio_resid v" "nat (uio_resid v) = nat (uio_resid u) - length e"
    using cpuinfo_move_first [OF assms(1), of e u] Cons.prems by (auto simp: v_def)
  have "uio_put (take m es') v = uio_put (take (nat (uio_resid u)) e @ take m es') u" for m es'
    by (simp add: v_def uio_put_def)
  then show ?case using Cons.IH [of v] Cons.prems v by simp
qed

lemma length_join: "length (join_words ws) \<le> length (spaced ws)"
  by (induction ws rule: join_words.induct) auto

lemma length_spaced_filter: "length (spaced (map snd (filter P l))) \<le> length (spaced (map snd l))"
  by (induction l) auto

lemma length_arm_flags: "length (get_cpu_flags_arm sy) < 512"
proof -
  have "length (get_cpu_flags_arm sy) \<le> length (spaced (nub (arm_names sy feature_map)))"
    unfolding arm_flags_join by (rule length_join)
  also have "\<dots> \<le> length (spaced (arm_names sy feature_map))" by (rule length_spaced_nub)
  also have "\<dots> \<le> length (spaced (map snd feature_map))" unfolding arm_names_def by (rule length_spaced_filter)
  finally show ?thesis using feature_map_fits by simp
qed

lemma length_part: "length (arm64_cpu_part_string f) = 4"
  by (simp add: arm64_cpu_part_string_def cpu_families_def)

lemma length_arm_entry: "cpu < 2 ^ 32 \<Longrightarrow> length (arm_entry sy cpu) < LBFSZ * 4"
proof -
  assume "cpu < 2 ^ 32"
  then have "length (fmt_u (int cpu)) \<le> 20" by (intro len_u) (simp add: uint64_ok_def)
  moreover have "length (arm64_bogomips sy) < 16" unfolding arm64_bogomips_def Let_def by (rule length_strlcpy) simp
  ultimately show ?thesis using length_arm_flags [of sy]
    by (simp add: arm_entry_def arm64_cpu_part_def length_part LBFSZ_def
        arm64_cpu_implementer_def arm64_cpu_architecture_def arm64_cpu_variant_def arm64_cpu_revision_def)
qed

text \<open>The apic id and the core id of processor \<open>i\<close> of \<open>n\<close>.\<close>

definition apicid_of :: "nat \<Rightarrow> nat \<Rightarrow> int" where
  "apicid_of n i = int (if 2 * i < n then 2 * i else 2 * (i - (n + 1) div 2) + 1)"

lemma next_apicid_of: "Suc i < n \<Longrightarrow> next_apicid (int n) (apicid_of n i) = apicid_of n (Suc i)"
  by (simp add: next_apicid_def apicid_of_def) presburger

lemma apicids_permutation: "apicid_of n ` {..<n} = int ` {..<n}"
proof -
  define h where "h = (n + 1) div 2"
  have h: "n \<le> 2 * i \<Longrightarrow> h \<le> i" for i unfolding h_def by simp
  have p: "2 * i \<noteq> Suc (2 * j)" for i j :: nat by presburger
  have "inj_on (apicid_of n) {..<n}"
  proof (rule inj_onI)
    fix i j assume e: "apicid_of n i = apicid_of n j"
    show "i = j"
      using e h [of i] h [of j] p [of i "j - h"] p [of j "i - h"] unfolding apicid_of_def h_def [symmetric]
      by (auto simp del: of_nat_add of_nat_mult split: if_splits)
  qed
  moreover have "apicid_of n ` {..<n} \<subseteq> int ` {..<n}"
  proof
    fix a assume "a \<in> apicid_of n ` {..<n}"
    then obtain i where "i < n" "a = apicid_of n i" by auto
    then have "0 \<le> a" "a < int n" by (auto simp: apicid_of_def split: if_splits)
    then show "a \<in> int ` {..<n}" by (intro image_eqI [of _ _ "nat a"]) auto
  qed
  ultimately show ?thesis by (intro card_subset_eq) (simp_all add: card_image)
qed

lemma next_core_id_of: "0 < cores \<Longrightarrow> next_core_id cores (int i mod cores) = int (Suc i) mod cores"
proof -
  assume c: "0 < cores"
  have "0 \<le> int i mod cores" "int i mod cores < cores" using c by simp_all
  moreover have "int (Suc i) mod cores = (int i mod cores + 1) mod cores" using mod_add_left_eq [of "int i" cores 1] by (simp add: add.commute)
  ultimately show ?thesis by (cases "int i mod cores + 1 = cores") (auto simp: next_core_id_def)
qed

text \<open>Storing the leaf 7 word changes nothing that is shown later.\<close>

lemma read_leaf7_keeps [simp]:
  "cpuid_vendor (read_leaf7 xe ci) = cpuid_vendor ci" "cpuid_brand_string (read_leaf7 xe ci) = cpuid_brand_string ci"
  "cpuid_family (read_leaf7 xe ci) = cpuid_family ci" "cpuid_model (read_leaf7 xe ci) = cpuid_model ci"
  "cpuid_extmodel (read_leaf7 xe ci) = cpuid_extmodel ci" "cpuid_stepping (read_leaf7 xe ci) = cpuid_stepping ci"
  "cpuid_cache_size (read_leaf7 xe ci) = cpuid_cache_size ci" "core_count (read_leaf7 xe ci) = core_count ci"
  "cache_linesize (read_leaf7 xe ci) = cache_linesize ci"
  "cpuid_address_bits_physical (read_leaf7 xe ci) = cpuid_address_bits_physical ci"
  "cpuid_address_bits_virtual (read_leaf7 xe ci) = cpuid_address_bits_virtual ci"
  "cpuid_features (read_leaf7 xe ci) = cpuid_features ci" "cpuid_extfeatures (read_leaf7 xe ci) = cpuid_extfeatures ci"
  "cpuid_leaf7_extfeatures (read_leaf7 xe ci) = cpuid_leaf7_extfeatures ci"
  by (simp_all add: read_leaf7_def split: prod.split)

lemma read_leaf7_again [simp]: "read_leaf7 xe (read_leaf7 xe ci) = read_leaf7 xe ci"
proof -
  obtain ebx ecx edx where "xe_cpuid xe 7 = (ebx, ecx, edx)" by (cases "xe_cpuid xe 7")
  then show ?thesis by (simp add: read_leaf7_def)
qed

lemma x86_flags_stable:
  "snd (x86_flags xe ci) = read_leaf7 xe ci" "fst (x86_flags xe (read_leaf7 xe ci)) = fst (x86_flags xe ci)"
  "x86_entry xe (read_leaf7 xe ci) = x86_entry xe ci"
proof -
  show "snd (x86_flags xe ci) = read_leaf7 xe ci" "fst (x86_flags xe (read_leaf7 xe ci)) = fst (x86_flags xe ci)"
    by (simp_all add: x86_flags_def get_leaf7_flags_x86_def Let_def get_cpu_flags_x86_def get_cpu_ext_flags_x86_def get_leaf7_ext_flags_x86_def)
  show "x86_entry xe (read_leaf7 xe ci) = x86_entry xe ci"
    by (intro ext) (unfold x86_entry_def read_leaf7_keeps, rule refl)
qed

definition x86_text :: "x86_env \<Rightarrow> i386_cpu_info \<Rightarrow> nat \<Rightarrow> nat \<Rightarrow> string" where
  "x86_text xe ci n i = x86_entry xe ci n i (apicid_of n i) (int i mod core_count ci) (fst (x86_flags xe ci))"

lemma x86_text_stable: "x86_text xe (read_leaf7 xe ci) n i = x86_text xe ci n i"
  by (simp add: x86_text_def x86_flags_stable)

lemma x86_loop_texts:
  assumes "0 < core_count ci" "cpu + k = n"
  shows "fst (x86_loop xe n um off k cpu (apicid_of n cpu) (int cpu mod core_count ci) ci u) =
    fold (\<lambda>i. cpuinfo_move um off (x86_text xe ci n i)) [cpu..<n] u"
  using assms
proof (induction k arbitrary: cpu ci u)
  case (Suc k)
  have l: "[cpu..<n] = cpu # [Suc cpu..<n]" using Suc.prems(2) by (simp add: upt_conv_Cons)
  obtain flags where f: "x86_flags xe ci = (flags, read_leaf7 xe ci)" using x86_flags_stable(1) [of xe ci] by (metis prod.collapse)
  let ?u = "cpuinfo_move um off (x86_text xe ci n cpu) u"
  have e: "x86_entry xe ci n cpu (apicid_of n cpu) (int cpu mod core_count ci) flags = x86_text xe ci n cpu" using f by (simp add: x86_text_def)
  show ?case
  proof (cases "k = 0")
    case True
    then show ?thesis using Suc.prems f e l by simp
  next
    case False
    then have "next_apicid (int n) (apicid_of n cpu) = apicid_of n (Suc cpu)" using Suc.prems(2) by (intro next_apicid_of) simp
    then show ?thesis
      using Suc.IH [of "read_leaf7 xe ci" "Suc cpu" ?u] Suc.prems f e l
      by (simp add: x86_flags_stable x86_text_stable next_core_id_of)
  qed
qed simp

lemma cpuinfo_fold:
  assumes "uiomove_ok um" "0 \<le> uio_resid u" "\<forall>i < n. length (g i) < LBFSZ * 4"
  shows "fold (\<lambda>i. cpuinfo_move um 0 (g i)) [0..<n] u = uio_put (take (nat (uio_resid u)) (concat (map g [0..<n]))) u"
  using cpuinfo_moves [OF assms(1) _ assms(2), of "map g [0..<n]"] assms(3) by (simp add: fold_map comp_def)

lemma cpuinfo_x86_first_read:
  assumes "uiomove_ok um" "0 < pg" "uio_offset u = 0" "0 \<le> uio_resid u" "max_cpus pc sy = n"
    "0 < core_count ci" "\<forall>i < n. length (x86_text xe ci n i) < LBFSZ * 4"
  shows "fst (procfs_docpuinfo_x86 xe ci pc sy pg um u st) = (None, uio_put (take (nat (uio_resid u)) (concat (map (x86_text xe ci n) [0..<n]))) u)"
proof -
  have "fst (x86_loop xe n um 0 n 0 0 0 ci u) = uio_put (take (nat (uio_resid u)) (concat (map (x86_text xe ci n) [0..<n]))) u"
  proof (cases "n = 0")
    case False
    then have "apicid_of n 0 = 0" by (simp add: apicid_of_def)
    then show ?thesis using x86_loop_texts [OF assms(6), of 0 n n xe um 0 u] cpuinfo_fold [OF assms(1,4,7)] by simp
  qed (simp add: uio_put_def)
  then show ?thesis using assms(3,5) by (simp add: procfs_docpuinfo_x86_def Let_def split_beta)
qed

text \<open>
  A first read of cpuinfo on arm64 delivers the text of every processor, one after the other, as far as the reader
  has room, and gives back its block; no text overruns the block it is formatted in.
\<close>

lemma cpuinfo_first_read:
  assumes "uiomove_ok um" "0 < pg" "uio_offset u = 0" "0 \<le> uio_resid u" "max_cpus pc sy = n" "n \<le> 2 ^ 32"
  shows "procfs_docpuinfo_arm pc sy pg um u st = ((None, uio_put (take (nat (uio_resid u)) (concat (map (arm_entry sy) [0..<n]))) u), st) \<and>
    (\<forall>i < n. length (arm_entry sy i) < LBFSZ * 4)"
proof -
  have l: "\<forall>i < n. length (arm_entry sy i) < LBFSZ * 4" using assms(6) length_arm_entry by simp
  then show ?thesis
    using cpuinfo_fold [OF assms(1,4) l] assms(3,5) by (simp add: procfs_docpuinfo_arm_def Let_def free_k_def)
qed

lemma cpuinfo_first_read_demo:
  "fst (procfs_docpuinfo_arm (Some 2) (\<lambda>_. None) 4096 uiomove_ref \<lparr> uio_offset = 0, uio_resid = 15, uio_out = [] \<rparr> kst0) =
    (None, \<lparr> uio_offset = 15, uio_resid = 0, uio_out = ''processor'' @ tab @ tab @ '': 0'' @ nl \<rparr>)"
proof -
  let ?u = "\<lparr> uio_offset = 0, uio_resid = 15, uio_out = [] \<rparr>"
  have c: "max_cpus (Some 2) (\<lambda>_. None) = 2" by (simp add: max_cpus_def)
  have "fmt_u 0 = ''0''" by code_simp
  then have t: "take 15 (concat (map (arm_entry (\<lambda>_. None)) [0..<2])) = ''processor'' @ tab @ tab @ '': 0'' @ nl"
    by (simp add: arm_entry_def numeral_2_eq_2)
  show ?thesis
    using cpuinfo_first_read [OF uiomove_ok_ref, of 4096 ?u "Some 2" "\<lambda>_. None" 2 kst0] c t
    by (simp add: uio_put_def)
qed
end
