(* ===== verification/Iokit.thy ===== *)
theory Iokit
imports Linux
begin

text \<open>
  Enumerating block devices, \<^verbatim>\<open>kext/procfs_iokit.cpp\<close>. The objects of the registry are a
  parameter. The enumeration fills at most the room the caller has, with the devices that have a
  BSD name in registry order, gives back every object, and the partitions node shows one line for each.
\<close>

section \<open>The enumeration\<close>

text \<open>
  A registry object: \<open>None\<close> when it is no registry entry, otherwise its properties, each \<open>None\<close> when it is
  missing or of another class. \<open>io_match\<close> and \<open>io_iterator\<close> tell whether the matching
  dictionary and the iterator are allocated; references held are counted.
\<close>

record io_entry =
  io_name :: "string option"
  io_major :: "int option"
  io_minor :: "int option"
  io_size :: "int option"

record io_env =
  io_match :: bool
  io_iterator :: bool
  io_objects :: "io_entry option list"

definition number_or_0 :: "int option \<Rightarrow> int" where
  "number_or_0 v = (case v of None \<Rightarrow> 0 | Some n \<Rightarrow> n)"

definition entry_partition :: "io_entry \<Rightarrow> procfs_partition option" where
  "entry_partition e =
     map_option (\<lambda>name. \<lparr> pp_major = to_uint32 (number_or_0 (io_major e)), pp_minor = to_uint32 (number_or_0 (io_minor e)),
                        pp_size = to_uint64 (number_or_0 (io_size e)), pp_name = strlcpy 64 name \<rparr>) (io_name e)"

text \<open>The loop: \<open>n\<close> entries are filled, in \<open>out\<close>.\<close>

fun iokit_loop :: "io_entry option list \<Rightarrow> nat \<Rightarrow> procfs_partition list \<Rightarrow> procfs_partition list" where
  "iokit_loop [] room out = out"
| "iokit_loop (obj # objs) room out =
     (if room \<le> length out then out
      else case obj of
        None \<Rightarrow> iokit_loop objs room out
      | Some e \<Rightarrow>
          (case entry_partition e of
             None \<Rightarrow> iokit_loop objs room out
           | Some p \<Rightarrow> iokit_loop objs room (out @ [p])))"

definition procfs_iokit_get_partitions :: "io_env \<Rightarrow> int \<Rightarrow> int \<Rightarrow> (errno + procfs_partition list) \<times> int" where
  "procfs_iokit_get_partitions io room refs =
     (if room \<le> 0 then (Inl EINVAL, refs)
      else if \<not> io_match io then (Inl ENOMEM, refs)
      else let refs = refs + 1;
               got = io_iterator io;
               refs = (if got then refs + 1 else refs);
               refs = refs - 1
           in if \<not> got then (Inl EIO, refs)
              else (Inr (iokit_loop (io_objects io) (nat room) []), refs - 1))"

section \<open>What is enumerated\<close>

definition devices :: "io_entry option list \<Rightarrow> procfs_partition list" where
  "devices objs = List.map_filter (\<lambda>obj. Option.bind obj entry_partition) objs"

lemma iokit_loop_devices: "length out \<le> room \<Longrightarrow> iokit_loop objs room out = out @ take (room - length out) (devices objs)"
proof (induction objs arbitrary: out)
  case Nil
  then show ?case by (simp add: devices_def List.map_filter_def)
next
  case (Cons obj objs)
  have d: "devices (obj # objs) = (case Option.bind obj entry_partition of None \<Rightarrow> devices objs | Some p \<Rightarrow> p # devices objs)"
    by (simp add: devices_def List.map_filter_def split: option.split)
  show ?case
  proof (cases "room \<le> length out")
    case False
    then have r: "room - length out = Suc (room - Suc (length out))" by simp
    show ?thesis
    proof (cases "Option.bind obj entry_partition")
      case None
      then show ?thesis using Cons.IH [of out] Cons.prems False d by (auto split: option.splits)
    next
      case (Some p)
      then obtain e where "obj = Some e" "entry_partition e = Some p" by (cases obj) auto
      then show ?thesis using Cons.IH [of "out @ [p]"] False d r Some by simp
    qed
  qed (use Cons.prems in simp)
qed

lemma get_partitions:
  "procfs_iokit_get_partitions io room refs =
    (if room \<le> 0 then Inl EINVAL else if \<not> io_match io then Inl ENOMEM else if \<not> io_iterator io then Inl EIO
     else Inr (take (nat room) (devices (io_objects io))), refs)"
  by (simp add: procfs_iokit_get_partitions_def iokit_loop_devices Let_def)

text \<open>What the partitions node asks for.\<close>

definition iokit_lenv :: "io_env \<Rightarrow> lenv \<Rightarrow> lenv" where
  "iokit_lenv io le = le\<lparr> le_iokit := (case fst (procfs_iokit_get_partitions io PROCFS_MAX_PARTS 0) of Inl _ \<Rightarrow> None | Inr ps \<Rightarrow> Some ps) \<rparr>"

text \<open>With devices to show, the node has a line for each of the first 128 in registry order, mounted or not.\<close>

lemma partitions_from_registry:
  assumes "io_match io" "io_iterator io" "devices (io_objects io) \<noteq> []" "malloc_ok k (PROCFS_MAX_PARTS * 80)"
  shows "partitions_text k (iokit_lenv io le) =
    [''major minor  #blocks  name'' @ nl @ nl] @
    map (\<lambda>p. part_line (pp_major p) (pp_minor p) (pp_size p div 1024) (pp_name p)) (take 128 (devices (io_objects io)))"
proof -
  obtain p ps where d: "take 128 (devices (io_objects io)) = p # ps" using assms(3) by (cases "devices (io_objects io)") auto
  then show ?thesis using assms by (simp add: partitions_text_def iokit_lenv_def get_partitions PROCFS_MAX_PARTS_def)
qed

text \<open>Names are cut to what the structure holds.\<close>

lemma device_fields: "p \<in> set (devices objs) \<Longrightarrow> length (pp_name p) < 64 \<and> 0 \<le> pp_size p \<and> pp_size p < 2 ^ 64"
  by (auto simp: devices_def List.map_filter_def entry_partition_def to_uint64_def strlcpy_def bind_eq_Some_conv split: option.splits)

end
