(* ===== verification/Spec2Isabelle.thy ===== *)
theory Spec2Isabelle
imports Dispatch Tools Cpu Iokit
begin

text \<open>
  Verification library of procfs, a process file system for macOS. All paths
  are below \<^verbatim>\<open>src/\<close>.

  \<^bold>\<open>The program.\<close> The kernel extension (\<^verbatim>\<open>kext/\<close>) registers a file system whose
  directories are processes, threads and descriptors and whose files are texts or
  structures made when they are read. The shape of the tree is a static layout of
  structure nodes (\<^verbatim>\<open>procfs_structure.c\<close>) built by the first mount; a vnode is an
  instance of a structure node for a pid and an object id, cached in a hash table
  (\<^verbatim>\<open>procfs_node.c\<close>). The vnode operations (\<^verbatim>\<open>procfs_vnops.c\<close>) look names up, list
  directories and dispatch a read to the function the layout installs. What a
  kernel extension may not ask the kernel, it asks the daemon \<^verbatim>\<open>tools/procfsd.c\<close>
  through a kernel control socket (\<^verbatim>\<open>procfs_ctl.c\<close>), and private kernel symbols are
  resolved from a file that \<^verbatim>\<open>tools/procfs_ksyms.c\<close> writes (\<^verbatim>\<open>lib/libklookup\<close>). The daemon
  also mounts the file system, as does \<^verbatim>\<open>fs/mount_procfs.c\<close>.

  \<^bold>\<open>Conventions.\<close> An operation takes its state and returns it. A function that
  returns 0 or an errno returns an \<open>err\<close>, \<open>None\<close> being 0. What the kernel, the hardware
  or a library outside the sources provides is an argument: the records \<open>kenv\<close>,
  \<open>lenv\<close>, \<open>fenv\<close>, \<open>kl_env\<close> and others, or a function; what is relied on is a named
  hypothesis such as \<open>uiomove_ok\<close>, shown to hold of a concrete function where a
  property uses it. References, allocations and locks are counted (\<open>kst\<close>, \<open>fres\<close>),
  so that giving them back is a theorem. C integers are \<open>int\<close> or \<open>nat\<close> with the
  conversions (\<open>to_int32\<close> and others of Prelude) written where the source has them, or
  words where bits matter. Code that runs in many threads is a step
  function or relation over events; a step is a section under the mutex, or a call that may
  be interleaved.

  \<^bold>\<open>Theories\<close>, in the order of import, with the code and the result:

  \<^item> Prelude: errors, byte buffers, C conversions, \<^verbatim>\<open>printf\<close> of numbers, generic lemmas.
  \<^item> Kernel: the kernel services and the counted resources.
  \<^item> Structure (\<^verbatim>\<open>kext/procfs_structure.c\<close>): the layout store. The layout is a well-formed
    tree; freeing it ends and releases every node once. Node ids are not reset, and
    run over after 862 mounts.
  \<^item> Subr (\<^verbatim>\<open>kext/procfs_subr.c\<close>): process and thread lists, access checks, file ids,
    \<open>procfs_copy_data\<close>. The locale \<open>seq_reader\<close> is a file read in pieces, interpreted on
    \<open>procfs_copy_data\<close>.
  \<^item> NodeTable, NodeFind (\<^verbatim>\<open>kext/procfs_node.c\<close>, reclaim in \<^verbatim>\<open>kext/procfs_vnops.c\<close>): the hash table with
    its contract \<open>node_table\<close>, and \<open>procfsnode_find\<close> over all interleavings: one node
    per key, one thread attaching, the vnode returned is the one asked for, no sleeper
    without a waker.
  \<^item> Ctl (\<^verbatim>\<open>kext/procfs_ctl.c\<close>, serving in \<^verbatim>\<open>tools/procfsd.c\<close>): requests, the daemon, lost packets,
    connects and disconnects interleaved: slots have one owner, an answer belongs to its
    request, a disconnect wakes everybody.
  \<^item> Kern (\<^verbatim>\<open>kext/lib/kern.c\<close>): routines carried over from the kernel.
  \<^item> Sysctl (\<^verbatim>\<open>kext/procfs_sysctl.c\<close>): the mirror of the sysctl tree; the name read is the path.
  \<^item> Fd (\<^verbatim>\<open>kext/procfs_fd.c\<close>): descriptor nodes and process links; every reference returned.
  \<^item> Sbuf (\<^verbatim>\<open>kext/lib/sbuf.c\<close>): the append buffer; no operation writes outside the store,
    an append is whole or refused. The locale \<open>append_buffer\<close> is what the renderers use.
  \<^item> Text (\<^verbatim>\<open>kext/procfs_limit.c\<close>, \<^verbatim>\<open>kext/procfs_note.c\<close>), Vm (\<^verbatim>\<open>kext/procfs_map.c\<close>), Status
    (\<^verbatim>\<open>kext/procfs_status.c\<close>, \<^verbatim>\<open>kext/procfs_regs.c\<close>, \<^verbatim>\<open>kext/procfs_fpregs.c\<close>, process nodes of
    \<^verbatim>\<open>kext/procfs_linux.c\<close>), Linux (system nodes of \<^verbatim>\<open>kext/procfs_linux.c\<close>), Iokit
    (\<^verbatim>\<open>kext/procfs_iokit.cpp\<close>) and Cpu (\<^verbatim>\<open>kext/lib/cpu.c\<close>, cpuinfo): the texts, that they fit
    their buffers and are delivered whole, and that what was taken is given back.
  \<^item> Memory (\<^verbatim>\<open>kext/procfs_mem.c\<close>, \<^verbatim>\<open>kext/procfs_cmdline.c\<close>, \<^verbatim>\<open>kext/procfs_auxv.c\<close>): reading another
    address space through physical memory equals reading it byte by byte; the
    argument region splits where its sections meet.
  \<^item> Lookup, Readdir, Dispatch (\<^verbatim>\<open>kext/procfs_vnops.c\<close>): a listed name is found with the listed id,
    a listing is complete, every file of the layout reaches a read function.
  \<^item> Klookup (\<^verbatim>\<open>lib/libklookup\<close>, \<^verbatim>\<open>lib/libreadfile\<close>, \<^verbatim>\<open>kext/lib/symbols.c\<close>, \<^verbatim>\<open>tools/procfs_ksyms.c\<close>): what
    the stager finds in a kernel image is what the extension resolves, slid.
  \<^item> Libkext (\<^verbatim>\<open>lib/libkext\<close>): callback count, allocation, UUIDs, and the inverted branch macros.
  \<^item> Vfs (\<^verbatim>\<open>kext/procfs_vfsops.c\<close>, \<^verbatim>\<open>kext/procfs.c\<close>): mount and unmount in any order, load and unload.
  \<^item> Tools (\<^verbatim>\<open>tools/procfsd.c\<close>, \<^verbatim>\<open>fs/mount_procfs.c\<close>): start-up, connection and mounting. The locale
    \<open>mount_service\<close> is what the mount thread relies on, interpreted on \<open>procfs_mount\<close>.

  \<^bold>\<open>Bounds and fuel.\<close> The release of the layout takes fuel because the store could be cyclic;
  it is enough to have twice the number of nodes below the one released and two more, and
  156 for the layout a mount builds. The search for a
  sysctl name takes the depth as fuel, and any tree of at most that depth is searched
  completely. \<open>region_walk\<close> has the bound \<open>PROCFS_MAP_MAX_REGIONS\<close> of the source.
  The loops \<open>pidlist_alloc\<close>, \<open>mem_loop\<close> and \<open>sbuf_vprintf_loop\<close> are partial functions, and
  that they return is proved. The instance counter is an \<^verbatim>\<open>int\<close>, whence the bound of \<open>2 ^ 31\<close>
  mounts; other bounds in hypotheses are the ranges of the C types.

  \<^bold>\<open>Not modelled.\<close> The headers of the kernel in \<^verbatim>\<open>xnu/\<close> and \<^verbatim>\<open>MacKernelSDK/\<close>: declarations
  of the kernel the extension is built against; the constants and structures
  the code uses stand with the code that uses them. The self tests of \<^verbatim>\<open>kext/lib/sbuf.c\<close>
  under \<^verbatim>\<open>DEBUG\<close>, whose conditions are the invariant \<open>sbuf_wf\<close>. The programs in
  \<^verbatim>\<open>test/\<close>, the build and install files, and the empty start routines of the libraries. Log
  messages; pointer authentication, which does not change an address; the deallocation
  of ports and buffers in the daemon; writing and renaming the staged file; and the flag tables of
  \<^verbatim>\<open>kext/lib/cpu.h\<close> that no code reads.
\<close>

end
